(* ===== verification/Prelude.thy ===== *)
theory Prelude
  imports Complex_Main "HOL-Library.Sublist" "HOL-Library.Char_ord" "HOL-Library.List_Lexorder" "HOL-Library.Word"
begin

text \<open>
  The shared prelude of the development: the collections of simplification rules the components
  feed, the types every component uses, and the part of Go's \<^verbatim>\<open>strings\<close> package the
  sources call. A Go string is a sequence of bytes, so it is a \<^typ>\<open>char list\<close>, one
  \<^typ>\<open>char\<close> per byte.
\<close>

section \<open>Collections and types\<close>

named_theorems go_strings \<open>unfolding rules for the string helpers\<close>

type_synonym byte = char
type_synonym bytes = "byte list"

text \<open>Instants (\<^verbatim>\<open>time.Time\<close>) and durations are nanosecond counts.\<close>

type_synonym gotime = int
type_synonym duration = int

definition second_ns :: duration where
  "second_ns = 1000000000"

text \<open>\<^verbatim>\<open>Time.Sub\<close> saturates at the range of \<^verbatim>\<open>Duration\<close>.\<close>

definition timeSub :: "gotime \<Rightarrow> gotime \<Rightarrow> duration" where
  "timeSub t u = max (- (2 ^ 63)) (min (2 ^ 63 - 1) (t - u))"

text \<open>The zero \<^verbatim>\<open>time.Time\<close>, the first instant of year 1, in nanoseconds since 1970.\<close>

definition zeroTime :: gotime where
  "zeroTime = - 62135596800000000000"

text \<open>
  A Go value of interface type \<^verbatim>\<open>any\<close>, as \<^verbatim>\<open>encoding/json\<close> produces it, plus the
  \<^verbatim>\<open>[]string\<close> the hook helpers store. A \<^verbatim>\<open>float64\<close> is the number it denotes.
\<close>

datatype gval =
    GNil
  | GBool bool
  | GNum rat
  | GStr string
  | GList "gval list"
  | GStrs "string list"
  | GMap "(string \<times> gval) list"

section \<open>Maps and transition systems\<close>

text \<open>An order in which Go may walk a map.\<close>

definition enumerates :: "string list \<Rightarrow> (string \<rightharpoonup> 'a) \<Rightarrow> bool" where
  "enumerates ord r \<longleftrightarrow> distinct ord \<and> set ord = dom r"

text \<open>The states a transition system reaches, and the way to prove an invariant of them.\<close>

inductive reach :: "('s \<Rightarrow> bool) \<Rightarrow> ('s \<Rightarrow> 's \<Rightarrow> bool) \<Rightarrow> 's \<Rightarrow> bool" for start step where
  reach_start: "start s \<Longrightarrow> reach start step s"
| reach_step: "reach start step s \<Longrightarrow> step s s' \<Longrightarrow> reach start step s'"

lemma reach_mono: "reach start step s \<Longrightarrow> (\<And>s s'. step s s' \<Longrightarrow> step' s s') \<Longrightarrow> reach start step' s"
  by (induction rule: reach.induct) (auto intro: reach.intros)

locale transition_invariant =
  fixes start :: "'s \<Rightarrow> bool" and step :: "'s \<Rightarrow> 's \<Rightarrow> bool" and inv :: "'s \<Rightarrow> bool"
  assumes start_inv: "start s \<Longrightarrow> inv s"
    and step_inv: "inv s \<Longrightarrow> step s s' \<Longrightarrow> inv s'"
begin

lemma reach_inv: "reach start step s \<Longrightarrow> inv s"
  by (induction rule: reach.induct) (auto intro: start_inv step_inv)

end

section \<open>Lists\<close>

lemma filter_insort_key_other:
  "\<not> P x \<Longrightarrow> filter P (insort_key f x xs) = filter P xs"
  by (induction xs) auto

lemma concat_eq_Nil_iff: "concat (map f xs) = [] \<longleftrightarrow> (\<forall>x \<in> set xs. f x = [])"
  by auto

text \<open>\<^verbatim>\<open>for i, x := range xs\<close>, collecting what each iteration appends.\<close>

definition rangeConcat :: "(nat \<Rightarrow> 'a \<Rightarrow> 'b list) \<Rightarrow> 'a list \<Rightarrow> 'b list" where
  "rangeConcat f xs = concat (map (\<lambda>(i, x). f i x) (enumerate 0 xs))"

lemma rangeConcat_Nil_iff: "rangeConcat f xs = [] \<longleftrightarrow> (\<forall>i < length xs. f i (xs ! i) = [])"
proof -
  have "rangeConcat f xs = [] \<longleftrightarrow> (\<forall>x \<in> set (enumerate 0 xs). case_prod f x = [])"
    by (auto simp: rangeConcat_def)
  also have "\<dots> \<longleftrightarrow> (\<forall>i < length xs. f i (xs ! i) = [])"
    by (simp add: all_set_conv_all_nth nth_enumerate_eq)
  finally show ?thesis .
qed

lemma all_nth_conv: "(\<forall>i < length xs. P (xs ! i)) \<longleftrightarrow> (\<forall>x \<in> set xs. P x)"
  by (auto simp: all_set_conv_all_nth)

section \<open>Go strings\<close>

definition hasPrefix :: "string \<Rightarrow> string \<Rightarrow> bool" where
  [go_strings]: "hasPrefix s p = prefix p s"

definition hasSuffix :: "string \<Rightarrow> string \<Rightarrow> bool" where
  [go_strings]: "hasSuffix s p = suffix p s"

definition trimPrefix :: "string \<Rightarrow> string \<Rightarrow> string" where
  "trimPrefix s p = (if prefix p s then drop (length p) s else s)"

definition trimSuffix :: "string \<Rightarrow> string \<Rightarrow> string" where
  "trimSuffix s p = (if suffix p s then take (length s - length p) s else s)"

definition contains :: "string \<Rightarrow> string \<Rightarrow> bool" where
  "contains s p = sublist p s"

fun splitOn :: "char \<Rightarrow> string \<Rightarrow> string list" where
  "splitOn c [] = [[]]"
| "splitOn c (x # xs) =
     (if x = c then [] # splitOn c xs
      else (case splitOn c xs of [] \<Rightarrow> [[x]] | p # ps \<Rightarrow> (x # p) # ps))"

fun joinWith :: "char \<Rightarrow> string list \<Rightarrow> string" where
  "joinWith c [] = []"
| "joinWith c [p] = p"
| "joinWith c (p # q # ps) = p @ c # joinWith c (q # ps)"

fun joinStrings :: "string \<Rightarrow> string list \<Rightarrow> string" where
  "joinStrings sep [] = []"
| "joinStrings sep [p] = p"
| "joinStrings sep (p # q # ps) = p @ sep @ joinStrings sep (q # ps)"

lemma splitOn_not_Nil [simp]: "splitOn c s \<noteq> []"
  by (induction s) (auto split: list.splits)

lemma joinWith_Cons: "ps \<noteq> [] \<Longrightarrow> joinWith c (p # ps) = p @ c # joinWith c ps"
  by (cases ps) auto

lemma joinWith_splitOn [simp]: "joinWith c (splitOn c s) = s"
proof (induction s)
  case (Cons x xs)
  obtain p ps where "splitOn c xs = p # ps" by (meson neq_Nil_conv splitOn_not_Nil)
  with Cons show ?case by (cases ps) auto
qed simp

lemma splitOn_no_sep: "p \<in> set (splitOn c s) \<Longrightarrow> c \<notin> set p"
proof (induction s arbitrary: p)
  case (Cons x xs)
  obtain q qs where "splitOn c xs = q # qs" by (meson neq_Nil_conv splitOn_not_Nil)
  with Cons show ?case by (auto split: if_splits)
qed simp

lemma splitOn_append_sep: "c \<notin> set p \<Longrightarrow> splitOn c (p @ c # s) = p # splitOn c s"
  by (induction p) auto

lemma splitOn_plain: "c \<notin> set p \<Longrightarrow> splitOn c p = [p]"
  by (induction p) auto

lemma splitOn_joinWith:
  "ps \<noteq> [] \<Longrightarrow> (\<And>p. p \<in> set ps \<Longrightarrow> c \<notin> set p) \<Longrightarrow> splitOn c (joinWith c ps) = ps"
  by (induction c ps rule: joinWith.induct) (auto simp: splitOn_append_sep splitOn_plain)

subsection \<open>\<open>strings.TrimSpace\<close>\<close>

text \<open>
  The UTF-8 encodings of the code points \<^verbatim>\<open>unicode.IsSpace\<close> accepts. \<^verbatim>\<open>TrimSpace\<close>
  drops such encodings from both ends; a prefix (suffix) of the string that is one of these
  encodings is what decoding its first (last) rune yields.
\<close>

definition spaceEncodings :: "string list" where
  "spaceEncodings =
     [[CHR 0x09], [CHR 0x0A], [CHR 0x0B], [CHR 0x0C], [CHR 0x0D], [CHR 0x20],
      [CHR 0xC2, CHR 0x85], [CHR 0xC2, CHR 0xA0], [CHR 0xE1, CHR 0x9A, CHR 0x80],
      [CHR 0xE2, CHR 0x80, CHR 0x80], [CHR 0xE2, CHR 0x80, CHR 0x81],
      [CHR 0xE2, CHR 0x80, CHR 0x82], [CHR 0xE2, CHR 0x80, CHR 0x83],
      [CHR 0xE2, CHR 0x80, CHR 0x84], [CHR 0xE2, CHR 0x80, CHR 0x85],
      [CHR 0xE2, CHR 0x80, CHR 0x86], [CHR 0xE2, CHR 0x80, CHR 0x87],
      [CHR 0xE2, CHR 0x80, CHR 0x88], [CHR 0xE2, CHR 0x80, CHR 0x89],
      [CHR 0xE2, CHR 0x80, CHR 0x8A], [CHR 0xE2, CHR 0x80, CHR 0xA8],
      [CHR 0xE2, CHR 0x80, CHR 0xA9], [CHR 0xE2, CHR 0x80, CHR 0xAF],
      [CHR 0xE2, CHR 0x81, CHR 0x9F], [CHR 0xE3, CHR 0x80, CHR 0x80]]"

function stripPrefixes :: "string list \<Rightarrow> string \<Rightarrow> string" where
  "stripPrefixes ps s =
     (case find (\<lambda>p. p \<noteq> [] \<and> prefix p s) ps of
        None \<Rightarrow> s
      | Some p \<Rightarrow> stripPrefixes ps (drop (length p) s))"
  by pat_completeness auto
termination
  by (relation "measure (\<lambda>(ps, s). length s)")
     (auto simp: find_Some_iff prefix_def)

declare stripPrefixes.simps [simp del]

definition trimLeft :: "string \<Rightarrow> string" where
  "trimLeft s = stripPrefixes spaceEncodings s"

definition trimRight :: "string \<Rightarrow> string" where
  "trimRight s = rev (stripPrefixes (map rev spaceEncodings) (rev s))"

definition trimSpace :: "string \<Rightarrow> string" where
  "trimSpace s = trimRight (trimLeft s)"

lemma stripPrefixes_suffix: "suffix (stripPrefixes ps s) s"
proof (induction ps s rule: stripPrefixes.induct)
  case (1 ps s)
  show ?case
    by (cases "find (\<lambda>p. p \<noteq> [] \<and> prefix p s) ps")
       (auto simp: stripPrefixes.simps[of ps s] intro: 1 suffix_order.trans suffix_drop)
qed

lemma trimSpace_sublist: "sublist (trimSpace s) s"
proof -
  have "suffix (trimLeft s) s"
    by (simp add: trimLeft_def stripPrefixes_suffix)
  moreover have "prefix (trimSpace s) (trimLeft s)"
    unfolding trimSpace_def trimRight_def
    using stripPrefixes_suffix[of "map rev spaceEncodings" "rev (trimLeft s)"]
    by (metis rev_rev_ident suffix_to_prefix)
  ultimately show ?thesis
    by (metis prefix_imp_sublist suffix_imp_sublist sublist_order.order_trans)
qed

lemma set_trimSpace: "set (trimSpace s) \<subseteq> set s"
  using set_mono_sublist trimSpace_sublist by blast

text \<open>A string that neither begins nor ends with a byte some encoding begins or ends with is
  left as it is.\<close>

definition plainEnds :: "string \<Rightarrow> bool" where
  "plainEnds s = (s = [] \<or>
     (\<forall>p \<in> set spaceEncodings. hd p \<noteq> hd s \<and> last p \<noteq> last s))"

lemma stripPrefixes_id:
  assumes "\<And>p. p \<in> set ps \<Longrightarrow> p \<noteq> [] \<Longrightarrow> s = [] \<or> hd p \<noteq> hd s"
  shows "stripPrefixes ps s = s"
proof -
  have "find (\<lambda>p. p \<noteq> [] \<and> prefix p s) ps = None"
    using assms by (fastforce simp: find_None_iff prefix_def)
  then show ?thesis by (simp add: stripPrefixes.simps[of ps s])
qed

lemma trimSpace_plainEnds: "plainEnds s \<Longrightarrow> trimSpace s = s"
proof -
  assume p: "plainEnds s"
  have "trimLeft s = s"
    unfolding trimLeft_def by (rule stripPrefixes_id) (use p in \<open>auto simp: plainEnds_def\<close>)
  moreover have "trimRight s = s"
    unfolding trimRight_def
    by (subst stripPrefixes_id) (use p in \<open>auto simp: plainEnds_def hd_rev\<close>)
  ultimately show ?thesis by (simp add: trimSpace_def)
qed

section \<open>The character classes of the sources\<close>

definition lower :: string where "lower = ''abcdefghijklmnopqrstuvwxyz''"
definition upper :: string where "upper = ''ABCDEFGHIJKLMNOPQRSTUVWXYZ''"
definition digits :: string where "digits = ''0123456789''"
definition hexLower :: string where "hexLower = ''0123456789abcdef''"

section \<open>Printing numbers and bytes (\<open>fmt\<close>)\<close>

fun showNat :: "nat \<Rightarrow> string" where
  "showNat n = (if n < 10 then [char_of (48 + n)] else showNat (n div 10) @ [char_of (48 + n mod 10)])"

declare showNat.simps [simp del]

text \<open>\<^verbatim>\<open>%d\<close>\<close>

definition showInt :: "int \<Rightarrow> string" where
  "showInt i = (if i < 0 then CHR ''-'' # showNat (nat (- i)) else showNat (nat i))"

definition hexDigit :: "nat \<Rightarrow> char" where
  "hexDigit n = hexLower ! n"

text \<open>\<^verbatim>\<open>%x\<close> on bytes, and \<^verbatim>\<open>hex.EncodeToString\<close>\<close>

definition hexEncode :: "bytes \<Rightarrow> string" where
  "hexEncode bs =
     concat (map (\<lambda>b. [hexDigit (of_char b div 16), hexDigit (of_char b mod 16)]) bs)"

lemma set_showNat: "set (showNat n) \<subseteq> set digits"
proof (induction n rule: showNat.induct)
  case (1 n)
  have d: "char_of (48 + k) \<in> set digits" if "k < 10" for k :: nat
  proof -
    have "list_all (\<lambda>k. char_of (48 + k) \<in> set digits) [0 ..< 10]" by code_simp
    with that show ?thesis by (simp only: list_all_iff set_upt) auto
  qed
  show ?case
    using 1 d[of n] d[of "n mod 10"] by (subst showNat.simps) auto
qed

lemma set_showInt: "set (showInt i) \<subseteq> insert (CHR ''-'') (set digits)"
  using set_showNat by (auto simp: showInt_def)

lemma dash_not_digit: "CHR ''-'' \<notin> set digits"
  by code_simp

text \<open>Reading a printed number back.\<close>

definition readNat :: "string \<Rightarrow> nat" where
  "readNat s = foldl (\<lambda>n c. 10 * n + (of_char c - 48)) 0 s"

lemma readNat_showNat [simp]: "readNat (showNat n) = n"
proof (induction n rule: showNat.induct)
  case (1 n)
  then show ?case by (subst showNat.simps) (auto simp: readNat_def)
qed

lemma showNat_inject [simp]: "showNat m = showNat n \<longleftrightarrow> m = n"
  by (metis readNat_showNat)

lemma showInt_inject [simp]: "showInt i = showInt j \<longleftrightarrow> i = j"
proof
  have "showNat n \<noteq> CHR ''-'' # s" for n s using set_showNat[of n] dash_not_digit by auto
  then have dash: "showNat n \<noteq> CHR ''-'' # s" "CHR ''-'' # s \<noteq> showNat n" for n s by metis+
  assume "showInt i = showInt j"
  then show "i = j" using dash by (auto simp: showInt_def split: if_splits)
qed simp

lemma length_hexLower: "length hexLower = 16" and distinct_hexLower: "distinct hexLower"
  by code_simp+

lemma hexDigit_mem: "n < 16 \<Longrightarrow> hexDigit n \<in> set hexLower"
  unfolding hexDigit_def by (rule nth_mem) (simp add: length_hexLower)

lemma hexDigit_inject: "m < 16 \<Longrightarrow> n < 16 \<Longrightarrow> hexDigit m = hexDigit n \<Longrightarrow> m = n"
  unfolding hexDigit_def by (simp add: nth_eq_iff_index_eq length_hexLower distinct_hexLower)

lemma of_char_div_16: "of_char (c :: char) div (16 :: nat) < 16"
proof -
  have "of_char c < (256 :: nat)" by (rule nat_of_char_less_256)
  then show ?thesis by linarith
qed

lemma set_hexEncode: "set (hexEncode bs) \<subseteq> set hexLower"
  by (auto simp: hexEncode_def intro!: hexDigit_mem of_char_div_16)

lemma length_hexEncode [simp]: "length (hexEncode bs) = 2 * length bs"
  by (induction bs) (auto simp: hexEncode_def)

lemma hexEncode_inject [simp]: "hexEncode xs = hexEncode ys \<longleftrightarrow> xs = ys"
proof (induction xs arbitrary: ys)
  case Nil
  show ?case by (cases ys) (auto simp: hexEncode_def)
next
  case (Cons x xs)
  show ?case
  proof (cases ys)
    case (Cons y zs)
    have "x = y" if "hexDigit (of_char x div 16) = hexDigit (of_char y div 16)"
      "hexDigit (of_char x mod 16) = hexDigit (of_char y mod 16)"
    proof -
      have "of_char x div 16 = (of_char y div 16 :: nat)" "of_char x mod 16 = (of_char y mod 16 :: nat)"
        using that by (auto intro!: hexDigit_inject of_char_div_16)
      then have "of_char x = (of_char y :: nat)" by (metis div_mult_mod_eq)
      then show ?thesis by simp
    qed
    with Cons Cons.IH[of zs] show ?thesis by (auto simp: hexEncode_def)
  qed (simp add: hexEncode_def)
qed

end
