(* ===== verification/Semver.thy ===== *)
theory Semver
  imports Prelude "HOL-Library.Product_Lexorder"
begin

text \<open>
  Version comparison of \<^verbatim>\<open>plugin/appstore/supervisor.go\<close>: \<^verbatim>\<open>compareVersions\<close>
  and its helpers, the order they implement (a lexicographic key with a release above its
  pre-releases), and the contract a downgrade guard needs of a comparison, as a locale.
\<close>

section \<open>The code\<close>

subsection \<open>\<open>strconv.Atoi\<close> on a 64-bit platform\<close>

definition isDigit :: "char \<Rightarrow> bool" where
  "isDigit c = (CHR ''0'' \<le> c \<and> c \<le> CHR ''9'')"

definition digitVal :: "char \<Rightarrow> int" where
  "digitVal c = int (of_char c) - 48"

definition decimal :: "string \<Rightarrow> int" where
  "decimal s = foldl (\<lambda>n c. 10 * n + digitVal c) 0 s"

definition unsigned :: "string \<Rightarrow> int option" where
  "unsigned s = (if s \<noteq> [] \<and> list_all isDigit s then Some (decimal s) else None)"

definition atoi :: "string \<Rightarrow> int option" where
  "atoi s =
     (let v = (case s of
          [] \<Rightarrow> None
        | c # cs \<Rightarrow> (if c = CHR ''-'' then map_option uminus (unsigned cs)
                     else if c = CHR ''+'' then unsigned cs
                     else unsigned s))
      in case v of
           None \<Rightarrow> None
         | Some n \<Rightarrow> (if - (2 ^ 63) \<le> n \<and> n < 2 ^ 63 then Some n else None))"

subsection \<open>Comparing versions\<close>

definition atoiOrZero :: "string \<Rightarrow> int" where
  "atoiOrZero s = (case atoi s of None \<Rightarrow> 0 | Some n \<Rightarrow> n)"

definition indexOrEmpty :: "string list \<Rightarrow> nat \<Rightarrow> string" where
  "indexOrEmpty parts i = (if i < length parts then parts ! i else ''0'')"

fun splitSemver :: "string \<Rightarrow> string \<times> string" where
  "splitSemver [] = ([], [])"
| "splitSemver (c # v) =
     (if c = CHR ''-'' then ([], v)
      else (let (numeric, prerelease) = splitSemver v in (c # numeric, prerelease)))"

text \<open>The loop \<^verbatim>\<open>for i := 0; i < 3; i++\<close>, from index \<open>i\<close> on.\<close>

function compareNumericFrom :: "string list \<Rightarrow> string list \<Rightarrow> nat \<Rightarrow> int" where
  "compareNumericFrom aParts bParts i =
     (if i < 3 then
        (let av = atoiOrZero (indexOrEmpty aParts i);
             bv = atoiOrZero (indexOrEmpty bParts i)
         in if av < bv then -1
            else if av > bv then 1
            else compareNumericFrom aParts bParts (Suc i))
      else 0)"
  by pat_completeness auto
termination
  by (relation "measure (\<lambda>(a, b, i). 3 - i)") auto

declare compareNumericFrom.simps [simp del]

definition compareNumericParts :: "string \<Rightarrow> string \<Rightarrow> int" where
  "compareNumericParts a b = compareNumericFrom (splitOn CHR ''.'' a) (splitOn CHR ''.'' b) 0"

definition compareVersions :: "string \<Rightarrow> string \<Rightarrow> int" where
  "compareVersions a b =
     (if a = b then 0
      else
        (let (aNum, aPre) = splitSemver a;
             (bNum, bPre) = splitSemver b;
             c = compareNumericParts aNum bNum
         in if c \<noteq> 0 then c
            else if aPre = [] \<and> bPre \<noteq> [] then 1
            else if aPre \<noteq> [] \<and> bPre = [] then -1
            else if aPre < bPre then -1
            else if aPre > bPre then 1
            else 0))"

section \<open>The order the code implements\<close>

text \<open>A pre-release tag sorts below the release; two tags compare byte by byte.\<close>

datatype prerel = Prerelease string | Release

instantiation prerel :: linorder
begin

fun less_eq_prerel :: "prerel \<Rightarrow> prerel \<Rightarrow> bool" where
  "less_eq_prerel (Prerelease s) (Prerelease t) = (s \<le> t)"
| "less_eq_prerel (Prerelease s) Release = True"
| "less_eq_prerel Release (Prerelease t) = False"
| "less_eq_prerel Release Release = True"

definition less_prerel :: "prerel \<Rightarrow> prerel \<Rightarrow> bool" where
  "less_prerel p q = (p \<le> q \<and> \<not> q \<le> p)"

instance
proof
  fix x y z :: prerel
  show "(x < y) = (x \<le> y \<and> \<not> y \<le> x)" by (simp add: less_prerel_def)
  show "x \<le> x" by (cases x) auto
  show "x \<le> y \<Longrightarrow> y \<le> z \<Longrightarrow> x \<le> z" by (cases x; cases y; cases z) auto
  show "x \<le> y \<Longrightarrow> y \<le> x \<Longrightarrow> x = y" by (cases x; cases y) auto
  show "x \<le> y \<or> y \<le> x" by (cases x; cases y) auto
qed

end

definition prerelOf :: "string \<Rightarrow> prerel" where
  "prerelOf s = (if s = [] then Release else Prerelease s)"

lemma prerelOf_less:
  "prerelOf s < prerelOf t \<longleftrightarrow> (s \<noteq> [] \<and> (t = [] \<or> s < t))"
  by (auto simp: prerelOf_def less_prerel_def)

lemma prerelOf_inject [simp]: "prerelOf s = prerelOf t \<longleftrightarrow> s = t"
  by (auto simp: prerelOf_def)

definition component :: "string \<Rightarrow> nat \<Rightarrow> int" where
  "component num i = atoiOrZero (indexOrEmpty (splitOn CHR ''.'' num) i)"

definition semverKey :: "string \<Rightarrow> int \<times> int \<times> int \<times> prerel" where
  "semverKey v =
     (let (num, pre) = splitSemver v
      in (component num 0, component num 1, component num 2, prerelOf pre))"

definition cmp :: "'a :: linorder \<Rightarrow> 'a \<Rightarrow> int" where
  "cmp x y = (if x < y then -1 else if y < x then 1 else 0)"

lemma cmp_Pair: "cmp (a, b) (c, d) = (if cmp a c \<noteq> 0 then cmp a c else cmp b d)"
  by (auto simp: cmp_def)

lemma cmp_nonneg_iff: "0 \<le> cmp x y \<longleftrightarrow> y \<le> x"
  by (auto simp: cmp_def)

lemma cmp_swap: "cmp y x = - cmp x y"
  by (auto simp: cmp_def)

lemma cmp_self [simp]: "cmp x x = 0"
  by (simp add: cmp_def)

lemma compareNumericFrom_3: "compareNumericFrom a b 3 = 0"
  by (simp add: compareNumericFrom.simps)

lemma compareNumericFrom_step:
  "i < 3 \<Longrightarrow> compareNumericFrom a b i =
     (let c = cmp (atoiOrZero (indexOrEmpty a i)) (atoiOrZero (indexOrEmpty b i))
      in if c \<noteq> 0 then c else compareNumericFrom a b (Suc i))"
  by (subst compareNumericFrom.simps) (auto simp: cmp_def Let_def)

lemma compareNumericParts_cmp:
  "compareNumericParts a b =
     cmp (component a 0, component a 1, component a 2) (component b 0, component b 1, component b 2)"
  by (simp add: compareNumericParts_def compareNumericFrom_step compareNumericFrom_3
      cmp_Pair component_def Let_def flip: numeral_2_eq_2 numeral_3_eq_3)

lemma compareVersions_key: "compareVersions a b = cmp (semverKey a) (semverKey b)"
proof (cases "a = b")
  case True
  then show ?thesis by (simp add: compareVersions_def cmp_def)
next
  case False
  obtain an ap bn bp where s: "splitSemver a = (an, ap)" "splitSemver b = (bn, bp)"
    by (meson surj_pair)
  have "cmp (prerelOf ap) (prerelOf bp) =
      (if ap = [] \<and> bp \<noteq> [] then 1 else if ap \<noteq> [] \<and> bp = [] then -1 else cmp ap bp)"
    by (auto simp: cmp_def prerelOf_less)
  with False s show ?thesis
    by (simp add: compareVersions_def semverKey_def compareNumericParts_cmp cmp_Pair Let_def)
       (simp add: cmp_def)
qed

section \<open>The contract a downgrade guard needs\<close>

text \<open>
  A client that keeps a current item and replaces it only by one that does not compare below it
  needs three laws of the comparison. The client's lemmas are proved here once.
\<close>

locale version_comparison =
  fixes compare :: "'v \<Rightarrow> 'v \<Rightarrow> int"
  assumes compare_refl: "compare a a = 0"
    and compare_swap: "compare b a = - compare a b"
    and compare_trans: "0 \<le> compare b a \<Longrightarrow> 0 \<le> compare c b \<Longrightarrow> 0 \<le> compare c a"
begin

lemma not_below_total: "\<not> compare a b < 0 \<or> \<not> compare b a < 0"
  by (simp add: compare_swap[of a b])

lemma chain_not_below:
  assumes "\<And>i. Suc i < length vs \<Longrightarrow> 0 \<le> compare (vs ! Suc i) (vs ! i)"
    and "i \<le> j" and "j < length vs"
  shows "0 \<le> compare (vs ! j) (vs ! i)"
  using \<open>i \<le> j\<close> \<open>j < length vs\<close>
proof (induction j rule: dec_induct)
  case base
  then show ?case by (simp add: compare_refl)
next
  case (step n)
  then show ?case using assms(1)[of n] compare_trans[of "vs ! n" "vs ! i" "vs ! Suc n"] by simp
qed

end

interpretation semver: version_comparison compareVersions
proof unfold_locales
  show "compareVersions b a = - compareVersions a b" for a b
    by (simp only: compareVersions_key) (rule cmp_swap)
qed (auto simp: compareVersions_key cmp_nonneg_iff)

section \<open>Keys of well-formed versions\<close>

lemma splitSemver_no_dash: "CHR ''-'' \<notin> set v \<Longrightarrow> splitSemver v = (v, [])"
  by (induction v) auto

lemma splitSemver_dash: "CHR ''-'' \<notin> set v \<Longrightarrow> splitSemver (v @ CHR ''-'' # p) = (v, p)"
  by (induction v) auto

lemma isDigit_neq:
  "\<not> isDigit (CHR ''.'')" "\<not> isDigit (CHR ''-'')" "\<not> isDigit (CHR ''+'')"
  by code_simp+

lemma digits_no_sep:
  assumes "list_all isDigit x" shows "CHR ''.'' \<notin> set x" "CHR ''-'' \<notin> set x"
  using assms isDigit_neq by (auto simp: list_all_iff)

definition digits63 :: "string \<Rightarrow> bool" where
  "digits63 x = (x \<noteq> [] \<and> list_all isDigit x \<and> decimal x < 2 ^ 63)"

lemma digitVal_nonneg: "isDigit c \<Longrightarrow> 0 \<le> digitVal c"
  by (simp add: isDigit_def digitVal_def less_eq_char_def)

lemma decimal_nonneg: "list_all isDigit x \<Longrightarrow> 0 \<le> decimal x"
  unfolding decimal_def by (induction x rule: rev_induct) (auto simp: digitVal_nonneg)

lemma atoiOrZero_digits63:
  assumes "digits63 x" shows "atoiOrZero x = decimal x"
proof -
  obtain c cs where x: "x = c # cs" using assms by (cases x) (auto simp: digits63_def)
  have "isDigit c" using assms x by (simp add: digits63_def)
  then have "c \<noteq> CHR ''-''" "c \<noteq> CHR ''+''" using isDigit_neq by auto
  moreover have "- (2 ^ 63) \<le> decimal x" using decimal_nonneg[of x] assms by (simp add: digits63_def)
  ultimately show ?thesis
    using assms x by (simp add: atoiOrZero_def atoi_def unsigned_def digits63_def)
qed

lemma component_triple:
  assumes "digits63 x" "digits63 y" "digits63 z"
  shows "component (joinWith CHR ''.'' [x, y, z]) 0 = decimal x"
    and "component (joinWith CHR ''.'' [x, y, z]) 1 = decimal y"
    and "component (joinWith CHR ''.'' [x, y, z]) 2 = decimal z"
proof -
  have "splitOn CHR ''.'' (joinWith CHR ''.'' [x, y, z]) = [x, y, z]"
    by (rule splitOn_joinWith) (use assms digits_no_sep in \<open>auto simp: digits63_def\<close>)
  then show "component (joinWith CHR ''.'' [x, y, z]) 0 = decimal x"
    and "component (joinWith CHR ''.'' [x, y, z]) 1 = decimal y"
    and "component (joinWith CHR ''.'' [x, y, z]) 2 = decimal z"
    using assms
    by (simp_all add: component_def indexOrEmpty_def atoiOrZero_digits63 del: joinWith.simps)
qed

text \<open>A version string as the manifest schema has it: three digit strings, and a pre-release
  tag (empty for none).\<close>

definition versionString :: "string \<Rightarrow> string \<Rightarrow> string \<Rightarrow> string \<Rightarrow> string" where
  "versionString x y z pre =
     joinWith CHR ''.'' [x, y, z] @ (if pre = [] then [] else CHR ''-'' # pre)"

lemma semverKey_versionString:
  assumes "digits63 x" "digits63 y" "digits63 z"
  shows "semverKey (versionString x y z pre) = (decimal x, decimal y, decimal z, prerelOf pre)"
proof -
  have "CHR ''-'' \<notin> set (joinWith CHR ''.'' [x, y, z])"
    using assms digits_no_sep by (auto simp: digits63_def)
  then have "splitSemver (versionString x y z pre) = (joinWith CHR ''.'' [x, y, z], pre)"
    by (simp add: versionString_def splitSemver_no_dash splitSemver_dash del: joinWith.simps)
  with component_triple[OF assms] show ?thesis
    by (simp add: semverKey_def del: joinWith.simps)
qed

section \<open>Properties\<close>

text \<open>C9. Versions of the manifest schema's shape whose numbers fit an int compare
  numerically by major, minor and patch and then by pre-release tag, a release being above
  each of its pre-releases: the sign of the comparison is the sign of the order of the keys.\<close>

theorem compareVersions_numeric:
  assumes "digits63 x" "digits63 y" "digits63 z" and "digits63 x'" "digits63 y'" "digits63 z'"
  shows "compareVersions (versionString x y z pre) (versionString x' y' z' pre') =
     cmp (decimal x, decimal y, decimal z, prerelOf pre)
         (decimal x', decimal y', decimal z', prerelOf pre')"
  using assms by (simp add: compareVersions_key semverKey_versionString)

theorem compareVersions_numeric_witness:
  "compareVersions (versionString ''1'' ''10'' ''0'' ''rc1'') (versionString ''1'' ''9'' ''7'' []) = 1"
proof -
  have d: "digits63 ''1''" "digits63 ''10''" "digits63 ''0''" "digits63 ''9''" "digits63 ''7''"
    by code_simp+
  show ?thesis
    by (subst compareVersions_numeric[OF d(1) d(2) d(3) d(1) d(4) d(5)]) code_simp
qed

text \<open>A version number of 2^63 or more does not fit Go's int, is read as 0, and so sorts below
  every version with a positive major number, whatever follows.\<close>

theorem compareVersions_overflow:
  assumes "list_all isDigit x" "2 ^ 63 \<le> decimal x" and "digits63 x'" "0 < decimal x'"
    and "list_all isDigit y" "list_all isDigit z" "list_all isDigit y'" "list_all isDigit z'"
  shows "compareVersions (versionString x y z pre) (versionString x' y' z' pre') = -1"
proof -
  have "x \<noteq> []" using assms(2) by (auto simp: decimal_def)
  then obtain c cs where x: "x = c # cs" by (cases x) auto
  have "isDigit c" using assms(1) x by simp
  then have "c \<noteq> CHR ''-''" "c \<noteq> CHR ''+''" using isDigit_neq by auto
  then have a0: "atoiOrZero x = 0"
    using assms(1,2) x by (simp add: atoiOrZero_def atoi_def unsigned_def)
  have key: "\<exists>t. semverKey (versionString u v w p) = (atoiOrZero u, t)"
    if "list_all isDigit u" "list_all isDigit v" "list_all isDigit w" for u v w p
  proof -
    have nd: "CHR ''-'' \<notin> set (joinWith CHR ''.'' [u, v, w])"
      using that digits_no_sep by auto
    have "splitOn CHR ''.'' (joinWith CHR ''.'' [u, v, w]) = [u, v, w]"
      by (rule splitOn_joinWith) (use that digits_no_sep in auto)
    then show ?thesis using nd
      by (simp add: versionString_def semverKey_def splitSemver_no_dash splitSemver_dash
          component_def indexOrEmpty_def del: joinWith.simps)
  qed
  have "list_all isDigit x'" using assms(3) by (simp add: digits63_def)
  with key[of x y z pre] key[of x' y' z' pre'] assms obtain t t' where
    "semverKey (versionString x y z pre) = (0, t)"
    "semverKey (versionString x' y' z' pre') = (decimal x', t')"
    by (auto simp: a0 atoiOrZero_digits63)
  with assms(4) show ?thesis by (simp add: compareVersions_key cmp_def)
qed

theorem compareVersions_overflow_witness:
  "compareVersions (versionString ''9223372036854775808'' ''0'' ''0'' [])
                   (versionString ''1'' ''0'' ''0'' []) = -1"
  by (rule compareVersions_overflow) code_simp+

end
