(* ===== verification/Regexp_Go.thy ===== *)
theory Regexp_Go
  imports Prelude
begin

text \<open>
  The fragment of Go's \<^verbatim>\<open>regexp\<close> the manifest schema uses: byte classes, sequence,
  alternation, optional, star, plus and counted repetition, anchored at both ends (the sources
  write every pattern as \<^verbatim>\<open>^...$\<close>, and without the multi-line flag \<^verbatim>\<open>$\<close>
  matches at the end of the text only). Matching is by derivatives; the language of an expression
  is its specification and \<open>matches_iff_lang\<close> connects the two.
\<close>

section \<open>Expressions and their language\<close>

datatype re =
    Fail
  | Eps
  | Cls "char list"
  | Seq re re
  | Alt re re
  | Star re

fun repeatN :: "nat \<Rightarrow> re \<Rightarrow> re" where
  "repeatN 0 r = Eps"
| "repeatN (Suc n) r = Seq r (repeatN n r)"

definition Plus :: "re \<Rightarrow> re" where "Plus r = Seq r (Star r)"
definition Opt :: "re \<Rightarrow> re" where "Opt r = Alt r Eps"
definition AtLeast :: "nat \<Rightarrow> re \<Rightarrow> re" where "AtLeast n r = Seq (repeatN n r) (Star r)"
definition Lit :: "string \<Rightarrow> re" where "Lit s = foldr (\<lambda>c r. Seq (Cls [c]) r) s Eps"

inductive in_lang :: "string \<Rightarrow> re \<Rightarrow> bool" where
  in_Eps: "in_lang [] Eps"
| in_Cls: "c \<in> set cs \<Longrightarrow> in_lang [c] (Cls cs)"
| in_Seq: "in_lang u r \<Longrightarrow> in_lang v s \<Longrightarrow> in_lang (u @ v) (Seq r s)"
| in_AltL: "in_lang u r \<Longrightarrow> in_lang u (Alt r s)"
| in_AltR: "in_lang u s \<Longrightarrow> in_lang u (Alt r s)"
| in_Star0: "in_lang [] (Star r)"
| in_Star: "in_lang u r \<Longrightarrow> in_lang v (Star r) \<Longrightarrow> in_lang (u @ v) (Star r)"

inductive_simps in_Fail_iff [simp]: "in_lang s Fail"
inductive_simps in_Eps_iff [simp]: "in_lang s Eps"
inductive_simps in_Cls_iff: "in_lang s (Cls cs)"
inductive_simps in_Seq_iff: "in_lang s (Seq r t)"
inductive_simps in_Alt_iff [simp]: "in_lang s (Alt r t)"
inductive_cases in_StarE: "in_lang s (Star r)"

section \<open>Matching by derivatives\<close>

fun nullable :: "re \<Rightarrow> bool" where
  "nullable Fail = False"
| "nullable Eps = True"
| "nullable (Cls cs) = False"
| "nullable (Seq r s) = (nullable r \<and> nullable s)"
| "nullable (Alt r s) = (nullable r \<or> nullable s)"
| "nullable (Star r) = True"

fun mkSeq :: "re \<Rightarrow> re \<Rightarrow> re" where
  "mkSeq Fail s = Fail"
| "mkSeq Eps s = s"
| "mkSeq r s = Seq r s"

fun mkAlt :: "re \<Rightarrow> re \<Rightarrow> re" where
  "mkAlt Fail s = s"
| "mkAlt r Fail = r"
| "mkAlt r s = Alt r s"

fun deriv :: "char \<Rightarrow> re \<Rightarrow> re" where
  "deriv c Fail = Fail"
| "deriv c Eps = Fail"
| "deriv c (Cls cs) = (if c \<in> set cs then Eps else Fail)"
| "deriv c (Seq r s) =
     (if nullable r then mkAlt (mkSeq (deriv c r) s) (deriv c s) else mkSeq (deriv c r) s)"
| "deriv c (Alt r s) = mkAlt (deriv c r) (deriv c s)"
| "deriv c (Star r) = mkSeq (deriv c r) (Star r)"

fun matches :: "re \<Rightarrow> string \<Rightarrow> bool" where
  "matches r [] = nullable r"
| "matches r (c # s) = matches (deriv c r) s"

lemma nullable_iff: "nullable r \<longleftrightarrow> in_lang [] r"
  by (induction r) (auto simp: in_Seq_iff in_Cls_iff intro: in_lang.intros)

lemma in_mkSeq: "in_lang s (mkSeq r t) \<longleftrightarrow> in_lang s (Seq r t)"
  by (cases r) (auto simp: in_Seq_iff)

lemma in_mkAlt: "in_lang s (mkAlt r t) \<longleftrightarrow> in_lang s (Alt r t)"
  by (cases r; cases t) auto

lemma in_Star_Cons:
  assumes "in_lang (c # s) (Star r)"
  shows "\<exists>u v. s = u @ v \<and> in_lang (c # u) r \<and> in_lang v (Star r)"
  using assms
proof (induction "c # s" "Star r" arbitrary: s)
  case (in_Star u v)
  show ?case
  proof (cases u)
    case Nil
    with in_Star show ?thesis by auto
  next
    case (Cons d w)
    with in_Star show ?thesis by auto
  qed
qed

lemma in_Seq_Cons:
  "in_lang (c # s) (Seq r t) \<longleftrightarrow>
     (\<exists>u v. s = u @ v \<and> in_lang (c # u) r \<and> in_lang v t) \<or> (in_lang [] r \<and> in_lang (c # s) t)"
  by (auto simp: in_Seq_iff Cons_eq_append_conv)

lemma in_Seq_Cls:
  "in_lang s (Seq (Cls cs) t) \<longleftrightarrow> (\<exists>c v. s = c # v \<and> c \<in> set cs \<and> in_lang v t)"
proof
  assume "\<exists>c v. s = c # v \<and> c \<in> set cs \<and> in_lang v t"
  then obtain c v where "s = [c] @ v" "c \<in> set cs" "in_lang v t" by auto
  then show "in_lang s (Seq (Cls cs) t)" by (auto intro: in_lang.intros simp del: append_Cons)
qed (auto simp: in_Seq_iff in_Cls_iff)

lemma deriv_iff: "in_lang s (deriv c r) \<longleftrightarrow> in_lang (c # s) r"
proof (induction r arbitrary: s)
  case (Seq r1 r2)
  then show ?case
    by (simp add: in_mkAlt in_mkSeq nullable_iff in_Seq_Cons) (auto simp: in_Seq_iff)
next
  case (Star r)
  show ?case
  proof
    assume "in_lang s (deriv c (Star r))"
    then obtain u v where "s = u @ v" "in_lang (c # u) r" "in_lang v (Star r)"
      using Star by (auto simp: in_mkSeq in_Seq_iff)
    then show "in_lang (c # s) (Star r)" by (metis append_Cons in_Star)
  next
    assume "in_lang (c # s) (Star r)"
    then show "in_lang s (deriv c (Star r))"
      using Star in_Star_Cons by (fastforce simp: in_mkSeq in_Seq_iff)
  qed
qed (auto simp: in_Cls_iff in_mkAlt)

lemma matches_iff_lang: "matches r s \<longleftrightarrow> in_lang s r"
  by (induction s arbitrary: r) (auto simp: nullable_iff deriv_iff)

section \<open>Languages of the derived forms\<close>

lemma in_Lit_iff [simp]: "in_lang s (Lit l) \<longleftrightarrow> s = l"
  unfolding Lit_def by (induction l arbitrary: s) (auto simp: in_Seq_iff in_Cls_iff)

lemma in_Opt_iff [simp]: "in_lang s (Opt r) \<longleftrightarrow> in_lang s r \<or> s = []"
  by (simp add: Opt_def)

lemma in_Star_concat: "in_lang s (Star r) \<longleftrightarrow> (\<exists>us. s = concat us \<and> (\<forall>u \<in> set us. in_lang u r))"
proof
  assume "in_lang s (Star r)"
  then show "\<exists>us. s = concat us \<and> (\<forall>u \<in> set us. in_lang u r)"
  proof (induction s "Star r")
    case in_Star0
    show ?case by (rule exI[of _ "[]"]) simp
  next
    case (in_Star u v)
    then obtain us where "v = concat us" "\<forall>u \<in> set us. in_lang u r" by auto
    with in_Star show ?case by (intro exI[of _ "u # us"]) auto
  qed
next
  assume "\<exists>us. s = concat us \<and> (\<forall>u \<in> set us. in_lang u r)"
  then obtain us where "s = concat us" "\<forall>u \<in> set us. in_lang u r" by blast
  then show "in_lang s (Star r)"
    by (induction us arbitrary: s) (auto intro: in_lang.intros)
qed

lemma in_Star_Cls: "in_lang s (Star (Cls cs)) \<longleftrightarrow> set s \<subseteq> set cs"
proof
  assume "in_lang s (Star (Cls cs))"
  then show "set s \<subseteq> set cs" by (fastforce simp: in_Star_concat in_Cls_iff)
next
  assume "set s \<subseteq> set cs"
  then show "in_lang s (Star (Cls cs))"
    by (induction s) (auto intro: in_Star0 in_Star[of "[_]", simplified] in_Cls)
qed

lemma in_Plus_Cls: "in_lang s (Plus (Cls cs)) \<longleftrightarrow> s \<noteq> [] \<and> set s \<subseteq> set cs"
  by (cases s) (auto simp: Plus_def in_Seq_Cls in_Star_Cls)

lemma in_repeatN_Cls: "in_lang s (repeatN n (Cls cs)) \<longleftrightarrow> length s = n \<and> set s \<subseteq> set cs"
proof (induction n arbitrary: s)
  case (Suc n)
  then show ?case by (cases s) (auto simp: in_Seq_Cls)
qed auto

lemma in_AtLeast_Cls:
  "in_lang s (AtLeast n (Cls cs)) \<longleftrightarrow> n \<le> length s \<and> set s \<subseteq> set cs"
proof
  assume "n \<le> length s \<and> set s \<subseteq> set cs"
  then have "in_lang (take n s @ drop n s) (AtLeast n (Cls cs))"
    unfolding AtLeast_def
    by (intro in_Seq) (auto simp: in_repeatN_Cls in_Star_Cls dest: in_set_takeD in_set_dropD)
  then show "in_lang s (AtLeast n (Cls cs))" by simp
qed (auto simp: AtLeast_def in_Seq_iff in_repeatN_Cls in_Star_Cls)

text \<open>Separated lists: \<^verbatim>\<open>r(\.r)*\<close> matches the joins of non-empty lists of matches of \<open>r\<close>.\<close>

lemma in_Star_sep:
  "in_lang s (Star (Seq (Cls [c]) r)) \<longleftrightarrow>
     (\<exists>us. s = concat (map (Cons c) us) \<and> (\<forall>u \<in> set us. in_lang u r))"
proof
  assume "in_lang s (Star (Seq (Cls [c]) r))"
  then show "\<exists>us. s = concat (map (Cons c) us) \<and> (\<forall>u \<in> set us. in_lang u r)"
  proof (induction s "Star (Seq (Cls [c]) r)")
    case in_Star0
    show ?case by (rule exI[of _ "[]"]) simp
  next
    case (in_Star u v)
    from in_Star(1) obtain w where "u = c # w" "in_lang w r"
      by (auto simp: in_Seq_iff in_Cls_iff)
    moreover from in_Star(3) obtain us where "v = concat (map (Cons c) us)"
      "\<forall>u \<in> set us. in_lang u r" by auto
    ultimately show ?case by (intro exI[of _ "w # us"]) auto
  qed
next
  assume "\<exists>us. s = concat (map (Cons c) us) \<and> (\<forall>u \<in> set us. in_lang u r)"
  then obtain us where "s = concat (map (Cons c) us)" "\<forall>u \<in> set us. in_lang u r" by blast
  then show "in_lang s (Star (Seq (Cls [c]) r))"
  proof (induction us arbitrary: s)
    case (Cons u us)
    then have "in_lang ((c # u) @ concat (map (Cons c) us)) (Star (Seq (Cls [c]) r))"
      by (intro in_Star) (auto simp: in_Seq_iff in_Cls_iff)
    with Cons show ?case by simp
  qed (auto intro: in_Star0)
qed

lemma joinWith_concat: "joinWith c (p # ps) = p @ concat (map (Cons c) ps)"
  by (induction ps arbitrary: p) auto

lemma in_sep_list:
  "in_lang s (Seq r (Star (Seq (Cls [c]) r))) \<longleftrightarrow>
     (\<exists>ps. ps \<noteq> [] \<and> s = joinWith c ps \<and> (\<forall>p \<in> set ps. in_lang p r))"
proof
  assume "in_lang s (Seq r (Star (Seq (Cls [c]) r)))"
  then obtain p ps where "s = p @ concat (map (Cons c) ps)" "in_lang p r" "\<forall>u \<in> set ps. in_lang u r"
    by (auto simp: in_Seq_iff in_Star_sep)
  then show "\<exists>ps. ps \<noteq> [] \<and> s = joinWith c ps \<and> (\<forall>p \<in> set ps. in_lang p r)"
    by (intro exI[of _ "p # ps"]) (auto simp: joinWith_concat)
next
  assume "\<exists>ps. ps \<noteq> [] \<and> s = joinWith c ps \<and> (\<forall>p \<in> set ps. in_lang p r)"
  then obtain p ps where "s = joinWith c (p # ps)" "in_lang p r" "\<forall>u \<in> set ps. in_lang u r"
    by (metis list.set_intros(1) list.set_intros(2) neq_Nil_conv)
  then show "in_lang s (Seq r (Star (Seq (Cls [c]) r)))"
    by (auto simp: in_Seq_iff in_Star_sep joinWith_concat)
qed

end
