(* ===== verification/Manifest.thy ===== *)
theory Manifest
  imports Regexp_Go
begin

text \<open>
  \<^verbatim>\<open>pkg/manifest\<close>: the manifest schema (\<^verbatim>\<open>manifest.go\<close>), the validator
  (\<^verbatim>\<open>validate.go\<close>) and the grant lookups (\<^verbatim>\<open>grants.go\<close>). The patterns are
  written as the regular expressions of the source; \<open>valid_manifest\<close> is the declarative
  reading of the schema the validator is proved against.
\<close>

section \<open>The schema\<close>

record binary =
  Runtime :: string
  Path :: string
  SHA256 :: string

datatype condition =
  Condition (Kind: string) (Params: "(string \<times> gval) list") (Op: string) (Compose: "condition list")

record grant =
  Cap :: string
  Target :: string
  Cond :: "condition option"

record store =
  Publisher :: string
  Signature :: string

record affiliate =
  Pubkey :: string
  Role :: string
  Purpose :: string

record dependency =
  App :: string
  Methods :: "string list"

record flagSpec =
  FlagName :: string
  FlagType :: string
  FlagHelp :: string

record extension =
  Primitive :: string
  Method :: string
  AddsFlags :: "flagSpec list"
  Order :: int

record manifest =
  ID :: string
  AppVersion :: string
  ManifestVersion :: int
  Binary :: binary
  Exposes :: "string list"
  Grants :: "grant list"
  Protection :: string
  Store :: store
  Affiliates :: "affiliate list"
  Depends :: "dependency list"
  Extends :: "extension list"
  DynamicExtends :: "string list"

section \<open>Vocabularies and patterns\<close>

definition KnownCaps :: "string list" where
  "KnownCaps = [''fs.read'', ''fs.write'', ''fs.append'', ''fs.delete'', ''net.dial'', ''net.call'',
     ''ipc.call'', ''key.sign'', ''audit.log'', ''proc.exec'', ''identity.verify'']"

definition KnownConditionKinds :: "string list" where
  "KnownConditionKinds = [''rate'', ''cap'', ''allowlist'', ''denylist'', ''time_window'',
     ''requires_user_consent'', ''requires_foreground'', ''signed_by'']"

definition KnownRuntimes :: "string list" where
  "KnownRuntimes = [''go'', ''bun'', ''node'', ''python'']"

definition KnownFlagTypes :: "string list" where
  "KnownFlagTypes = [''string'', ''bool'', ''int'']"

definition KnownProtections :: "string list" where
  "KnownProtections = ['''', ''shareable'', ''guarded'']"

definition procExecClass :: string where
  "procExecClass = upper @ lower @ digits @ ''._-''"

text \<open>\<^verbatim>\<open>^/?[A-Za-z0-9._-]+(/[A-Za-z0-9._-]+)*$\<close>\<close>

definition procExecTargetPattern :: re where
  "procExecTargetPattern =
     Seq (Opt (Cls ''/''))
         (Seq (Plus (Cls procExecClass)) (Star (Seq (Cls ''/'') (Plus (Cls procExecClass)))))"

definition hookClass :: string where
  "hookClass = lower @ digits @ ''_-''"

text \<open>\<^verbatim>\<open>^[a-z0-9_-]+(\.[a-z0-9_-]+)*\.(pre|post)$\<close>\<close>

definition hookPointPattern :: re where
  "hookPointPattern =
     Seq (Seq (Plus (Cls hookClass)) (Star (Seq (Cls ''.'') (Plus (Cls hookClass)))))
         (Seq (Cls ''.'') (Alt (Lit ''pre'') (Lit ''post'')))"

text \<open>\<^verbatim>\<open>[a-z0-9]([a-z0-9_-]*[a-z0-9])?\<close>\<close>

definition idSegment :: re where
  "idSegment = Seq (Cls (lower @ digits))
     (Opt (Seq (Star (Cls hookClass)) (Cls (lower @ digits))))"

text \<open>\<^verbatim>\<open>^idSegment(\.idSegment)+$\<close>\<close>

definition idPattern :: re where
  "idPattern = Seq idSegment (Plus (Seq (Cls ''.'') idSegment))"

text \<open>\<^verbatim>\<open>^\d+\.\d+\.\d+(?:-[0-9A-Za-z.-]+)?$\<close>\<close>

definition semverPattern :: re where
  "semverPattern =
     Seq (Plus (Cls digits)) (Seq (Cls ''.'') (Seq (Plus (Cls digits)) (Seq (Cls ''.'')
     (Seq (Plus (Cls digits)) (Opt (Seq (Cls ''-'') (Plus (Cls (digits @ upper @ lower @ ''.-''))))))))) "

text \<open>\<^verbatim>\<open>^[0-9a-f]{64}$\<close>\<close>

definition sha256Pattern :: re where
  "sha256Pattern = repeatN 64 (Cls hexLower)"

definition base64Class :: string where
  "base64Class = upper @ lower @ digits @ ''+/=''"

text \<open>\<^verbatim>\<open>^ed25519:[A-Za-z0-9+/=]{40,}$\<close>\<close>

definition pubkeyPattern :: re where
  "pubkeyPattern = Seq (Lit ''ed25519:'') (AtLeast 40 (Cls base64Class))"

section \<open>The validator\<close>

text \<open>Where in a grant's condition tree an error is: \<^verbatim>\<open>grants[i].if.compose[j]...\<close>.\<close>

type_synonym cpath = "nat \<times> nat list"

datatype (plugins only: code size) valerr =
    BadID string
  | BadAppVersion string
  | BadManifestVersion int
  | BadRuntime string
  | EmptyBinaryPath
  | BadSHA256
  | NoGrants
  | UnknownCap nat string
  | EmptyTarget nat
  | ProcExecDotDot nat string
  | ProcExecShape nat string
  | CondBothForms cpath
  | CondNoForm cpath
  | CondUnknownKind cpath string
  | CondArity cpath string
  | CondNotArity cpath
  | CondUnknownOp cpath string
  | BadProtection string
  | BadPublisher
  | EmptySignature
  | AffiliatePubkey nat
  | AffiliateRole nat
  | DependsApp nat string
  | DependsMethods nat
  | ExtendsPrimitive nat string
  | ExtendsMethodEmpty nat
  | ExtendsMethodUnexposed nat string
  | ExtendsFlagName nat nat string
  | ExtendsFlagType nat nat string
  | DynamicExtendsShape nat string

definition validateProcExecTarget :: "nat \<Rightarrow> string \<Rightarrow> valerr list" where
  "validateProcExecTarget i target =
     (let t = trimSpace target in
      if contains t ''..'' then [ProcExecDotDot i target]
      else if \<not> matches procExecTargetPattern t then [ProcExecShape i target]
      else [])"

fun validateCondition :: "cpath \<Rightarrow> condition \<Rightarrow> valerr list"
  and validateComposed :: "cpath \<Rightarrow> nat \<Rightarrow> condition list \<Rightarrow> valerr list" where
  "validateCondition path (Condition kind params op compose) =
     (let hasLeaf = (kind \<noteq> [] \<or> length params > 0);
          hasComposite = (op \<noteq> [] \<or> length compose > 0)
      in if hasLeaf \<and> hasComposite then [CondBothForms path]
         else if \<not> hasLeaf \<and> \<not> hasComposite then [CondNoForm path]
         else
           (if hasLeaf then (if kind \<notin> set KnownConditionKinds then [CondUnknownKind path kind] else [])
            else []) @
           (if hasComposite then
              (if op = ''and'' \<or> op = ''or'' then
                 (if length compose < 2 then [CondArity path op] else [])
               else if op = ''not'' then
                 (if length compose \<noteq> 1 then [CondNotArity path] else [])
               else [CondUnknownOp path op]) @
              validateComposed path 0 compose
            else []))"
| "validateComposed path i [] = []"
| "validateComposed path i (sub # subs) =
     validateCondition (fst path, snd path @ [i]) sub @ validateComposed path (Suc i) subs"

definition validateGrant :: "nat \<Rightarrow> grant \<Rightarrow> valerr list" where
  "validateGrant i g =
     (if Cap g \<notin> set KnownCaps then [UnknownCap i (Cap g)] else []) @
     (if trimSpace (Target g) = [] then [EmptyTarget i]
      else if Cap g = ''proc.exec'' then validateProcExecTarget i (Target g)
      else []) @
     (case Cond g of None \<Rightarrow> [] | Some c \<Rightarrow> validateCondition (i, []) c)"

definition validateAffiliate :: "nat \<Rightarrow> affiliate \<Rightarrow> valerr list" where
  "validateAffiliate i a =
     (if \<not> matches pubkeyPattern (Pubkey a) then [AffiliatePubkey i] else []) @
     (if trimSpace (Role a) = [] then [AffiliateRole i] else [])"

definition validateDependency :: "nat \<Rightarrow> dependency \<Rightarrow> valerr list" where
  "validateDependency i d =
     (if \<not> matches idPattern (App d) then [DependsApp i (App d)] else []) @
     (if length (Methods d) = 0 then [DependsMethods i] else [])"

definition validateFlag :: "nat \<Rightarrow> nat \<Rightarrow> flagSpec \<Rightarrow> valerr list" where
  "validateFlag i j f =
     (if \<not> hasPrefix (FlagName f) ''--'' then [ExtendsFlagName i j (FlagName f)] else []) @
     (if FlagType f \<notin> set KnownFlagTypes then [ExtendsFlagType i j (FlagType f)] else [])"

definition validateExtension :: "string list \<Rightarrow> nat \<Rightarrow> extension \<Rightarrow> valerr list" where
  "validateExtension exposes i ext =
     (if \<not> matches hookPointPattern (Primitive ext) then [ExtendsPrimitive i (Primitive ext)] else []) @
     (if trimSpace (Method ext) = [] then [ExtendsMethodEmpty i]
      else if length exposes > 0 \<and> Method ext \<notin> set exposes
      then [ExtendsMethodUnexposed i (Method ext)] else []) @
     rangeConcat (validateFlag i) (AddsFlags ext)"

definition Validate :: "manifest \<Rightarrow> valerr list" where
  "Validate m =
     (if \<not> matches idPattern (ID m) then [BadID (ID m)] else []) @
     (if \<not> matches semverPattern (AppVersion m) then [BadAppVersion (AppVersion m)] else []) @
     (if ManifestVersion m < 1 then [BadManifestVersion (ManifestVersion m)] else []) @
     (if Runtime (Binary m) \<notin> set KnownRuntimes then [BadRuntime (Runtime (Binary m))] else []) @
     (if trimSpace (Path (Binary m)) = [] then [EmptyBinaryPath] else []) @
     (if \<not> matches sha256Pattern (SHA256 (Binary m)) then [BadSHA256] else []) @
     (if length (Grants m) = 0 then [NoGrants] else []) @
     rangeConcat validateGrant (Grants m) @
     (if Protection m \<notin> set KnownProtections then [BadProtection (Protection m)] else []) @
     (if \<not> matches pubkeyPattern (Publisher (Store m)) then [BadPublisher] else []) @
     (if trimSpace (Signature (Store m)) = [] then [EmptySignature] else []) @
     rangeConcat validateAffiliate (Affiliates m) @
     rangeConcat validateDependency (Depends m) @
     rangeConcat (validateExtension (Exposes m)) (Extends m) @
     rangeConcat (\<lambda>i p. if \<not> matches hookPointPattern p then [DynamicExtendsShape i p] else [])
       (DynamicExtends m)"

section \<open>Grant lookups (\<open>grants.go\<close>)\<close>

definition ExposesMethod :: "manifest \<Rightarrow> string \<Rightarrow> bool" where
  "ExposesMethod m method = list_ex (\<lambda>e. e = method) (Exposes m)"

definition matchGrantTarget :: "string \<Rightarrow> string \<Rightarrow> bool" where
  "matchGrantTarget pattern target =
     (if pattern = ''*'' then True
      else if pattern = target then True
      else if hasSuffix pattern ''.*'' then hasPrefix target (trimSuffix pattern ''*'')
      else False)"

definition HasGrant :: "manifest \<Rightarrow> string \<Rightarrow> string \<Rightarrow> bool" where
  "HasGrant m capName target =
     list_ex (\<lambda>g. Cap g = capName \<and> matchGrantTarget (Target g) target) (Grants m)"

section \<open>What the patterns accept\<close>

definition idSegmentShape :: "string \<Rightarrow> bool" where
  "idSegmentShape p = (p \<noteq> [] \<and> set p \<subseteq> set hookClass
     \<and> hd p \<in> set (lower @ digits) \<and> last p \<in> set (lower @ digits))"

definition idShape :: "string \<Rightarrow> bool" where
  "idShape s = (let ps = splitOn CHR ''.'' s in 2 \<le> length ps \<and> list_all idSegmentShape ps)"

definition hookShape :: "string \<Rightarrow> bool" where
  "hookShape s =
     (let ps = splitOn CHR ''.'' s in
      2 \<le> length ps \<and> last ps \<in> {''pre'', ''post''}
      \<and> list_all (\<lambda>p. p \<noteq> [] \<and> set p \<subseteq> set hookClass) (butlast ps))"

lemma alnum_subset_hookClass: "set (lower @ digits) \<subseteq> set hookClass"
  by (auto simp: hookClass_def)

lemma in_Cls_single: "in_lang s (Cls cs) \<longleftrightarrow> (\<exists>c. s = [c] \<and> c \<in> set cs)"
  by (auto simp: in_Cls_iff)

lemma in_idSegment_iff: "in_lang p idSegment \<longleftrightarrow> idSegmentShape p"
proof
  assume "in_lang p idSegment"
  then show "idSegmentShape p"
    using alnum_subset_hookClass
    by (auto simp: idSegment_def in_Seq_Cls idSegmentShape_def in_Seq_iff in_Star_Cls in_Cls_single)
next
  assume p: "idSegmentShape p"
  then obtain c w where w: "p = c # w" by (cases p) (auto simp: idSegmentShape_def)
  show "in_lang p idSegment"
  proof (cases w rule: rev_cases)
    case Nil
    with p w show ?thesis by (auto simp: idSegment_def in_Seq_Cls idSegmentShape_def)
  next
    case (snoc v d)
    have "in_lang (v @ [d]) (Seq (Star (Cls hookClass)) (Cls (lower @ digits)))"
      by (intro in_Seq) (use p w snoc in \<open>auto simp: idSegmentShape_def in_Star_Cls in_Cls_single\<close>)
    with p w snoc show ?thesis by (auto simp: idSegment_def in_Seq_Cls idSegmentShape_def)
  qed
qed

lemma in_Plus_sep:
  "in_lang s (Plus (Seq (Cls [c]) r)) \<longleftrightarrow>
     (\<exists>us. us \<noteq> [] \<and> s = concat (map (Cons c) us) \<and> (\<forall>u \<in> set us. in_lang u r))"
proof
  assume "in_lang s (Plus (Seq (Cls [c]) r))"
  then obtain u us where "s = (c # u) @ concat (map (Cons c) us)" "in_lang u r" "\<forall>u \<in> set us. in_lang u r"
    by (auto simp: Plus_def in_Seq_iff[of _ "Seq _ _"] in_Seq_Cls in_Star_sep)
  then show "\<exists>us. us \<noteq> [] \<and> s = concat (map (Cons c) us) \<and> (\<forall>u \<in> set us. in_lang u r)"
    by (intro exI[of _ "u # us"]) auto
next
  assume "\<exists>us. us \<noteq> [] \<and> s = concat (map (Cons c) us) \<and> (\<forall>u \<in> set us. in_lang u r)"
  then obtain us where us: "us \<noteq> []" "s = concat (map (Cons c) us)" "\<forall>u \<in> set us. in_lang u r" by blast
  then obtain u vs where v: "us = u # vs" by (cases us) auto
  have "in_lang ((c # u) @ concat (map (Cons c) vs)) (Plus (Seq (Cls [c]) r))"
    unfolding Plus_def by (intro in_Seq) (use us v in \<open>auto simp: in_Seq_Cls in_Star_sep\<close>)
  then show "in_lang s (Plus (Seq (Cls [c]) r))" using us v by simp
qed

lemma hookClass_no_dot: "CHR ''.'' \<notin> set hookClass"
  by code_simp

lemma idSegmentShape_no_dot: "idSegmentShape p \<Longrightarrow> CHR ''.'' \<notin> set p"
  using hookClass_no_dot by (auto simp: idSegmentShape_def)

lemma idPattern_iff: "matches idPattern s \<longleftrightarrow> idShape s"
proof
  assume "matches idPattern s"
  then obtain p ps where s: "s = joinWith CHR ''.'' (p # ps)" "ps \<noteq> []"
    "idSegmentShape p" "\<forall>q \<in> set ps. idSegmentShape q"
    by (auto simp: matches_iff_lang idPattern_def in_Seq_iff[of _ idSegment] in_Plus_sep
        in_idSegment_iff joinWith_concat)
  then have "splitOn CHR ''.'' s = p # ps"
    unfolding s(1) by (intro splitOn_joinWith) (auto dest: idSegmentShape_no_dot)
  with s show "idShape s" by (cases ps) (auto simp: idShape_def list_all_iff)
next
  assume i: "idShape s"
  then obtain p q ps where sp: "splitOn CHR ''.'' s = p # q # ps"
    by (auto simp: idShape_def Let_def numeral_2_eq_2 Suc_le_length_iff)
  then have "s = p @ concat (map (Cons CHR ''.'') (q # ps))"
    by (metis joinWith_splitOn joinWith_concat)
  moreover have "in_lang (concat (map (Cons CHR ''.'') (q # ps))) (Plus (Seq (Cls ''.'') idSegment))"
    using i sp unfolding in_Plus_sep
    by (intro exI[of _ "q # ps"]) (auto simp: idShape_def in_idSegment_iff list_all_iff)
  ultimately show "matches idPattern s"
    using i sp by (auto simp: matches_iff_lang idPattern_def idShape_def in_idSegment_iff intro!: in_Seq)
qed

lemma hookPointPattern_iff: "matches hookPointPattern s \<longleftrightarrow> hookShape s"
proof
  assume "matches hookPointPattern s"
  then obtain ps ph where s: "s = joinWith CHR ''.'' ps @ CHR ''.'' # ph" "ps \<noteq> []"
    "\<forall>p \<in> set ps. p \<noteq> [] \<and> set p \<subseteq> set hookClass" "ph \<in> {''pre'', ''post''}"
    by (auto simp: matches_iff_lang hookPointPattern_def in_Seq_iff[of _ "Seq _ _"] in_sep_list
        in_Seq_Cls in_Plus_Cls)
  have "joinWith CHR ''.'' ps @ CHR ''.'' # ph = joinWith CHR ''.'' (ps @ [ph])"
    using s(2) by (induction ps rule: joinWith.induct) auto
  then have "splitOn CHR ''.'' s = ps @ [ph]"
    unfolding s(1) using s hookClass_no_dot
    by (simp only:) (intro splitOn_joinWith, auto)
  with s show "hookShape s"
    by (cases ps) (auto simp: hookShape_def list_all_iff)
next
  assume h: "hookShape s"
  define ps where "ps = butlast (splitOn CHR ''.'' s)"
  define ph where "ph = last (splitOn CHR ''.'' s)"
  have sp: "splitOn CHR ''.'' s = ps @ [ph]" by (simp add: ps_def ph_def)
  have ne: "ps \<noteq> []" using h sp by (auto simp: hookShape_def)
  have "s = joinWith CHR ''.'' (ps @ [ph])" by (metis joinWith_splitOn sp)
  also have "\<dots> = joinWith CHR ''.'' ps @ CHR ''.'' # ph"
    using ne by (induction ps rule: joinWith.induct) auto
  finally have s: "s = joinWith CHR ''.'' ps @ CHR ''.'' # ph" .
  have "in_lang (joinWith CHR ''.'' ps)
      (Seq (Plus (Cls hookClass)) (Star (Seq (Cls ''.'') (Plus (Cls hookClass)))))"
    using h ne unfolding in_sep_list
    by (intro exI[of _ ps]) (auto simp: hookShape_def Let_def ps_def list_all_iff in_Plus_Cls)
  then have "in_lang (joinWith CHR ''.'' ps @ CHR ''.'' # ph) hookPointPattern"
    unfolding hookPointPattern_def
    by (intro in_Seq) (use h in \<open>auto simp: in_Seq_Cls hookShape_def Let_def ph_def\<close>)
  then show "matches hookPointPattern s" by (simp add: matches_iff_lang s)
qed

lemma in_Seq_Plus_Cls:
  "in_lang s (Seq (Plus (Cls cs)) t) \<longleftrightarrow>
     (\<exists>x v. s = x @ v \<and> (x \<noteq> [] \<and> set x \<subseteq> set cs) \<and> in_lang v t)"
  by (auto simp: in_Seq_iff in_Plus_Cls)

lemma in_Seq_Plus:
  "x \<noteq> [] \<Longrightarrow> set x \<subseteq> set cs \<Longrightarrow> in_lang v t \<Longrightarrow> in_lang (x @ v) (Seq (Plus (Cls cs)) t)"
  by (auto simp: in_Seq_Plus_Cls)

lemma in_Seq_Dot: "in_lang v t \<Longrightarrow> in_lang (c # v) (Seq (Cls [c]) t)"
  by (auto simp: in_Seq_Cls)

lemma sha256Pattern_iff: "matches sha256Pattern s \<longleftrightarrow> length s = 64 \<and> set s \<subseteq> set hexLower"
  by (simp add: matches_iff_lang sha256Pattern_def in_repeatN_Cls)

lemma pubkeyPattern_iff:
  "matches pubkeyPattern s \<longleftrightarrow>
     (\<exists>k. s = ''ed25519:'' @ k \<and> 40 \<le> length k \<and> set k \<subseteq> set base64Class)"
  by (auto simp: matches_iff_lang pubkeyPattern_def in_Seq_iff in_AtLeast_Cls)

lemma semverPattern_iff:
  "matches semverPattern s \<longleftrightarrow>
     (\<exists>x y z t. (x \<noteq> [] \<and> set x \<subseteq> set digits) \<and> (y \<noteq> [] \<and> set y \<subseteq> set digits) \<and>
        (z \<noteq> [] \<and> set z \<subseteq> set digits) \<and> s = x @ CHR ''.'' # y @ CHR ''.'' # z @ t \<and>
        (t = [] \<or> (\<exists>pre. t = CHR ''-'' # pre \<and> pre \<noteq> [] \<and>
            set pre \<subseteq> set (digits @ upper @ lower @ ''.-''))))"
  (is "_ \<longleftrightarrow> (\<exists>x y z t. ?body x y z t)" is "_ \<longleftrightarrow> ?shape")
proof
  assume "matches semverPattern s"
  then obtain x r where x: "s = x @ CHR ''.'' # r" "x \<noteq> []" "set x \<subseteq> set digits"
    and "in_lang r (Seq (Plus (Cls digits)) (Seq (Cls ''.'') (Seq (Plus (Cls digits)) (Opt (Seq (Cls ''-'') (Plus (Cls (digits @ upper @ lower @ ''.-'' ))))))))"
    unfolding matches_iff_lang semverPattern_def by (auto simp: in_Seq_Plus_Cls[of s] in_Seq_Cls[of _ "''.''"])
  then obtain y r' where y: "r = y @ CHR ''.'' # r'" "y \<noteq> []" "set y \<subseteq> set digits"
    and "in_lang r' (Seq (Plus (Cls digits)) (Opt (Seq (Cls ''-'') (Plus (Cls (digits @ upper @ lower @ ''.-'' ))))))"
    by (auto simp: in_Seq_Plus_Cls[of r] in_Seq_Cls[of _ "''.''"])
  then obtain z t where z: "r' = z @ t" "z \<noteq> []" "set z \<subseteq> set digits"
    and "in_lang t (Opt (Seq (Cls ''-'') (Plus (Cls (digits @ upper @ lower @ ''.-'' )))))"
    by (auto simp: in_Seq_Plus_Cls[of r'])
  with x y z have "?body x y z t" by (auto simp: in_Seq_Cls in_Plus_Cls)
  then show ?shape by blast
next
  assume ?shape
  then obtain x y z t where x: "x \<noteq> []" "set x \<subseteq> set digits" and y: "y \<noteq> []" "set y \<subseteq> set digits"
    and z: "z \<noteq> []" "set z \<subseteq> set digits" and s: "s = x @ CHR ''.'' # y @ CHR ''.'' # z @ t"
    and t: "t = [] \<or> (\<exists>pre. t = CHR ''-'' # pre \<and> pre \<noteq> [] \<and>
               set pre \<subseteq> set (digits @ upper @ lower @ ''.-''))"
    by blast
  have "in_lang t (Opt (Seq (Cls ''-'') (Plus (Cls (digits @ upper @ lower @ ''.-'')))))"
    using t by (auto simp: in_Seq_Cls in_Plus_Cls)
  with x y z show "matches semverPattern s"
    unfolding matches_iff_lang semverPattern_def s by (intro in_Seq_Plus in_Seq_Dot)
qed

section \<open>The schema, declaratively\<close>

inductive wf_condition :: "condition \<Rightarrow> bool" where
  wf_leaf: "kind \<in> set KnownConditionKinds \<Longrightarrow> wf_condition (Condition kind params [] [])"
| wf_and_or: "op \<in> {''and'', ''or''} \<Longrightarrow> 2 \<le> length cs \<Longrightarrow> (\<And>c. c \<in> set cs \<Longrightarrow> wf_condition c) \<Longrightarrow>
     wf_condition (Condition [] [] op cs)"
| wf_not: "wf_condition c \<Longrightarrow> wf_condition (Condition [] [] ''not'' [c])"

inductive_simps wf_condition_simps: "wf_condition (Condition kind params op cs)"

lemma KnownConditionKinds_not_Nil: "[] \<notin> set KnownConditionKinds"
  by code_simp

lemma validateComposed_Nil_iff:
  "validateComposed path i cs = [] \<longleftrightarrow>
     (\<forall>j < length cs. validateCondition (fst path, snd path @ [i + j]) (cs ! j) = [])"
  by (induction cs arbitrary: i) (auto simp: less_Suc_eq_0_disj)

lemma validateCondition_Nil_iff: "validateCondition path c = [] \<longleftrightarrow> wf_condition c"
proof (induction c arbitrary: path)
  case (Condition kind params op cs)
  have sub: "validateComposed path i cs = [] \<longleftrightarrow> (\<forall>c \<in> set cs. wf_condition c)" for i
    using Condition by (simp add: validateComposed_Nil_iff all_set_conv_all_nth)
  have one: "length cs = Suc 0 \<longleftrightarrow> (\<exists>c. cs = [c])" by (simp add: length_Suc_conv)
  show ?case
    using KnownConditionKinds_not_Nil
    by (auto simp: wf_condition_simps sub Let_def one split: if_splits)
qed

definition wf_grant :: "grant \<Rightarrow> bool" where
  "wf_grant g = (Cap g \<in> set KnownCaps \<and> trimSpace (Target g) \<noteq> []
     \<and> (Cap g = ''proc.exec'' \<longrightarrow>
          \<not> contains (trimSpace (Target g)) ''..'' \<and> matches procExecTargetPattern (trimSpace (Target g)))
     \<and> (case Cond g of None \<Rightarrow> True | Some c \<Rightarrow> wf_condition c))"

definition wf_extension :: "string list \<Rightarrow> extension \<Rightarrow> bool" where
  "wf_extension exposes e = (hookShape (Primitive e) \<and> trimSpace (Method e) \<noteq> []
     \<and> (exposes = [] \<or> Method e \<in> set exposes)
     \<and> (\<forall>f \<in> set (AddsFlags e). prefix ''--'' (FlagName f) \<and> FlagType f \<in> set KnownFlagTypes))"

definition valid_manifest :: "manifest \<Rightarrow> bool" where
  "valid_manifest m \<longleftrightarrow>
     idShape (ID m) \<and> matches semverPattern (AppVersion m) \<and> 1 \<le> ManifestVersion m
     \<and> Runtime (Binary m) \<in> set KnownRuntimes \<and> trimSpace (Path (Binary m)) \<noteq> []
     \<and> length (SHA256 (Binary m)) = 64 \<and> set (SHA256 (Binary m)) \<subseteq> set hexLower
     \<and> Grants m \<noteq> [] \<and> (\<forall>g \<in> set (Grants m). wf_grant g)
     \<and> Protection m \<in> set KnownProtections
     \<and> matches pubkeyPattern (Publisher (Store m)) \<and> trimSpace (Signature (Store m)) \<noteq> []
     \<and> (\<forall>a \<in> set (Affiliates m). matches pubkeyPattern (Pubkey a) \<and> trimSpace (Role a) \<noteq> [])
     \<and> (\<forall>d \<in> set (Depends m). idShape (App d) \<and> Methods d \<noteq> [])
     \<and> (\<forall>e \<in> set (Extends m). wf_extension (Exposes m) e)
     \<and> (\<forall>p \<in> set (DynamicExtends m). hookShape p)"

lemma validateGrant_Nil_iff: "validateGrant i g = [] \<longleftrightarrow> wf_grant g"
  by (auto simp: validateGrant_def wf_grant_def validateProcExecTarget_def Let_def
      validateCondition_Nil_iff split: option.splits)

lemma validateExtension_Nil_iff: "validateExtension exposes i e = [] \<longleftrightarrow> wf_extension exposes e"
  by (auto simp: validateExtension_def wf_extension_def hookPointPattern_iff rangeConcat_Nil_iff
      validateFlag_def hasPrefix_def all_set_conv_all_nth)

lemma rangeConcat_Nil_all:
  "(\<And>i x. f i x = [] \<longleftrightarrow> P x) \<Longrightarrow> rangeConcat f xs = [] \<longleftrightarrow> (\<forall>x \<in> set xs. P x)"
  by (simp add: rangeConcat_Nil_iff all_set_conv_all_nth)

lemma validateAffiliate_Nil_iff:
  "validateAffiliate i a = [] \<longleftrightarrow> matches pubkeyPattern (Pubkey a) \<and> trimSpace (Role a) \<noteq> []"
  by (simp add: validateAffiliate_def)

lemma validateDependency_Nil_iff:
  "validateDependency i d = [] \<longleftrightarrow> idShape (App d) \<and> Methods d \<noteq> []"
  by (simp add: validateDependency_def idPattern_iff)

lemmas validate_Nil_iffs =
  rangeConcat_Nil_all[where f = validateGrant, OF validateGrant_Nil_iff]
  rangeConcat_Nil_all[where f = validateAffiliate, OF validateAffiliate_Nil_iff]
  rangeConcat_Nil_all[where f = validateDependency, OF validateDependency_Nil_iff]
  rangeConcat_Nil_all[where f = "validateExtension x" for x, OF validateExtension_Nil_iff]

lemma Validate_iff: "Validate m = [] \<longleftrightarrow> valid_manifest m"
proof -
  have dyn: "rangeConcat (\<lambda>i p. if \<not> matches hookPointPattern p then [DynamicExtendsShape i p] else []) ps = []
      \<longleftrightarrow> (\<forall>p \<in> set ps. hookShape p)" for ps
    by (rule rangeConcat_Nil_all) (simp add: hookPointPattern_iff)
  show ?thesis
    by (simp add: Validate_def valid_manifest_def validate_Nil_iffs dyn idPattern_iff
        sha256Pattern_iff not_less) blast
qed

section \<open>Properties\<close>

text \<open>C10. The validator reports no error exactly for the manifests the schema describes:
  reverse-DNS id, semantic version, known runtime, 64 hexadecimal digits, at least one grant, every
  grant known with well-formed condition tree and proc.exec target, hook points of the form
  command.pre or command.post, and so on for every field.\<close>

theorem Validate_iff_valid: "Validate m = [] \<longleftrightarrow> valid_manifest m"
  by (rule Validate_iff)

text \<open>A grant's target pattern authorises exactly what its documentation says: everything
  for a star, the same text, or, for a pattern ending in dot star, every text that continues the
  pattern's part up to and including its last dot.\<close>

theorem matchGrantTarget_iff:
  "matchGrantTarget pattern target \<longleftrightarrow>
     pattern = ''*'' \<or> pattern = target \<or>
     (\<exists>p rest. pattern = p @ ''.*'' \<and> target = p @ ''.'' @ rest)"
proof -
  have "trimSuffix (p @ ''.*'') ''*'' = p @ ''.''" for p
    by (simp add: trimSuffix_def suffix_def)
  then show ?thesis
    by (auto simp: matchGrantTarget_def go_strings suffix_def prefix_def)
qed



text \<open>A relative path with a directory part is accepted as a proc.exec target, although it
  is neither an absolute path nor a bare command name.\<close>

theorem validateProcExecTarget_relative:
  "validateProcExecTarget i ''bin/tool'' = [] \<and> \<not> hasPrefix ''bin/tool'' ''/'' \<and> contains ''bin/tool'' ''/''"
  by code_simp

end
