(* ===== verification/Sideload.thy ===== *)
theory Sideload
  imports Manifest
begin

text \<open>
  \<^verbatim>\<open>pkg/manifest/sideload.go\<close>: the policy a manifest must satisfy when its app was
  installed from a local path, and what a manifest that passes it cannot ask for.
\<close>

section \<open>The policy\<close>

definition SideloadMarkerName :: string where
  "SideloadMarkerName = ''.sideloaded''"

definition SideloadAllowedCaps :: "string list" where
  "SideloadAllowedCaps = [''audit.log'', ''fs.read'', ''fs.write'']"

text \<open>The text of an error is its constructor with the arguments of its format.\<close>

datatype sideloadErr =
    SLNilManifest
  | SLGuarded string
  | SLExtends nat string
  | SLDynamicExtends nat string
  | SLAffiliates nat string
  | SLDepends nat nat
  | SLCapNotAllowed nat string string
  | SLTargetNotLocal nat string string
  | SLConditional nat string

definition isAppLocalTarget :: "string \<Rightarrow> bool" where
  "isAppLocalTarget t0 =
     (let t = trimSpace t0 in
      if \<not> hasPrefix t ''$APP/'' then False
      else (let rest = drop (length ''$APP/'') t in
            if rest = [] then False
            else if contains rest ''..'' then False
            else if hasPrefix rest ''/'' then False
            else True))"

text \<open>
  \<^verbatim>\<open>joinSideloadAllowed\<close>: the keys of the allow-list in the order the map iteration
  \<open>keys\<close> gives them, sorted by the two nested exchange loops, then joined.
\<close>

definition swapIfLess :: "string list \<Rightarrow> nat \<Rightarrow> nat \<Rightarrow> string list" where
  "swapIfLess out i j = (if out ! j < out ! i then out[i := out ! j, j := out ! i] else out)"

definition exchangeSort :: "string list \<Rightarrow> string list" where
  "exchangeSort out =
     fold (\<lambda>i o1. fold (\<lambda>j o2. swapIfLess o2 i j) [Suc i ..< length o1] o1) [0 ..< length out] out"

definition joinSideloadAllowed :: "string list \<Rightarrow> string" where
  "joinSideloadAllowed keys = joinStrings '', '' (exchangeSort keys)"

text \<open>The loop over the grants from index \<open>i\<close>: the first violation, if any. The \<open>keys\<close>
  argument is the iteration order of the allow-list map, which only the error text depends on.\<close>

fun sideloadGrants :: "string list \<Rightarrow> nat \<Rightarrow> grant list \<Rightarrow> sideloadErr option" where
  "sideloadGrants keys i [] = None"
| "sideloadGrants keys i (g # gs) =
     (if Cap g \<notin> set SideloadAllowedCaps then Some (SLCapNotAllowed i (Cap g) (joinSideloadAllowed keys))
      else if (Cap g = ''fs.read'' \<or> Cap g = ''fs.write'') \<and> \<not> isAppLocalTarget (Target g)
      then Some (SLTargetNotLocal i (Cap g) (Target g))
      else if Cond g \<noteq> None then Some (SLConditional i (Cap g))
      else sideloadGrants keys (Suc i) gs)"

definition EnforceSideloadPolicy :: "string list \<Rightarrow> manifest option \<Rightarrow> sideloadErr option" where
  "EnforceSideloadPolicy keys mo =
     (case mo of
        None \<Rightarrow> Some SLNilManifest
      | Some m \<Rightarrow>
          if Protection m = ''guarded'' then Some (SLGuarded (Protection m))
          else (case Extends m of
            e # es \<Rightarrow> Some (SLExtends (length (e # es)) (Primitive e))
          | [] \<Rightarrow> (case DynamicExtends m of
              d # ds \<Rightarrow> Some (SLDynamicExtends (length (d # ds)) d)
            | [] \<Rightarrow> (case Affiliates m of
                a # as \<Rightarrow> Some (SLAffiliates (length (a # as)) (Role a))
              | [] \<Rightarrow> (case Depends m of
                  d # ds \<Rightarrow> Some (SLDepends (length (d # ds)) 0)
                | [] \<Rightarrow> sideloadGrants keys 0 (Grants m))))))"

section \<open>What passes\<close>

definition sideload_grant_ok :: "grant \<Rightarrow> bool" where
  "sideload_grant_ok g =
     (Cond g = None \<and>
      (Cap g = ''audit.log'' \<or> ((Cap g = ''fs.read'' \<or> Cap g = ''fs.write'') \<and> isAppLocalTarget (Target g))))"

lemma sideloadGrants_None_iff:
  "sideloadGrants keys i gs = None \<longleftrightarrow> (\<forall>g \<in> set gs. sideload_grant_ok g)"
  by (induction keys i gs rule: sideloadGrants.induct)
     (auto simp: sideload_grant_ok_def SideloadAllowedCaps_def)

lemma EnforceSideloadPolicy_None_iff:
  "EnforceSideloadPolicy keys mo = None \<longleftrightarrow>
     (\<exists>m. mo = Some m \<and> Protection m \<noteq> ''guarded'' \<and> Extends m = [] \<and> DynamicExtends m = []
        \<and> Affiliates m = [] \<and> Depends m = [] \<and> (\<forall>g \<in> set (Grants m). sideload_grant_ok g))"
  by (auto simp: EnforceSideloadPolicy_def sideloadGrants_None_iff split: option.splits list.splits)

lemma isAppLocalTarget_iff:
  "isAppLocalTarget t \<longleftrightarrow>
     (\<exists>c rest. trimSpace t = ''$APP/'' @ c # rest \<and> c \<noteq> CHR ''/'' \<and> \<not> contains (c # rest) ''..'')"
proof (cases "prefix ''$APP/'' (trimSpace t)")
  case True
  then obtain r where "trimSpace t = ''$APP/'' @ r" by (elim prefixE)
  then show ?thesis by (cases r) (simp_all add: isAppLocalTarget_def hasPrefix_def)
next
  case False
  then have "\<nexists>r. trimSpace t = ''$APP/'' @ r" by (auto simp only: prefix_def)
  moreover have "\<not> isAppLocalTarget t" using False by (simp add: isAppLocalTarget_def hasPrefix_def)
  ultimately show ?thesis by blast
qed

text \<open>The components of the path after the trimmed \<^verbatim>\<open>$APP/\<close>.\<close>

lemma isAppLocalTarget_no_parent:
  assumes "isAppLocalTarget t" and "trimSpace t = ''$APP/'' @ rest"
  shows "''..'' \<notin> set (splitOn CHR ''/'' rest)" and "hd (splitOn CHR ''/'' rest) \<noteq> []"
proof -
  obtain c r where r: "rest = c # r" "c \<noteq> CHR ''/''" "\<not> sublist ''..'' rest"
    using assms by (auto simp: isAppLocalTarget_iff contains_def)
  have "sublist p s" if "p \<in> set (splitOn k s)" for p k and s :: string
    using that
  proof (induction s arbitrary: p)
    case (Cons x s)
    obtain q qs where q: "splitOn k s = q # qs" by (meson neq_Nil_conv splitOn_not_Nil)
    have pre: "prefix q s"
      using q by (metis joinWith_splitOn joinWith_concat prefixI)
    show ?case
    proof (cases "x = k \<or> p \<in> set qs")
      case True
      then have "p = [] \<or> sublist p s" using Cons q by (auto split: if_splits)
      then show ?thesis by (auto intro: sublist_Cons_right[THEN iffD2])
    next
      case False
      then have "p = x # q" using Cons q by (auto split: if_splits)
      with pre show ?thesis by (simp add: prefix_imp_sublist)
    qed
  qed auto
  then show "''..'' \<notin> set (splitOn CHR ''/'' rest)" using r by blast
  show "hd (splitOn CHR ''/'' rest) \<noteq> []" using r by (auto split: list.splits)
qed

lemma three_orders:
  "distinct [x, y, z] \<Longrightarrow> set [x, y, z] \<subseteq> {a, b, c} \<Longrightarrow>
     [x, y, z] \<in> set [[a, b, c], [a, c, b], [b, a, c], [b, c, a], [c, a, b], [c, b, a]]"
  by auto

lemma joinSideloadAllowed_order:
  assumes "distinct keys" and "set keys = set SideloadAllowedCaps"
  shows "joinSideloadAllowed keys = ''audit.log, fs.read, fs.write''"
proof -
  let ?a = "''audit.log''" and ?r = "''fs.read''" and ?w = "''fs.write''"
  have "length keys = 3"
    using assms distinct_card[of keys] by (simp add: SideloadAllowedCaps_def)
  then obtain x y z where k: "keys = [x, y, z]" by (auto simp: numeral_3_eq_3 length_Suc_conv)
  then have "keys \<in> set [[?a, ?r, ?w], [?a, ?w, ?r], [?r, ?a, ?w], [?r, ?w, ?a], [?w, ?a, ?r], [?w, ?r, ?a]]"
    using assms three_orders[of x y z ?a ?r ?w] by (simp only: SideloadAllowedCaps_def) simp
  moreover have "list_all (\<lambda>ks. joinSideloadAllowed ks = ''audit.log, fs.read, fs.write'')
      [[?a, ?r, ?w], [?a, ?w, ?r], [?r, ?a, ?w], [?r, ?w, ?a], [?w, ?a, ?r], [?w, ?r, ?a]]"
    by code_simp
  ultimately show ?thesis by (simp only: list_all_iff)
qed

section \<open>Properties\<close>

text \<open>C12. The sideload policy passes exactly the manifests that are not guarded, declare no
  hooks, no dynamic hooks, no affiliates and no dependencies, and whose every grant is unconditional
  and is either audit.log or a read or write under the app's own directory.\<close>

theorem EnforceSideloadPolicy_iff:
  "EnforceSideloadPolicy keys (Some m) = None \<longleftrightarrow>
     Protection m \<noteq> ''guarded'' \<and> Extends m = [] \<and> DynamicExtends m = [] \<and> Affiliates m = []
     \<and> Depends m = []
     \<and> list_all (\<lambda>g. Cond g = None
          \<and> (Cap g = ''audit.log''
             \<or> (Cap g = ''fs.read'' \<or> Cap g = ''fs.write'') \<and> isAppLocalTarget (Target g))) (Grants m)"
  by (simp add: EnforceSideloadPolicy_None_iff sideload_grant_ok_def list_all_iff)

text \<open>C13. A sideloaded app never holds a grant for calling another app: whatever target is asked
  for, the broker's grant lookup on a manifest that passed the policy denies ipc.call, and its file
  grants name a path below the app's directory none of whose components is the parent directory.\<close>

theorem sideload_confined:
  assumes "EnforceSideloadPolicy keys (Some m) = None"
  shows "\<not> HasGrant m ''ipc.call'' target \<and>
    (\<forall>g \<in> set (Grants m). Cap g \<noteq> ''audit.log'' \<longrightarrow>
       (\<exists>rest. trimSpace (Target g) = ''$APP/'' @ rest \<and> rest \<noteq> []
          \<and> ''..'' \<notin> set (splitOn CHR ''/'' rest)))"
proof -
  have g: "\<forall>g \<in> set (Grants m). sideload_grant_ok g"
    using assms by (simp add: EnforceSideloadPolicy_None_iff)
  then have "\<not> HasGrant m ''ipc.call'' target"
    by (auto simp: HasGrant_def list_ex_iff sideload_grant_ok_def)
  moreover have "\<exists>rest. trimSpace (Target h) = ''$APP/'' @ rest \<and> rest \<noteq> []
      \<and> ''..'' \<notin> set (splitOn CHR ''/'' rest)" if "h \<in> set (Grants m)" "Cap h \<noteq> ''audit.log''" for h
  proof -
    have l: "isAppLocalTarget (Target h)" using g that by (auto simp: sideload_grant_ok_def)
    then obtain c rest where "trimSpace (Target h) = ''$APP/'' @ (c # rest)"
      by (auto simp: isAppLocalTarget_iff)
    with isAppLocalTarget_no_parent(1)[OF l this] show ?thesis by blast
  qed
  ultimately show ?thesis by blast
qed

definition exampleSideload :: manifest where
  "exampleSideload = \<lparr> ID = ''io.pilot.hello'', AppVersion = ''0.1.0'', ManifestVersion = 1,
     Binary = \<lparr> Runtime = ''go'', Path = ''bin/hello'', SHA256 = replicate 64 (CHR ''0'') \<rparr>,
     Exposes = [''hello.echo''],
     Grants = [\<lparr> Cap = ''fs.read'', Target = ''$APP/data'', Cond = None \<rparr>,
               \<lparr> Cap = ''audit.log'', Target = ''*'', Cond = None \<rparr>],
     Protection = ''shareable'',
     Store = \<lparr> Publisher = ''ed25519:'' @ replicate 43 (CHR ''A'') @ ''='', Signature = ''unsigned'' \<rparr>,
     Affiliates = [], Depends = [], Extends = [], DynamicExtends = [] \<rparr>"

lemma exampleSideload_ok:
  "Validate exampleSideload = [] \<and> EnforceSideloadPolicy SideloadAllowedCaps (Some exampleSideload) = None"
  by code_simp

theorem sideload_confined_witness:
  "\<not> HasGrant exampleSideload ''ipc.call'' ''io.pilot.wallet.pay''"
  using sideload_confined[of SideloadAllowedCaps exampleSideload] exampleSideload_ok by blast

end
