(* ===== verification/Jsonstr.thy ===== *)
theory Jsonstr
  imports Semver
begin

text \<open>
  The string literals of \<^verbatim>\<open>encoding/json\<close>, which every component that crosses a process or a
  file boundary goes through: the encoder's escaping with its HTML and UTF-8 rules, the scanner's
  string state and the decoder's unquoting, on bytes. Escaping, scanning and unquoting are inverse to
  each other on well-formed UTF-8.
\<close>

named_theorems json_scan \<open>what the scanners do on printed text\<close>

section \<open>UTF-8\<close>

abbreviation code :: "byte \<Rightarrow> nat" where
  "code c \<equiv> of_char c"

definition between :: "nat \<Rightarrow> nat \<Rightarrow> byte \<Rightarrow> bool" where
  "between lo hi c = (lo \<le> code c \<and> code c \<le> hi)"

text \<open>The size \<^verbatim>\<open>utf8.DecodeRune\<close> reports, or 0 where it reports an encoding error.\<close>

fun runeLen :: "bytes \<Rightarrow> nat" where
  "runeLen [] = 0"
| "runeLen (a # s) =
     (if code a < 128 then 1
      else if between 194 223 a then
        (case s of b # _ \<Rightarrow> if between 128 191 b then 2 else 0 | _ \<Rightarrow> 0)
      else if between 224 239 a then
        (case s of b # c # _ \<Rightarrow>
             if between (if code a = 224 then 160 else 128) (if code a = 237 then 159 else 191) b
               \<and> between 128 191 c then 3 else 0
         | _ \<Rightarrow> 0)
      else if between 240 244 a then
        (case s of b # c # d # _ \<Rightarrow>
             if between (if code a = 240 then 144 else 128) (if code a = 244 then 143 else 191) b
               \<and> between 128 191 c \<and> between 128 191 d then 4 else 0
         | _ \<Rightarrow> 0)
      else 0)"

declare runeLen.simps(2) [simp del]

fun validUTF8 :: "bytes \<Rightarrow> bool" where
  "validUTF8 [] = True"
| "validUTF8 (a # s) = (0 < runeLen (a # s) \<and> validUTF8 (drop (runeLen (a # s) - 1) s))"

declare validUTF8.simps(2) [simp del]

text \<open>\<^verbatim>\<open>utf8.EncodeRune\<close> on a rune that is not a surrogate.\<close>

definition encodeRune :: "nat \<Rightarrow> bytes" where
  "encodeRune r =
     (if r < 128 then [char_of r]
      else if r < 2048 then [char_of (192 + r div 64), char_of (128 + r mod 64)]
      else if r < 65536 then
        [char_of (224 + r div 4096), char_of (128 + r div 64 mod 64), char_of (128 + r mod 64)]
      else [char_of (240 + r div 262144), char_of (128 + r div 4096 mod 64),
            char_of (128 + r div 64 mod 64), char_of (128 + r mod 64)])"

definition replacement :: bytes where
  "replacement = [CHR 0xEF, CHR 0xBF, CHR 0xBD]"

section \<open>Escaping\<close>

definition dquote :: byte where "dquote = CHR 0x22"
definition bslash :: byte where "bslash = CHR 0x5C"

definition htmlChars :: string where "htmlChars = ''<>&''"

definition escASCII :: "byte \<Rightarrow> bytes" where
  "escASCII c =
     (if c = dquote \<or> c = bslash then [bslash, c]
      else if c = CHR 0x08 then [bslash, CHR ''b'']
      else if c = CHR 0x0C then [bslash, CHR ''f'']
      else if c = CHR 0x0A then [bslash, CHR ''n'']
      else if c = CHR 0x0D then [bslash, CHR ''r'']
      else if c = CHR 0x09 then [bslash, CHR ''t'']
      else if code c < 32 \<or> c \<in> set htmlChars then
        [bslash, CHR ''u'', CHR ''0'', CHR ''0'', hexDigit (code c div 16), hexDigit (code c mod 16)]
      else [c])"

definition lineSep :: bytes where "lineSep = [CHR 0xE2, CHR 0x80, CHR 0xA8]"
definition parSep :: bytes where "parSep = [CHR 0xE2, CHR 0x80, CHR 0xA9]"

definition escU :: "string \<Rightarrow> bytes" where
  "escU hex = [bslash, CHR ''u''] @ hex"

definition escRune :: "bytes \<Rightarrow> bytes" where
  "escRune r = (if r = lineSep then escU ''2028'' else if r = parSep then escU ''2029'' else r)"

fun escapeBody :: "bytes \<Rightarrow> bytes" where
  "escapeBody [] = []"
| "escapeBody (a # s) =
     (if code a < 128 then escASCII a @ escapeBody s
      else if runeLen (a # s) = 0 then escU ''fffd'' @ escapeBody s
      else escRune (take (runeLen (a # s)) (a # s)) @ escapeBody (drop (runeLen (a # s) - 1) s))"

declare escapeBody.simps(2) [simp del]

definition jsonQuote :: "bytes \<Rightarrow> bytes" where
  "jsonQuote s = dquote # escapeBody s @ [dquote]"

section \<open>Scanning\<close>

definition hexVal :: "char \<Rightarrow> nat option" where
  "hexVal c =
     (if between 48 57 c then Some (code c - 48)
      else if between 97 102 c then Some (code c - 87)
      else if between 65 70 c then Some (code c - 55)
      else None)"

definition hex4 :: "string \<Rightarrow> nat option" where
  "hex4 h =
     (case map hexVal h of
        [Some a, Some b, Some c, Some d] \<Rightarrow> Some (((a * 16 + b) * 16 + c) * 16 + d)
      | _ \<Rightarrow> None)"

definition simpleEscape :: "char \<Rightarrow> bool" where
  "simpleEscape e = (e \<in> set ''bfnrt/'' \<or> e = bslash \<or> e = dquote)"

text \<open>The scanner's string states: what follows the closing quote.\<close>

fun scanStr :: "bytes \<Rightarrow> bytes option" where
  "scanStr [] = None"
| "scanStr (c # s) =
     (if c = dquote then Some s
      else if c = bslash then
        (case s of
           [] \<Rightarrow> None
         | e # r \<Rightarrow>
             if simpleEscape e then scanStr r
             else if e = CHR ''u'' \<and> hex4 (take 4 r) \<noteq> None then scanStr (drop 4 r)
             else None)
      else if code c < 32 then None
      else scanStr s)"

declare scanStr.simps(2) [simp del]

section \<open>Unquoting\<close>

text \<open>\<^verbatim>\<open>getu4\<close>: a \<^verbatim>\<open>\uXXXX\<close> at the front.\<close>

definition getu4 :: "bytes \<Rightarrow> nat option" where
  "getu4 s = (if take 2 s = [bslash, CHR ''u''] then hex4 (take 4 (drop 2 s)) else None)"

definition isSurrogate :: "nat \<Rightarrow> bool" where
  "isSurrogate r = (0xD800 \<le> r \<and> r < 0xE000)"

text \<open>\<^verbatim>\<open>utf16.DecodeRune\<close>\<close>

definition decodePair :: "nat \<Rightarrow> nat option \<Rightarrow> nat option" where
  "decodePair r1 r2 =
     (case r2 of
        None \<Rightarrow> None
      | Some r \<Rightarrow>
          if 0xD800 \<le> r1 \<and> r1 < 0xDC00 \<and> 0xDC00 \<le> r \<and> r < 0xE000
          then Some ((r1 - 0xD800) * 1024 + (r - 0xDC00) + 0x10000) else None)"

text \<open>The escape sequence at the front of \<open>s\<close>, which starts with a backslash: the bytes it
  stands for and how long it is.\<close>

definition unescape :: "bytes \<Rightarrow> (bytes \<times> nat) option" where
  "unescape s =
     (case drop 1 s of
        [] \<Rightarrow> None
      | e # _ \<Rightarrow>
          if e = dquote \<or> e = bslash \<or> e \<in> set ''/'' \<or> e = CHR 0x27 then Some ([e], 2)
          else if e = CHR ''b'' then Some ([CHR 0x08], 2)
          else if e = CHR ''f'' then Some ([CHR 0x0C], 2)
          else if e = CHR ''n'' then Some ([CHR 0x0A], 2)
          else if e = CHR ''r'' then Some ([CHR 0x0D], 2)
          else if e = CHR ''t'' then Some ([CHR 0x09], 2)
          else if e = CHR ''u'' then
            (case getu4 s of
               None \<Rightarrow> None
             | Some rr \<Rightarrow>
                 if isSurrogate rr then
                   (case decodePair rr (getu4 (drop 6 s)) of
                      Some r \<Rightarrow> Some (encodeRune r, 12)
                    | None \<Rightarrow> Some (replacement, 6))
                 else Some (encodeRune rr, 6))
          else None)"

lemma unescape_pos: "unescape s = Some (b, n) \<Longrightarrow> 2 \<le> n"
  by (auto simp: unescape_def split: list.splits if_splits option.splits)

function unquote :: "bytes \<Rightarrow> bytes option" where
  "unquote [] = Some []"
| "unquote (c # s) =
     (if c = bslash then
        (case unescape (c # s) of
           None \<Rightarrow> None
         | Some (b, n) \<Rightarrow> map_option (append b) (unquote (drop n (c # s))))
      else if c = dquote \<or> code c < 32 then None
      else if code c < 128 then map_option (Cons c) (unquote s)
      else if runeLen (c # s) = 0 then map_option (append replacement) (unquote s)
      else map_option (append (take (runeLen (c # s)) (c # s))) (unquote (drop (runeLen (c # s)) (c # s))))"
  by pat_completeness auto
termination
  by (relation "measure length") (auto dest!: unescape_pos)

declare unquote.simps(2) [simp del]

section \<open>Lemmas\<close>

lemma runeLen_ascii [simp]: "code a < 128 \<Longrightarrow> runeLen (a # s) = 1"
  by (simp add: runeLen.simps(2))

text \<open>A rune of several bytes: its bytes, none of them ASCII, and what follows is free.\<close>

lemma runeLen_take:
  assumes "128 \<le> code a" and "runeLen (a # s) = Suc n"
  shows "n \<le> length s" and "194 \<le> code a" and "\<And>b. b \<in> set (take n s) \<Longrightarrow> between 128 191 b"
    and "runeLen (a # take n s @ t) = Suc n"
  using assms
  by (auto simp: runeLen.simps(2) between_def split: if_splits list.splits)


lemma hexVal_hexDigit: "n < 16 \<Longrightarrow> hexVal (hexDigit n) = Some n"
proof -
  assume n: "n < 16"
  have "list_all (\<lambda>n. hexVal (hexDigit n) = Some n) [0 ..< 16]" by code_simp
  with n show ?thesis by (simp add: list_all_iff)
qed

lemma hex4_byte:
  assumes "code c < 128"
  shows "hex4 [CHR ''0'', CHR ''0'', hexDigit (code c div 16), hexDigit (code c mod 16)] = Some (code c)"
proof -
  have "hexVal (CHR ''0'') = Some 0" by (simp add: hexVal_def between_def)
  then show ?thesis
    using assms by (simp add: hex4_def hexVal_hexDigit div_mult_mod_eq less_mult_imp_div_less)
qed

lemma special_codes:
  "code dquote = 34" "code bslash = 92" "dquote \<noteq> bslash" "bslash \<noteq> dquote"
  "CHR ''u'' \<noteq> bslash" "CHR ''u'' \<noteq> dquote"
  by (simp_all add: dquote_def bslash_def)

lemma special_iff: "x = dquote \<longleftrightarrow> code x = 34" "x = bslash \<longleftrightarrow> code x = 92"
  using special_codes(1,2) of_char_eq_iff by metis+

text \<open>One step of the scanner over each kind of printed byte.\<close>

lemma scanStr_plain [json_scan]:
  "c \<noteq> dquote \<Longrightarrow> c \<noteq> bslash \<Longrightarrow> 32 \<le> code c \<Longrightarrow> scanStr (c # t) = scanStr t"
  by (simp add: scanStr.simps(2))

lemma scanStr_escU [json_scan]: "hex4 h \<noteq> None \<Longrightarrow> length h = 4 \<Longrightarrow> scanStr (escU h @ t) = scanStr t"
  by (auto simp: scanStr.simps(2)[of bslash] escU_def special_codes simpleEscape_def)

lemma scanStr_escASCII [json_scan]: "code c < 128 \<Longrightarrow> scanStr (escASCII c @ t) = scanStr t"
  using scanStr_escU[of "[CHR ''0'', CHR ''0'', hexDigit (code c div 16), hexDigit (code c mod 16)]" t]
  by (auto simp: escASCII_def escU_def hex4_byte special_codes scanStr.simps(2) simpleEscape_def)

lemma hex4_length: "hex4 h = Some v \<Longrightarrow> length h = 4"
  by (auto simp: hex4_def split: list.splits option.splits)

lemma scanStr_append: "scanStr s = Some r \<Longrightarrow> scanStr (s @ t) = Some (r @ t)"
proof (induction s rule: scanStr.induct)
  case (2 c s)
  consider "c = dquote" | e s' where "c = bslash" "s = e # s'" | "c \<noteq> dquote" "c \<noteq> bslash"
    using 2(4) by (cases s) (auto simp: scanStr.simps(2) split: if_splits)
  then show ?case
  proof cases
    case 1
    then show ?thesis using 2(4) by (simp add: scanStr.simps(2))
  next
    case esc: (2 e s')
    show ?thesis
    proof (cases "simpleEscape e")
      case True
      then show ?thesis using esc "2.prems" "2.IH"(1)[of e s'] by (simp add: scanStr.simps(2) special_codes)
    next
      case False
      have u: "e = CHR ''u''" "hex4 (take 4 s') \<noteq> None"
        using esc "2.prems" False by (simp_all add: scanStr.simps(2) special_codes split: if_splits)
      then have "4 \<le> length s'" using hex4_length[of "take 4 s'"] by auto
      then show ?thesis
        using esc "2.prems" "2.IH"(2)[of e s'] False u by (simp add: scanStr.simps(2) special_codes)
    qed
  next
    case 3
    then show ?thesis using 2(3,4) by (simp add: scanStr.simps(2) split: if_splits)
  qed
qed simp

lemma scanStr_high: "(\<And>b. b \<in> set bs \<Longrightarrow> 128 \<le> code b) \<Longrightarrow> scanStr (bs @ t) = scanStr t"
proof (induction bs)
  case (Cons b bs)
  have "128 \<le> code b" using Cons.prems by simp
  then have "scanStr (b # bs @ t) = scanStr (bs @ t)"
    by (intro scanStr_plain) (auto simp: special_codes)
  then show ?case using Cons by simp
qed simp

lemma hex4_escapes: "hex4 ''fffd'' = Some 0xFFFD" "hex4 ''2028'' = Some 0x2028" "hex4 ''2029'' = Some 0x2029"
  by (simp_all add: hex4_def hexVal_def between_def)

text \<open>The bytes of a rune of several bytes.\<close>

lemma rune_bytes:
  assumes "\<not> code a < 128" and "runeLen (a # s) \<noteq> 0"
  shows "\<And>b. b \<in> set (take (runeLen (a # s)) (a # s)) \<Longrightarrow> 128 \<le> code b"
    and "runeLen (take (runeLen (a # s)) (a # s) @ t) = runeLen (a # s)"
    and "length (take (runeLen (a # s)) (a # s)) = runeLen (a # s)"
proof -
  obtain n where n: "runeLen (a # s) = Suc n" using assms(2) by (cases "runeLen (a # s)") auto
  have a: "128 \<le> code a" using assms(1) by simp
  note rt = runeLen_take[OF a n]
  show "\<And>b. b \<in> set (take (runeLen (a # s)) (a # s)) \<Longrightarrow> 128 \<le> code b"
    using rt(3) a by (auto simp: n between_def)
  show "runeLen (take (runeLen (a # s)) (a # s) @ t) = runeLen (a # s)"
    "length (take (runeLen (a # s)) (a # s)) = runeLen (a # s)"
    using rt(1,4) by (simp_all add: n)
qed

lemma scanStr_escapeBody [json_scan]: "scanStr (escapeBody s @ dquote # t) = Some t"
proof (induction s rule: escapeBody.induct)
  case 1
  show ?case by (simp add: scanStr.simps(2))
next
  case (2 a s)
  consider "code a < 128" | "\<not> code a < 128" "runeLen (a # s) = 0"
    | "\<not> code a < 128" "runeLen (a # s) \<noteq> 0" by blast
  then show ?case
  proof cases
    case 3
    note rb = rune_bytes[OF 3]
    have "scanStr (escRune (take (runeLen (a # s)) (a # s)) @ u) = scanStr u" for u
      using scanStr_high[OF rb(1)] scanStr_escU hex4_escapes by (auto simp: escRune_def)
    then show ?thesis using 2(3) 3 by (simp add: escapeBody.simps(2))
  qed (use 2 in \<open>simp_all add: escapeBody.simps(2) json_scan hex4_escapes\<close>)
qed

text \<open>Unquoting what was escaped.\<close>

lemma unquote_escape [json_scan]:
  "unescape (e @ t) = Some (b, length e) \<Longrightarrow> e \<noteq> [] \<Longrightarrow> hd e = bslash \<Longrightarrow>
     unquote (e @ t) = map_option (append b) (unquote t)"
  by (cases e) (auto simp: unquote.simps(2))

lemma getu4_escU: "hex4 h = Some r \<Longrightarrow> length h = 4 \<Longrightarrow> getu4 (escU h @ t) = Some r"
  by (simp add: getu4_def escU_def)

lemma unescape_escU:
  assumes "hex4 h = Some r" and "length h = 4" and "\<not> isSurrogate r"
  shows "unescape (escU h @ t) = Some (encodeRune r, length (escU h))"
  using getu4_escU[OF assms(1,2), of t] assms(2,3)
  by (simp add: unescape_def escU_def special_codes dquote_def bslash_def)

lemma unquote_escU:
  assumes "hex4 h = Some r" and "length h = 4" and "\<not> isSurrogate r"
  shows "unquote (escU h @ t) = map_option (append (encodeRune r)) (unquote t)"
  using unquote_escape[OF unescape_escU[OF assms]] by (simp add: escU_def)

lemma unquote_escASCII:
  assumes "code c < 128"
  shows "unquote (escASCII c @ t) = map_option (Cons c) (unquote t)"
proof -
  let ?h = "[CHR ''0'', CHR ''0'', hexDigit (code c div 16), hexDigit (code c mod 16)]"
  have ap: "append [x] = Cons x" for x :: byte by (rule ext) simp
  have h: "unquote (escU ?h @ t) = map_option (Cons c) (unquote t)"
    using unquote_escU[OF hex4_byte[OF assms], of t] assms by (simp add: isSurrogate_def encodeRune_def ap)
  have e: "unquote (bslash # e # t) = map_option (append b) (unquote t)"
    if "unescape (bslash # e # t) = Some (b, 2)" for e b
    using unquote_escape[of "[bslash, e]" t b] that by simp
  have p: "unquote (c # t) = map_option (Cons c) (unquote t)" if "c \<noteq> bslash" "c \<noteq> dquote" "\<not> code c < 32"
    using that assms by (simp add: unquote.simps(2))
  consider "c \<in> {dquote, bslash}" | "c = CHR 0x08" | "c = CHR 0x0C" | "c = CHR 0x0A" | "c = CHR 0x0D" | "c = CHR 0x09"
    | "c \<notin> {dquote, bslash, CHR 0x08, CHR 0x0C, CHR 0x0A, CHR 0x0D, CHR 0x09}" by blast
  then show ?thesis
  proof cases
    case 1
    then have "unescape (bslash # c # t) = Some ([c], 2)" by (auto simp: unescape_def)
    then show ?thesis using e 1 by (auto simp: escASCII_def ap)
  next
    case 7
    then have "escASCII c = (if code c < 32 \<or> c \<in> set htmlChars then escU ?h else [c])"
      by (simp add: escASCII_def escU_def)
    then show ?thesis using 7 h p by auto
  qed (simp_all add: escASCII_def e unescape_def special_iff ap)
qed

lemma unquote_rune:
  assumes "\<not> code a < 128" and "runeLen (a # s) \<noteq> 0"
  shows "unquote (escRune (take (runeLen (a # s)) (a # s)) @ t) =
    map_option (append (take (runeLen (a # s)) (a # s))) (unquote t)"
proof -
  let ?r = "take (runeLen (a # s)) (a # s)"
  note rb = rune_bytes[OF assms]
  obtain bs where bs: "?r = a # bs" using assms(2) by (cases "runeLen (a # s)") auto
  have ap: "append (a # bs) = (\<lambda>u. a # bs @ u)" by (rule ext) simp
  have "unquote (?r @ t) = map_option (append ?r) (unquote t)"
  proof -
    have "a \<noteq> bslash" "a \<noteq> dquote" "\<not> code a < 32" "runeLen (a # bs @ t) = Suc (length bs)"
      using assms(1) rb(2)[of t] rb(3) by (auto simp: special_codes bs)
    then show ?thesis
      unfolding bs using assms(1) by (simp add: unquote.simps(2) ap)
  qed
  moreover have "encodeRune 0x2028 = lineSep" "encodeRune 0x2029 = parSep"
    by (simp_all add: encodeRune_def lineSep_def parSep_def char_of_eq_iff)
  moreover note unquote_escU[OF hex4_escapes(2)] unquote_escU[OF hex4_escapes(3)]
  ultimately show ?thesis by (auto simp: escRune_def isSurrogate_def)
qed

lemma unquote_escapeBody:
  "validUTF8 s \<Longrightarrow> unquote (escapeBody s @ t) = map_option (append s) (unquote t)"
proof (induction s rule: escapeBody.induct)
  case (2 a s)
  have ap: "append (x @ y) = (\<lambda>u. x @ y @ u)" for x y :: bytes by (rule ext) simp
  have n: "runeLen (a # s) \<noteq> 0" and v: "validUTF8 (drop (runeLen (a # s) - 1) s)"
    using 2(4) by (simp_all add: validUTF8.simps(2))
  show ?case
  proof (cases "code a < 128")
    case True
    then have "unquote (escapeBody (a # s) @ t) = map_option (Cons a) (map_option (append s) (unquote t))"
      using 2(1) v by (simp add: escapeBody.simps(2) unquote_escASCII)
    then show ?thesis by (simp add: option.map_comp comp_def)
  next
    case False
    have ts: "take (runeLen (a # s)) (a # s) @ drop (runeLen (a # s) - 1) s = a # s"
      using n append_take_drop_id[of "runeLen (a # s)" "a # s"] by (cases "runeLen (a # s)") auto
    have "unquote (escapeBody (a # s) @ t) = map_option (append (take (runeLen (a # s)) (a # s)))
        (map_option (append (drop (runeLen (a # s) - 1) s)) (unquote t))"
      using 2(3)[OF False n v] unquote_rune[OF False n] False n by (simp add: escapeBody.simps(2))
    also have "\<dots> = map_option (append (take (runeLen (a # s)) (a # s) @ drop (runeLen (a # s) - 1) s)) (unquote t)"
      by (simp only: ap option.map_comp comp_def)
    finally show ?thesis by (simp only: ts)
  qed
qed (simp add: append_Nil[abs_def] option.map_ident)

lemma unquote_escaped [simp]: "validUTF8 s \<Longrightarrow> unquote (escapeBody s) = Some s"
  using unquote_escapeBody[of s "[]"] by simp

lemma validUTF8_ascii: "list_all (\<lambda>c. code c < 128) s \<Longrightarrow> validUTF8 s"
  by (induction s) (auto simp: validUTF8.simps(2))

lemma validUTF8_append: "validUTF8 s \<Longrightarrow> validUTF8 t \<Longrightarrow> validUTF8 (s @ t)"
proof (induction s rule: validUTF8.induct)
  case (2 a s)
  have n: "runeLen (a # s) \<noteq> 0" using 2(2) by (simp add: validUTF8.simps(2))
  have "runeLen (a # s @ t) = runeLen (a # s) \<and> runeLen (a # s) - 1 \<le> length s"
  proof (cases "code a < 128")
    case False
    obtain k where k: "runeLen (a # s) = Suc k" using n by (cases "runeLen (a # s)") auto
    have st: "take k s @ drop k s @ t = s @ t" by (simp flip: append_assoc)
    show ?thesis
      using k runeLen_take(1)[of a s k] runeLen_take(4)[of a s k "drop k s @ t", unfolded st] False by simp
  qed simp
  moreover from this have "runeLen (a # s) - Suc (length s) = 0" by arith
  then have "drop (runeLen (a # s) - 1) (s @ t) = drop (runeLen (a # s) - 1) s @ t" by simp
  ultimately show ?case using 2 n by (simp add: validUTF8.simps(2) del: drop_append)
qed simp

section \<open>Unquoted text is well-formed\<close>

lemma code_char_of: "n < 256 \<Longrightarrow> code (char_of n) = n"
  by simp

lemma validUTF8_single: "runeLen s = length s \<Longrightarrow> s \<noteq> [] \<Longrightarrow> validUTF8 s"
  by (cases s) (auto simp: validUTF8.simps(2))

lemma validUTF8_encodeRune:
  assumes "r < 0x110000" and "\<not> isSurrogate r"
  shows "validUTF8 (encodeRune r)"
proof (rule validUTF8_single)
  consider "r < 128" | "128 \<le> r" "r < 2048" | "2048 \<le> r" "r < 65536" | "65536 \<le> r" by linarith
  then show "runeLen (encodeRune r) = length (encodeRune r)"
  proof cases
    case 1
    then show ?thesis by (simp add: encodeRune_def code_char_of)
  next
    case 2
    then have "192 + r div 64 < 256" "194 \<le> 192 + r div 64" "192 + r div 64 \<le> 223" by simp_all
    moreover have "r mod 64 < 64" by simp
    ultimately show ?thesis
      using 2 by (simp add: encodeRune_def runeLen.simps(2) between_def code_char_of)
  next
    case 3
    let ?a = "r div 4096" and ?b = "r div 64 mod 64"
    have q: "r div 64 = 64 * ?a + ?b" using div_mult2_eq[of r 64 64] by simp
    have "r div 64 < 864 \<or> 896 \<le> r div 64" "32 \<le> r div 64" using assms(2) 3 unfolding isSurrogate_def by linarith+
    moreover have b: "?a < 16" "?b < 64" "r mod 64 < 64" using 3 by simp_all
    ultimately have "?a = 0 \<Longrightarrow> 32 \<le> ?b" "?a = 13 \<Longrightarrow> ?b < 32" using q by linarith+
    with b 3 show ?thesis
      by (auto simp: encodeRune_def runeLen.simps(2) between_def code_char_of)
  next
    case 4
    let ?a = "r div 262144" and ?b = "r div 4096 mod 64"
    have q: "r div 4096 = 64 * ?a + ?b" using div_mult2_eq[of r 4096 64] by simp
    have "r div 4096 < 272" "16 \<le> r div 4096" using assms(1) 4 by linarith+
    moreover have b: "?a < 5" "?b < 64" "r mod 64 < 64" "r div 64 mod 64 < 64" using assms(1) by simp_all
    ultimately have "?a = 0 \<Longrightarrow> 16 \<le> ?b" "?a = 4 \<Longrightarrow> ?b < 16" using q by linarith+
    with b 4 show ?thesis
      by (auto simp: encodeRune_def runeLen.simps(2) between_def code_char_of)
  qed
qed (simp add: encodeRune_def)

lemma hex4_less: "hex4 h = Some v \<Longrightarrow> v < 65536"
proof -
  have x: "n < 16" if "hexVal c = Some n" for c n
    using that by (auto simp: hexVal_def between_def split: if_splits)
  assume "hex4 h = Some v"
  then obtain a b c d where v: "v = ((a * 16 + b) * 16 + c) * 16 + d"
    and "map hexVal h = [Some a, Some b, Some c, Some d]"
    by (auto simp: hex4_def split: list.splits option.splits)
  then have "a < 16" "b < 16" "c < 16" "d < 16" using x by (auto simp: map_eq_Cons_conv)
  then show ?thesis using v by simp
qed

lemma getu4_less: "getu4 s = Some v \<Longrightarrow> v < 65536"
  using hex4_less by (auto simp: getu4_def split: if_splits)

lemma validUTF8_replacement: "validUTF8 replacement"
  by (rule validUTF8_single) (simp_all add: replacement_def runeLen.simps(2) between_def)

lemma decodePair_range: "decodePair r1 r2 = Some r \<Longrightarrow> r < 0x110000 \<and> \<not> isSurrogate r"
  by (auto simp: decodePair_def isSurrogate_def split: option.splits if_splits)

lemma validUTF8_ascii1 [simp]: "code c < 128 \<Longrightarrow> validUTF8 [c]"
  by (simp add: validUTF8.simps(2))

lemma validUTF8_unescape:
  assumes "unescape s = Some (b, n)"
  shows "validUTF8 b"
proof -
  have u: "validUTF8 b" if "getu4 s = Some rr" and "(if isSurrogate rr
      then (case decodePair rr (getu4 (drop 6 s)) of Some r \<Rightarrow> Some (encodeRune r, 12) | None \<Rightarrow> Some (replacement, 6))
      else Some (encodeRune rr, 6)) = Some (b, n)" for rr
    using that getu4_less[of s rr] decodePair_range validUTF8_encodeRune validUTF8_replacement
    by (auto split: if_splits option.splits)
  obtain e s' where e: "drop 1 s = e # s'" using assms by (cases "drop 1 s") (auto simp: unescape_def)
  show ?thesis
  proof (cases "e = CHR ''u'' \<and> \<not> (e = dquote \<or> e = bslash \<or> e \<in> set ''/'' \<or> e = CHR 0x27)")
    case True
    then show ?thesis using assms e u by (auto simp: unescape_def split: option.splits)
  next
    case False
    then have "b \<in> {[e], [CHR 0x08], [CHR 0x0C], [CHR 0x0A], [CHR 0x0D], [CHR 0x09]}"
      and "b = [e] \<longrightarrow> e \<in> {dquote, bslash, CHR ''/'', CHR 0x27} \<or> code e < 128"
      using assms e by (auto simp: unescape_def split: if_splits)
    then show ?thesis by (auto simp: special_codes)
  qed
qed

lemma validUTF8_unquote: "unquote s = Some t \<Longrightarrow> validUTF8 t"
proof (induction s arbitrary: t rule: unquote.induct)
  case (2 c s)
  show ?case
  proof (cases "c = bslash")
    case True
    then obtain b n u where "unescape (c # s) = Some (b, n)" "unquote (drop n (c # s)) = Some u" "t = b @ u"
      using 2(5) by (auto simp: unquote.simps(2) split: option.splits)
    then show ?thesis using 2(1)[OF True _ refl] validUTF8_unescape validUTF8_append by blast
  next
    case b: False
    then have q: "\<not> (c = dquote \<or> code c < 32)" using 2(5) by (auto simp: unquote.simps(2) split: if_splits)
    show ?thesis
    proof (cases "code c < 128")
      case True
      then obtain u where "unquote s = Some u" "t = c # u" using 2(5) b q by (auto simp: unquote.simps(2))
      then show ?thesis using 2(2)[OF b q True] True by (simp add: validUTF8.simps(2))
    next
      case h: False
      show ?thesis
      proof (cases "runeLen (c # s) = 0")
        case True
        then obtain u where "unquote s = Some u" "t = replacement @ u" using 2(5) b q h by (auto simp: unquote.simps(2))
        then show ?thesis using 2(3)[OF b q h True] validUTF8_append validUTF8_replacement by blast
      next
        case False
        then obtain u where u: "unquote (drop (runeLen (c # s)) (c # s)) = Some u"
          "t = take (runeLen (c # s)) (c # s) @ u" using 2(5) b q h by (auto simp: unquote.simps(2))
        have "validUTF8 (take (runeLen (c # s)) (c # s))"
          using rune_bytes(2)[OF h False, of "[]"] rune_bytes(3)[OF h False] False
          by (intro validUTF8_single) auto
        then show ?thesis using 2(4)[OF b q h False] u validUTF8_append by blast
      qed
    qed
  qed
qed simp

text \<open>An escaped byte takes at most six.\<close>

lemma length_escapeBody: "length (escapeBody s) \<le> 6 * length s"
proof (induction s rule: escapeBody.induct)
  case (2 a s)
  consider "code a < 128" | "\<not> code a < 128" "runeLen (a # s) = 0"
    | "\<not> code a < 128" "runeLen (a # s) \<noteq> 0" by blast
  then show ?case
  proof cases
    case 1
    have "length (escASCII a) \<le> 6" by (simp add: escASCII_def)
    then show ?thesis using 1 2(1) by (simp add: escapeBody.simps(2))
  next
    case 2
    then show ?thesis using "2.IH"(2) by (simp add: escapeBody.simps(2) escU_def)
  next
    case 3
    let ?n = "runeLen (a # s)"
    have n: "length (take ?n (a # s)) = ?n" using rune_bytes(3)[OF 3] .
    have "length (escRune (take ?n (a # s))) \<le> 6 * ?n" using n 3(2) by (auto simp: escRune_def escU_def)
    moreover have "length (escapeBody (drop (?n - 1) s)) \<le> 6 * (length s - (?n - 1))" using 2(3)[OF 3] by simp
    moreover have "?n \<le> Suc (length s)" using n by (simp add: min_def split: if_splits)
    ultimately show ?thesis using 3 by (simp add: escapeBody.simps(2))
  qed
qed simp

end
