(* ===== verification/Json.thy ===== *)
theory Json
  imports Jsonstr
begin

text \<open>
  The scanner, the compaction and the typed decoding of \<^verbatim>\<open>encoding/json\<close> as the sources use it
  (\<^verbatim>\<open>json.Marshal\<close> on structs, \<^verbatim>\<open>json.Unmarshal\<close> into structs with
  \<^verbatim>\<open>json.RawMessage\<close> fields). Text is validated first, with the nesting limit of the library; a
  value is then decoded from its own text, so a decoder is a function of the text and of the value the
  destination had. What the printers write is scanned back member by member.
\<close>

section \<open>Scanning values\<close>

definition isSpace :: "byte \<Rightarrow> bool" where
  "isSpace c = (c = CHR '' '' \<or> c = CHR 0x09 \<or> c = CHR 0x0D \<or> c = CHR 0x0A)"

definition skipWS :: "bytes \<Rightarrow> bytes" where
  "skipWS s = dropWhile isSpace s"

definition scanExp :: "bytes \<Rightarrow> bytes option" where
  "scanExp s =
     (case s of
        [] \<Rightarrow> Some []
      | e # r \<Rightarrow>
          if e = CHR ''e'' \<or> e = CHR ''E'' then
            (let r1 = (case r of [] \<Rightarrow> [] | c # r' \<Rightarrow> if c = CHR ''+'' \<or> c = CHR ''-'' then r' else r) in
             case r1 of
               [] \<Rightarrow> None
             | c # r2 \<Rightarrow> if isDigit c then Some (dropWhile isDigit r2) else None)
          else Some s)"

definition scanFrac :: "bytes \<Rightarrow> bytes option" where
  "scanFrac s =
     (case s of
        [] \<Rightarrow> Some []
      | e # r \<Rightarrow>
          if e = CHR ''.'' then
            (case r of
               [] \<Rightarrow> None
             | c # r2 \<Rightarrow> if isDigit c then scanExp (dropWhile isDigit r2) else None)
          else scanExp s)"

definition scanNum :: "bytes \<Rightarrow> bytes option" where
  "scanNum s =
     (let s1 = (case s of [] \<Rightarrow> [] | c # r \<Rightarrow> if c = CHR ''-'' then r else s) in
      case s1 of
        [] \<Rightarrow> None
      | c # r \<Rightarrow>
          if c = CHR ''0'' then scanFrac r
          else if isDigit c then scanFrac (dropWhile isDigit r)
          else None)"

definition scanLit :: "string \<Rightarrow> bytes \<Rightarrow> bytes option" where
  "scanLit lit s = (if take (length lit) s = lit then Some (drop (length lit) s) else None)"

definition scalar :: "bytes \<Rightarrow> bytes option" where
  "scalar s =
     (case s of
        [] \<Rightarrow> None
      | c # r \<Rightarrow>
          if c = dquote then scanStr r
          else if c = CHR ''-'' \<or> isDigit c then scanNum s
          else if c = CHR ''t'' then scanLit ''true'' s
          else if c = CHR ''f'' then scanLit ''false'' s
          else if c = CHR ''n'' then scanLit ''null'' s
          else None)"

text \<open>The text a scanner that left \<open>r\<close> of \<open>s\<close> went over.\<close>

definition consumed :: "bytes \<Rightarrow> bytes \<Rightarrow> bytes" where
  "consumed s r = take (length s - length r) s"

text \<open>An element of an array and a member of an object, with the space around them; the key is kept
  as its text between the quotes.\<close>

definition element :: "(bytes \<Rightarrow> bytes option) \<Rightarrow> bytes \<Rightarrow> (bytes \<times> bytes) option" where
  "element p s = (let v = skipWS s in map_option (\<lambda>r. (consumed v r, skipWS r)) (p v))"

definition member :: "(bytes \<Rightarrow> bytes option) \<Rightarrow> bytes \<Rightarrow> ((bytes \<times> bytes) \<times> bytes) option" where
  "member p s =
     (case skipWS s of
        [] \<Rightarrow> None
      | c # r \<Rightarrow>
          if c \<noteq> dquote then None
          else (case scanStr r of
            None \<Rightarrow> None
          | Some r1 \<Rightarrow>
              (case skipWS r1 of
                 [] \<Rightarrow> None
               | c1 # r2 \<Rightarrow>
                   if c1 \<noteq> CHR '':'' then None
                   else map_option (\<lambda>(v, r3). ((butlast (consumed r r1), v), r3)) (element p r2))))"

text \<open>One or more items separated by commas, up to the closing bracket. An item always takes
  something, so the bound on the rest is met; it is what the recursion terminates by.\<close>

function sepLoop :: "(bytes \<Rightarrow> ('a \<times> bytes) option) \<Rightarrow> char \<Rightarrow> bytes \<Rightarrow> ('a list \<times> bytes) option" where
  "sepLoop item close s =
     (case item s of
        None \<Rightarrow> None
      | Some (x, []) \<Rightarrow> None
      | Some (x, c # r) \<Rightarrow>
          if c = close then Some ([x], r)
          else if c = CHR '','' \<and> length r < length s
            then map_option (\<lambda>(xs, t). (x # xs, t)) (sepLoop item close r)
          else None)"
  by pat_completeness auto
termination by (relation "measure (\<lambda>(item, close, s). length s)") auto

declare sepLoop.simps [simp del]

definition bracketed :: "(bytes \<Rightarrow> ('a \<times> bytes) option) \<Rightarrow> char \<Rightarrow> bytes \<Rightarrow> ('a list \<times> bytes) option" where
  "bracketed item close s =
     (case skipWS s of
        [] \<Rightarrow> None
      | c # r \<Rightarrow> if c = close then Some ([], r) else sepLoop item close (c # r))"

text \<open>A value whose arrays and objects are at most \<open>d\<close> deep.\<close>

primrec skipValue :: "nat \<Rightarrow> bytes \<Rightarrow> bytes option" where
  "skipValue 0 s = scalar s"
| "skipValue (Suc d) s =
     (case s of
        [] \<Rightarrow> None
      | c # r \<Rightarrow>
          if c = CHR ''{'' then map_option snd (bracketed (member (skipValue d)) (CHR ''}'') r)
          else if c = CHR ''['' then map_option snd (bracketed (element (skipValue d)) (CHR '']'') r)
          else scalar s)"

declare skipValue.simps [simp del]

definition maxNestingDepth :: nat where
  "maxNestingDepth = 10000"

definition checkValid :: "bytes \<Rightarrow> bool" where
  "checkValid s =
     (case skipValue maxNestingDepth (skipWS s) of None \<Rightarrow> False | Some r \<Rightarrow> skipWS r = [])"

section \<open>Compaction\<close>

text \<open>\<^verbatim>\<open>appendCompact\<close> with HTML escaping, on valid text; the flag tells whether the
  position is inside a string.\<close>

fun compactText :: "bool \<Rightarrow> bytes \<Rightarrow> bytes" where
  "compactText q [] = []"
| "compactText False (c # s) =
     (if isSpace c then compactText False s else c # compactText (c = dquote) s)"
| "compactText True (c # s) =
     (if c = dquote then c # compactText False s
      else if c = bslash then (case s of [] \<Rightarrow> [c] | e # r \<Rightarrow> c # e # compactText True r)
      else if c \<in> set htmlChars then escASCII c @ compactText True s
      else if take 3 (c # s) = lineSep \<or> take 3 (c # s) = parSep
        then escRune (take 3 (c # s)) @ compactText True (drop 2 s)
      else c # compactText True s)"

definition compact :: "bytes \<Rightarrow> bytes option" where
  "compact s = (if checkValid s then Some (compactText False s) else None)"

section \<open>Typed decoding\<close>

type_synonym 'a decoder = "bytes \<Rightarrow> 'a \<Rightarrow> 'a option"

definition isNull :: "bytes \<Rightarrow> bool" where
  "isNull raw = (take 1 raw = ''n'')"

definition decString :: "string decoder" where
  "decString raw old =
     (if isNull raw then Some old
      else if take 1 raw = [dquote] then unquote (butlast (drop 1 raw))
      else None)"

definition decBool :: "bool decoder" where
  "decBool raw old =
     (if isNull raw then Some old
      else if raw = ''true'' then Some True
      else if raw = ''false'' then Some False
      else None)"

text \<open>\<^verbatim>\<open>int\<close> and \<^verbatim>\<open>uint32\<close> destinations: \<^verbatim>\<open>strconv.ParseInt\<close> and
  \<^verbatim>\<open>ParseUint\<close> with the range check of the destination.\<close>

definition decInt :: "int decoder" where
  "decInt raw old =
     (if isNull raw then Some old
      else atoi raw)"

definition decUint32 :: "32 word decoder" where
  "decUint32 raw old =
     (if isNull raw then Some old
      else (case unsigned raw of
        None \<Rightarrow> None
      | Some n \<Rightarrow> if n < 2 ^ 32 then Some (word_of_int n) else None))"

text \<open>\<^verbatim>\<open>json.RawMessage\<close> keeps the text, \<^verbatim>\<open>null\<close> included.\<close>

definition decRaw :: "bytes decoder" where
  "decRaw raw old = Some raw"

definition decPtr :: "'a decoder \<Rightarrow> 'a \<Rightarrow> 'a option decoder" where
  "decPtr dec zero raw old =
     (if isNull raw then Some None
      else map_option Some (dec raw (case old of None \<Rightarrow> zero | Some v \<Rightarrow> v)))"

text \<open>Field names are matched exactly first, then after folding case. Outside ASCII only the Kelvin
  sign and the long s fold to a letter a field name has.\<close>

fun foldName :: "string \<Rightarrow> string" where
  "foldName [] = []"
| "foldName (c # s) =
     (if between 97 122 c then char_of (code c - 32) # foldName s
      else if take 3 (c # s) = [CHR 0xE2, CHR 0x84, CHR 0xAA] then CHR ''K'' # foldName (drop 2 s)
      else if take 2 (c # s) = [CHR 0xC5, CHR 0xBF] then CHR ''S'' # foldName (drop 1 s)
      else c # foldName s)"

definition lookupField :: "(string \<times> 'f) list \<Rightarrow> string \<Rightarrow> 'f option" where
  "lookupField fs key =
     (case map_of fs key of
        Some f \<Rightarrow> Some f
      | None \<Rightarrow> map_of (map (\<lambda>(k, f). (foldName k, f)) fs) (foldName key))"

type_synonym 'r fields = "(string \<times> 'r decoder) list"

primrec decMembers :: "'r fields \<Rightarrow> (bytes \<times> bytes) list \<Rightarrow> 'r \<Rightarrow> 'r option" where
  "decMembers fs [] r = Some r"
| "decMembers fs (m # ms) r =
     (case unquote (fst m) of
        None \<Rightarrow> None
      | Some key \<Rightarrow>
          (case lookupField fs key of
             None \<Rightarrow> decMembers fs ms r
           | Some dec \<Rightarrow>
               (case dec (snd m) r of None \<Rightarrow> None | Some r' \<Rightarrow> decMembers fs ms r')))"

definition objectMembers :: "bytes \<Rightarrow> (bytes \<times> bytes) list option" where
  "objectMembers raw =
     (if take 1 raw = ''{''
      then map_option fst (bracketed (member (skipValue maxNestingDepth)) (CHR ''}'') (drop 1 raw))
      else None)"

definition decStruct :: "'r fields \<Rightarrow> 'r decoder" where
  "decStruct fs raw old =
     (if isNull raw then Some old
      else (case objectMembers raw of None \<Rightarrow> None | Some ms \<Rightarrow> decMembers fs ms old))"

text \<open>A field of a struct: the decoder of its type, how the field is read and how it is set.\<close>

definition fieldDec :: "'a decoder \<Rightarrow> ('r \<Rightarrow> 'a) \<Rightarrow> ('a \<Rightarrow> 'r \<Rightarrow> 'r) \<Rightarrow> 'r decoder" where
  "fieldDec dec get put raw r = map_option (\<lambda>v. put v r) (dec raw (get r))"

definition unmarshal :: "'a decoder \<Rightarrow> 'a \<Rightarrow> bytes \<Rightarrow> 'a option" where
  "unmarshal dec old s =
     (let v = skipWS s in
      case skipValue maxNestingDepth v of
        None \<Rightarrow> None
      | Some r \<Rightarrow> if skipWS r = [] then dec (consumed v r) old else None)"

section \<open>Printing\<close>

definition jsonBool :: "bool \<Rightarrow> bytes" where
  "jsonBool b = (if b then ''true'' else ''false'')"

definition jsonMember :: "string \<times> bytes \<Rightarrow> bytes" where
  "jsonMember m = jsonQuote (fst m) @ '':'' @ snd m"

definition jsonObj :: "(string \<times> bytes) list \<Rightarrow> bytes" where
  "jsonObj ms = ''{'' @ joinWith (CHR '','') (map jsonMember ms) @ ''}''"

definition jsonArr :: "bytes list \<Rightarrow> bytes" where
  "jsonArr vs = ''['' @ joinWith (CHR '','') vs @ '']''"

text \<open>\<^verbatim>\<open>omitempty\<close>\<close>

definition omitIf :: "bool \<Rightarrow> string \<times> bytes \<Rightarrow> (string \<times> bytes) list" where
  "omitIf e m = (if e then [] else [m])"

section \<open>What follows a value does not change how it is scanned\<close>

text \<open>What may follow without prolonging a number.\<close>

definition stops :: "bytes \<Rightarrow> bool" where
  "stops t = (case t of [] \<Rightarrow> True | c # _ \<Rightarrow> \<not> isDigit c \<and> c \<notin> set ''.eE+-'')"

definition stable :: "(bytes \<Rightarrow> bytes option) \<Rightarrow> bool" where
  "stable p = (\<forall>s r t. p s = Some r \<longrightarrow> r \<noteq> [] \<or> stops t \<longrightarrow> p (s @ t) = Some (r @ t))"

definition stableItem :: "(bytes \<Rightarrow> ('a \<times> bytes) option) \<Rightarrow> bool" where
  "stableItem item = (\<forall>s x r t. item s = Some (x, r) \<longrightarrow> r \<noteq> [] \<longrightarrow> item (s @ t) = Some (x, r @ t))"

lemma skipWS_append: "skipWS s \<noteq> [] \<Longrightarrow> skipWS (s @ t) = skipWS s @ t"
  by (induction s) (auto simp: skipWS_def)

lemma dropWhile_stops: "r = dropWhile isDigit s \<Longrightarrow> r \<noteq> [] \<or> stops t \<Longrightarrow> dropWhile isDigit (s @ t) = r @ t"
proof (induction s)
  case Nil
  then show ?case by (cases t) (auto simp: stops_def)
qed auto

lemma scanExp_stable: "scanExp s = Some r \<Longrightarrow> r \<noteq> [] \<or> stops t \<Longrightarrow> scanExp (s @ t) = Some (r @ t)"
  by (auto simp: scanExp_def stops_def Let_def dropWhile_stops split: list.splits if_splits)

lemma scan_stops: "stops t \<Longrightarrow> scanExp t = Some t" "stops t \<Longrightarrow> scanFrac t = Some t"
  by (cases t; simp add: stops_def scanFrac_def scanExp_def)+

lemma scanExp_digits:
  assumes "scanExp (dropWhile isDigit s) = Some r" and "r \<noteq> [] \<or> stops t"
  shows "scanExp (dropWhile isDigit (s @ t)) = Some (r @ t)"
proof -
  have "dropWhile isDigit s \<noteq> [] \<or> stops t"
    using assms scan_stops(1)[of "[]"] by (cases "dropWhile isDigit s = []") (auto simp: stops_def)
  then show ?thesis using dropWhile_stops[OF refl] scanExp_stable[OF assms] by simp
qed

lemma scanFrac_stable:
  assumes "scanFrac s = Some r" and "r \<noteq> [] \<or> stops t"
  shows "scanFrac (s @ t) = Some (r @ t)"
proof (cases s)
  case Nil
  then show ?thesis using assms scan_stops(2)[of "[]"] scan_stops(2)[of t] by (auto simp: stops_def)
next
  case (Cons e s')
  show ?thesis
  proof (cases "e = CHR ''.''")
    case True
    then show ?thesis
      using assms Cons by (cases s') (auto simp: scanFrac_def scanExp_digits split: if_splits)
  next
    case False
    then show ?thesis using assms Cons scanExp_stable[of s r t] by (simp add: scanFrac_def)
  qed
qed

lemma scanFrac_digits:
  assumes "scanFrac (dropWhile isDigit s) = Some r" and "r \<noteq> [] \<or> stops t"
  shows "scanFrac (dropWhile isDigit (s @ t)) = Some (r @ t)"
proof -
  have "dropWhile isDigit s \<noteq> [] \<or> stops t"
    using assms scan_stops(2)[of "[]"] by (cases "dropWhile isDigit s = []") (auto simp: stops_def)
  then show ?thesis using dropWhile_stops[OF refl] scanFrac_stable[OF assms] by simp
qed

lemma scanNum_stable: "scanNum s = Some r \<Longrightarrow> r \<noteq> [] \<or> stops t \<Longrightarrow> scanNum (s @ t) = Some (r @ t)"
  by (auto simp: scanNum_def Let_def scanFrac_stable scanFrac_digits split: list.splits if_splits)

lemma scanLit_append: "scanLit lit s = Some r \<Longrightarrow> scanLit lit (s @ t) = Some (r @ t)"
proof -
  assume "scanLit lit s = Some r"
  then have l: "take (length lit) s = lit" "r = drop (length lit) s" by (auto simp: scanLit_def split: if_splits)
  then have "length lit \<le> length s" by (metis length_take min.cobounded1 min.absorb_iff2)
  with l show ?thesis by (simp add: scanLit_def)
qed

lemma scalar_stable: "stable scalar"
  unfolding stable_def
proof (intro allI impI)
  fix s r t
  assume "scalar s = Some r" and "r \<noteq> [] \<or> stops t"
  then show "scalar (s @ t) = Some (r @ t)"
    using scanNum_stable[of s r t] scanLit_append[of _ s r t]
    by (cases s) (auto simp: scalar_def scanStr_append split: if_splits)
qed

text \<open>Scanners never add to what is left.\<close>

definition shrinks :: "(bytes \<Rightarrow> bytes option) \<Rightarrow> bool" where
  "shrinks p = (\<forall>s r. p s = Some r \<longrightarrow> length r \<le> length s)"

definition shrinksItem :: "(bytes \<Rightarrow> ('a \<times> bytes) option) \<Rightarrow> bool" where
  "shrinksItem item = (\<forall>s x r. item s = Some (x, r) \<longrightarrow> length r \<le> length s)"

lemma consumed_append: "length r \<le> length s \<Longrightarrow> consumed (s @ t) (r @ t) = consumed s r"
  by (simp add: consumed_def)

lemma length_skipWS: "length (skipWS s) \<le> length s"
  by (simp add: skipWS_def length_dropWhile_le)

lemma length_skipWS_Cons: "skipWS s = c # r \<Longrightarrow> length r < length s"
  using length_skipWS[of s] by simp

lemma scanStr_shrinks: "scanStr s = Some r \<Longrightarrow> length r \<le> length s"
proof (induction s rule: scanStr.induct)
  case (2 c s)
  then show ?case by (fastforce simp: scanStr.simps(2) split: if_splits list.splits)
qed simp

lemma scanExp_shrinks: "scanExp s = Some r \<Longrightarrow> length r \<le> length s"
  using length_dropWhile_le[of isDigit]
  by (auto simp: scanExp_def Let_def le_Suc_eq split: list.splits if_splits intro: le_trans)

lemma scanFrac_shrinks: "scanFrac s = Some r \<Longrightarrow> length r \<le> length s"
  using length_dropWhile_le[of isDigit]
  by (auto simp: scanFrac_def split: list.splits if_splits dest!: scanExp_shrinks intro: le_trans le_SucI)

lemma scanNum_shrinks: "scanNum s = Some r \<Longrightarrow> length r \<le> length s"
  using length_dropWhile_le[of isDigit]
  by (auto simp: scanNum_def Let_def split: list.splits if_splits dest!: scanFrac_shrinks intro: le_trans le_SucI)

lemma shrinksD: "shrinks p \<Longrightarrow> p s = Some r \<Longrightarrow> length r \<le> length s"
  by (simp add: shrinks_def)

lemma shrinksItemD: "shrinksItem item \<Longrightarrow> item s = Some (x, r) \<Longrightarrow> length r \<le> length s"
  by (simp add: shrinksItem_def)

lemma scalar_shrinks: "shrinks scalar"
proof -
  have "length r \<le> length s" if "scalar s = Some r" for s r
    using that scanStr_shrinks[of "tl s" r] scanNum_shrinks[of s r]
    by (cases s) (auto simp: scalar_def scanLit_def le_SucI split: if_splits)
  then show ?thesis by (simp add: shrinks_def)
qed

text \<open>What an element or a member is made of.\<close>

lemma elementE:
  assumes "element p s = Some (v, r)"
  obtains r0 where "p (skipWS s) = Some r0" "v = consumed (skipWS s) r0" "r = skipWS r0"
  using assms by (auto simp: element_def Let_def)

lemma memberE:
  assumes "member p s = Some ((k, v), r)"
  obtains s1 r1 r2 where "skipWS s = dquote # s1" "scanStr s1 = Some r1" "skipWS r1 = CHR '':'' # r2"
    "k = butlast (consumed s1 r1)" "element p r2 = Some (v, r)"
  using assms by (auto simp: member_def split: list.splits if_splits option.splits)

lemma element_shrinks: "shrinks p \<Longrightarrow> shrinksItem (element p)"
  unfolding shrinksItem_def
  by (metis elementE length_skipWS le_trans shrinksD)

lemma member_shrinks:
  assumes "shrinks p"
  shows "shrinksItem (member p)"
proof -
  have "length r \<le> length s" if "member p s = Some ((k, v), r)" for s k v r
  proof (rule memberE[OF that])
    fix s1 r1 r2
    assume "skipWS s = dquote # s1" "scanStr s1 = Some r1" "skipWS r1 = CHR '':'' # r2" "element p r2 = Some (v, r)"
    then have "length s1 < length s" "length r1 \<le> length s1" "length r2 < length r1" "length r \<le> length r2"
      using length_skipWS_Cons scanStr_shrinks shrinksItemD[OF element_shrinks[OF assms]] by blast+
    then show ?thesis by linarith
  qed
  then show ?thesis by (auto simp: shrinksItem_def)
qed

lemma sepLoopE:
  assumes "sepLoop item close s = Some (xs, r)"
  obtains (last) x where "item s = Some (x, close # r)" "xs = [x]"
  | (more) x r' ys where "item s = Some (x, CHR '','' # r')" "CHR '','' \<noteq> close" "length r' < length s"
      "sepLoop item close r' = Some (ys, r)" "xs = x # ys"
  using assms by (subst (asm) sepLoop.simps) (auto split: option.splits list.splits if_splits)

lemma sepLoop_shrinks:
  "sepLoop item close s = Some (xs, r) \<Longrightarrow> shrinksItem item \<Longrightarrow> length r < length s"
proof (induction "length s" arbitrary: s xs rule: less_induct)
  case less
  from less.prems(1) show ?case
  proof (cases rule: sepLoopE)
    case (last x)
    then show ?thesis using shrinksItemD[OF less.prems(2)] by fastforce
  next
    case (more x r' ys)
    then show ?thesis using less.hyps[of r' ys] less.prems(2) by simp
  qed
qed

lemma bracketed_shrinks:
  "bracketed item close s = Some (xs, r) \<Longrightarrow> shrinksItem item \<Longrightarrow> length r \<le> length s"
  using sepLoop_shrinks[of item close "skipWS s" xs r] length_skipWS[of s]
  by (auto simp: bracketed_def split: list.splits if_splits)

lemma skipValue_shrinks: "shrinks (skipValue d)"
proof (induction d)
  case 0
  then show ?case using scalar_shrinks by (simp add: shrinks_def skipValue.simps)
next
  case (Suc d)
  note g = bracketed_shrinks[OF _ member_shrinks[OF Suc]] bracketed_shrinks[OF _ element_shrinks[OF Suc]]
  have "length r \<le> length s" if "skipValue (Suc d) s = Some r" for s r
    using that shrinksD[OF scalar_shrinks, of s r]
    by (cases s) (auto simp: skipValue.simps split: if_splits dest!: g)
  then show ?case by (simp add: shrinks_def)
qed

section \<open>The scanners ignore what follows\<close>

lemma element_stable:
  assumes "stable p" and "shrinks p"
  shows "stableItem (element p)"
proof -
  have "element p (s @ t) = Some (v, r @ t)" if "element p s = Some (v, r)" and r: "r \<noteq> []" for s v r t
  proof (rule elementE[OF that(1)])
    fix r0
    assume p: "p (skipWS s) = Some r0" and v: "v = consumed (skipWS s) r0" and "r = skipWS r0"
    then have r0: "skipWS (r0 @ t) = r @ t" "r0 \<noteq> []" using r skipWS_append by (auto simp: skipWS_def)
    have "length r0 \<le> length (skipWS s)" using shrinksD[OF assms(2) p] .
    then have "skipWS (s @ t) = skipWS s @ t" using r0(2) by (intro skipWS_append) auto
    moreover have "p (skipWS s @ t) = Some (r0 @ t)"
      using assms(1) p r0(2) by (simp add: stable_def)
    ultimately show ?thesis
      using r0(1) v consumed_append[OF \<open>length r0 \<le> length (skipWS s)\<close>] by (simp add: element_def)
  qed
  then show ?thesis by (auto simp: stableItem_def)
qed

lemma member_stable:
  assumes "stable p" and "shrinks p"
  shows "stableItem (member p)"
proof -
  have "member p (s @ t) = Some ((k, v), r @ t)" if "member p s = Some ((k, v), r)" and r: "r \<noteq> []" for s k v r t
  proof (rule memberE[OF that(1)])
    fix s1 r1 r2
    assume s1: "skipWS s = dquote # s1" and r1: "scanStr s1 = Some r1" and r2: "skipWS r1 = CHR '':'' # r2"
      and k: "k = butlast (consumed s1 r1)" and e: "element p r2 = Some (v, r)"
    have "element p (r2 @ t) = Some (v, r @ t)"
      using element_stable[OF assms] e r by (simp add: stableItem_def)
    moreover have "skipWS (s @ t) = dquote # s1 @ t" "skipWS (r1 @ t) = CHR '':'' # r2 @ t"
      using skipWS_append[of s t] skipWS_append[of r1 t] s1 r2 by simp_all
    ultimately show ?thesis
      using scanStr_append[OF r1, of t] k consumed_append[OF scanStr_shrinks[OF r1], of t]
      by (simp add: member_def)
  qed
  then show ?thesis by (auto simp: stableItem_def)
qed

lemma sepLoop_append:
  "sepLoop item close s = Some (xs, r) \<Longrightarrow> stableItem item \<Longrightarrow> sepLoop item close (s @ t) = Some (xs, r @ t)"
proof (induction "length s" arbitrary: s xs rule: less_induct)
  case less
  have st: "item (s @ t) = Some (x, u @ t)" if "item s = Some (x, u)" "u \<noteq> []" for x u
    using less.prems(2) that by (simp add: stableItem_def)
  from less.prems(1) show ?case
  proof (cases rule: sepLoopE)
    case (last x)
    then show ?thesis using st[of x "close # r"] by (subst sepLoop.simps) simp
  next
    case (more x r' ys)
    then show ?thesis
      using st[of x "CHR '','' # r'"] less.hyps[of r' ys] less.prems(2) by (subst sepLoop.simps) simp
  qed
qed

lemma bracketed_append:
  assumes "bracketed item close s = Some (xs, r)" and "stableItem item"
  shows "bracketed item close (s @ t) = Some (xs, r @ t)"
proof -
  obtain c r' where s: "skipWS s = c # r'" using assms(1) by (cases "skipWS s") (auto simp: bracketed_def)
  then have "skipWS (s @ t) = c # r' @ t" using skipWS_append[of s t] by simp
  then show ?thesis
    using assms s sepLoop_append[of item close "skipWS s" xs r t] by (auto simp: bracketed_def split: if_splits)
qed

lemma skipValue_stable: "stable (skipValue d)"
proof (induction d)
  case 0
  then show ?case using scalar_stable by (simp add: stable_def skipValue.simps)
next
  case (Suc d)
  note items = member_stable[OF Suc skipValue_shrinks] element_stable[OF Suc skipValue_shrinks]
  have "skipValue (Suc d) (s @ t) = Some (r @ t)"
    if "skipValue (Suc d) s = Some r" and "r \<noteq> [] \<or> stops t" for s r t
  proof (cases s)
    case Nil
    then show ?thesis using that(1) by (simp add: skipValue.simps)
  next
    case (Cons c s')
    have "scalar (s @ t) = Some (r @ t)" if "scalar s = Some r"
      using scalar_stable that \<open>r \<noteq> [] \<or> stops t\<close> by (simp add: stable_def)
    then show ?thesis
      using that(1) Cons
      by (auto simp: skipValue.simps bracketed_append[OF _ items(1)] bracketed_append[OF _ items(2)] split: if_splits)
  qed
  then show ?case by (simp add: stable_def)
qed

section \<open>Printed values are scanned back\<close>

text \<open>A whole value, with nothing around it and arrays and objects at most \<open>d\<close> deep.\<close>

definition isValue :: "nat \<Rightarrow> bytes \<Rightarrow> bool" where
  "isValue d v = (skipValue d v = Some [])"

lemma skipValue_scalar: "s = c # r \<Longrightarrow> c \<noteq> CHR ''{'' \<Longrightarrow> c \<noteq> CHR ''['' \<Longrightarrow> skipValue d s = scalar s"
  by (cases d) (simp_all add: skipValue.simps)

lemma isValue_skip: "isValue d v \<Longrightarrow> stops t \<Longrightarrow> skipValue d (v @ t) = Some t"
  using skipValue_stable[of d] by (fastforce simp: isValue_def stable_def)

lemma isSpace_heads: "isSpace c \<Longrightarrow> c \<noteq> dquote \<and> c \<noteq> CHR ''-'' \<and> \<not> isDigit c \<and> c \<notin> set ''tfn{[''"
  by (auto simp: isSpace_def special_iff isDigit_def less_eq_char_def)

lemma scalar_head: "scalar v = Some r \<Longrightarrow> v \<noteq> [] \<and> \<not> isSpace (hd v)"
  using isSpace_heads by (fastforce simp: scalar_def split: list.splits if_splits)

lemma isValue_head: "isValue d v \<Longrightarrow> v \<noteq> [] \<and> \<not> isSpace (hd v)"
  using scalar_head[of v "[]"] isSpace_heads
  by (cases d; cases v) (fastforce simp: isValue_def skipValue.simps scalar_def split: if_splits)+

lemma skipWS_value: "isValue d v \<Longrightarrow> skipWS (v @ t) = v @ t"
  using isValue_head[of d v] by (cases v) (auto simp: skipWS_def)

lemma skipWS_Cons: "\<not> isSpace c \<Longrightarrow> skipWS (c # s) = c # s"
  by (simp add: skipWS_def)

lemma not_space: "\<not> isSpace dquote" "\<not> isSpace (CHR '','')" "\<not> isSpace (CHR '':'')" "\<not> isSpace (CHR ''}'')"
  "\<not> isSpace (CHR '']'')" "\<not> isSpace (CHR ''{'')" "\<not> isSpace (CHR ''['')"
  by (simp_all add: isSpace_def dquote_def)

lemma element_print:
  assumes "isValue d v" and "c \<in> set '',]}''"
  shows "element (skipValue d) (v @ c # t) = Some (v, c # t)"
proof -
  have "stops (c # t)" "\<not> isSpace c" using assms(2) by (auto simp: stops_def isDigit_def less_eq_char_def isSpace_def)
  then show ?thesis
    using isValue_skip[OF assms(1), of "c # t"] skipWS_value[OF assms(1), of "c # t"]
    by (simp add: element_def consumed_def skipWS_Cons)
qed

lemma member_print:
  assumes "isValue d v" and "c \<in> set '',]}''"
  shows "member (skipValue d) (jsonMember (k, v) @ c # t) = Some ((escapeBody k, v), c # t)"
proof -
  have "scanStr (escapeBody k @ dquote # CHR '':'' # v @ c # t) = Some (CHR '':'' # v @ c # t)"
    by (rule scanStr_escapeBody)
  then show ?thesis
    using element_print[OF assms]
    by (simp add: member_def jsonMember_def jsonQuote_def skipWS_Cons not_space consumed_def)
qed

lemma sepLoop_print:
  assumes "xs \<noteq> []" and "close \<in> set '']}''"
    and "\<And>x c t. x \<in> set xs \<Longrightarrow> c \<in> set '',]}'' \<Longrightarrow> item (pr x @ c # t) = Some (out x, c # t)"
  shows "sepLoop item close (joinWith (CHR '','') (map pr xs) @ close # t) = Some (map out xs, t)"
  using assms(1,3)
proof (induction xs)
  case (Cons x xs)
  note it = Cons.prems(2)[of x]
  show ?case
  proof (cases "xs = []")
    case True
    then show ?thesis using it[of close t] assms(2) by (subst sepLoop.simps) auto
  next
    case False
    have "CHR '','' \<noteq> close" using assms(2) by auto
    then show ?thesis
      using it[of "CHR '',''" "joinWith (CHR '','') (map pr xs) @ close # t"] Cons.IH[OF False] Cons.prems(2) False
      by (subst sepLoop.simps) (simp add: joinWith_Cons)
  qed
qed simp

lemma joinWith_head:
  assumes "xs \<noteq> []" and "\<And>x. x \<in> set xs \<Longrightarrow> pr x \<noteq> [] \<and> \<not> isSpace (hd (pr x)) \<and> hd (pr x) \<noteq> close"
  obtains c u where "joinWith (CHR '','') (map pr xs) @ t = c # u" "\<not> isSpace c" "c \<noteq> close"
proof -
  obtain x ys where xs: "xs = x # ys" using assms(1) by (cases xs) auto
  obtain c u where c: "pr x = c # u" "\<not> isSpace c" "c \<noteq> close" using assms(2)[of x] xs by (cases "pr x") auto
  then have "\<exists>u'. joinWith (CHR '','') (map pr xs) @ t = c # u'" by (cases ys) (auto simp: xs)
  then show ?thesis using that c by blast
qed

lemma bracketed_print:
  assumes "close \<in> set '']}''"
    and "\<And>x c t. x \<in> set xs \<Longrightarrow> c \<in> set '',]}'' \<Longrightarrow> item (pr x @ c # t) = Some (out x, c # t)"
    and "\<And>x. x \<in> set xs \<Longrightarrow> pr x \<noteq> [] \<and> \<not> isSpace (hd (pr x)) \<and> hd (pr x) \<noteq> close"
  shows "bracketed item close (joinWith (CHR '','') (map pr xs) @ close # t) = Some (map out xs, t)"
proof (cases "xs = []")
  case True
  have "\<not> isSpace close" using assms(1) by (auto simp: isSpace_def)
  then show ?thesis using True by (simp add: bracketed_def skipWS_Cons)
next
  case False
  obtain c u where "joinWith (CHR '','') (map pr xs) @ close # t = c # u" "\<not> isSpace c" "c \<noteq> close"
    by (rule joinWith_head[of xs pr close "close # t", OF False assms(3)])
  then show ?thesis
    using sepLoop_print[where item = item and pr = pr and out = out, OF False assms(1,2), of t] by (simp add: bracketed_def skipWS_Cons)
qed

lemma bracketed_members:
  assumes "\<forall>m \<in> set ms. isValue d (snd m)"
  shows "bracketed (member (skipValue d)) (CHR ''}'') (joinWith (CHR '','') (map jsonMember ms) @ CHR ''}'' # t) =
    Some (map (map_prod escapeBody id) ms, t)"
proof (rule bracketed_print)
  fix m c t
  assume "m \<in> set ms" and "c \<in> set '',]}''"
  then show "member (skipValue d) (jsonMember m @ c # t) = Some (map_prod escapeBody id m, c # t)"
    using member_print[of d "snd m" c "fst m" t] assms by (simp add: prod_eq_iff map_prod_def split: prod.split)
qed (auto simp: jsonMember_def jsonQuote_def not_space dquote_def isSpace_def)

lemma bracketed_elements:
  assumes "\<forall>v \<in> set vs. isValue d v"
  shows "bracketed (element (skipValue d)) (CHR '']'') (joinWith (CHR '','') vs @ CHR '']'' # t) = Some (vs, t)"
proof -
  have "hd v \<noteq> CHR '']''" if "isValue d v" for v
    using that by (cases d; cases v) (auto simp: isValue_def skipValue.simps scalar_def isDigit_def less_eq_char_def special_iff)
  then have "bracketed (element (skipValue d)) (CHR '']'') (joinWith (CHR '','') (map id vs) @ CHR '']'' # t) = Some (map id vs, t)"
    using assms isValue_head by (intro bracketed_print) (auto simp: element_print)
  then show ?thesis by simp
qed

lemma isValue_jsonObj: "\<forall>m \<in> set ms. isValue d (snd m) \<Longrightarrow> isValue (Suc d) (jsonObj ms)"
  using bracketed_members[of ms d "[]"] by (simp add: isValue_def jsonObj_def skipValue.simps)

lemma isValue_jsonArr: "\<forall>v \<in> set vs. isValue d v \<Longrightarrow> isValue (Suc d) (jsonArr vs)"
  using bracketed_elements[of vs d "[]"] by (simp add: isValue_def jsonArr_def skipValue.simps)

lemma isValue_jsonQuote [simp]: "isValue d (jsonQuote s)"
  using scanStr_escapeBody[of s "[]"] skipValue_scalar[of "jsonQuote s" dquote "escapeBody s @ [dquote]" d]
  by (simp add: isValue_def jsonQuote_def scalar_def dquote_def)

lemma isValue_jsonBool [simp]: "isValue d (jsonBool b)"
  by (cases b; cases d) (simp_all add: isValue_def jsonBool_def skipValue.simps scalar_def scanLit_def special_iff isDigit_def less_eq_char_def)

lemma isValue_null [simp]: "isValue d ''null''"
  by (cases d) (simp_all add: isValue_def skipValue.simps scalar_def scanLit_def special_iff isDigit_def less_eq_char_def)

text \<open>Decimal numbers.\<close>

lemma isDigit_digits: "c \<in> set digits \<Longrightarrow> isDigit c"
  by (auto simp: digits_def isDigit_def less_eq_char_def)

lemma list_all_showNat: "list_all isDigit (showNat n)"
  using set_showNat[of n] isDigit_digits by (auto simp: list_all_iff)

lemma showNat_head: "\<exists>c cs. showNat n = c # cs \<and> isDigit c \<and> (c = CHR ''0'' \<longrightarrow> cs = [])"
proof (induction n rule: showNat.induct)
  case (1 n)
  show ?case
  proof (cases "n < 10")
    case True
    have "list_all (\<lambda>k. isDigit (char_of (48 + k))) [0 ..< 10]" by code_simp
    then show ?thesis using True by (subst showNat.simps) (simp add: list_all_iff)
  next
    case False
    then obtain c cs where c: "showNat (n div 10) = c # cs" "isDigit c" "c = CHR ''0'' \<longrightarrow> cs = []"
      using 1 by blast
    have "n div 10 \<noteq> 0" using False by simp
    moreover have "showNat 0 = ''0''" by (simp add: showNat.simps char_of_eq_iff)
    ultimately have "c \<noteq> CHR ''0''" using c showNat_inject[of "n div 10" 0] by metis
    then show ?thesis using c False by (subst showNat.simps) auto
  qed
qed

lemma scanNum_showNat: "scanNum (showNat n) = Some []"
proof -
  obtain c cs where c: "showNat n = c # cs" "isDigit c" "c = CHR ''0'' \<longrightarrow> cs = []"
    using showNat_head by blast
  have "dropWhile isDigit cs = []" using list_all_showNat[of n] c by (simp add: list_all_iff)
  moreover have "c \<noteq> CHR ''-''" using c(2) isDigit_neq by auto
  ultimately show ?thesis using c by (auto simp: scanNum_def scanFrac_def simp del: dropWhile_eq_Nil_conv)
qed

lemma isValue_showNat [simp]: "isValue d (showNat n)"
proof -
  obtain c cs where c: "showNat n = c # cs" "isDigit c" using showNat_head by blast
  then have "c \<noteq> dquote" "c \<noteq> CHR ''{''" "c \<noteq> CHR ''[''"
    by (auto simp: isDigit_def less_eq_char_def special_iff)
  then show ?thesis
    using c scanNum_showNat[of n] skipValue_scalar[OF c(1), of d] by (simp add: isValue_def scalar_def)
qed

lemma isValue_showInt [simp]: "isValue d (showInt i)"
proof (cases "i < 0")
  case True
  obtain c cs where c: "showNat (nat (- i)) = c # cs" "isDigit c" using showNat_head by blast
  then have n: "scanNum (CHR ''-'' # c # cs) = scanNum (c # cs)"
    using isDigit_neq by (auto simp: scanNum_def)
  have "scanNum (c # cs) = Some []" using scanNum_showNat[of "nat (- i)"] c by simp
  then show ?thesis
    using True c(1) n skipValue_scalar[of "CHR ''-'' # c # cs" _ _ d]
    by (simp add: isValue_def scalar_def showInt_def special_iff)
qed (simp add: showInt_def)

lemma decimal_showNat: "decimal (showNat n) = int n"
proof (induction n rule: showNat.induct)
  case (1 n)
  show ?case
  proof (cases "n < 10")
    case True
    then show ?thesis by (subst showNat.simps) (simp add: decimal_def digitVal_def)
  next
    case False
    have "digitVal (char_of (48 + n mod 10)) = int (n mod 10)" by (simp add: digitVal_def)
    moreover have "int n = 10 * int (n div 10) + int (n mod 10)"
      by (metis mult_div_mod_eq of_nat_add of_nat_mult of_nat_numeral)
    ultimately show ?thesis using 1[OF False] False by (subst showNat.simps) (simp add: decimal_def)
  qed
qed

lemma unsigned_showNat: "unsigned (showNat n) = Some (int n)"
  using showNat_head[of n] by (auto simp: unsigned_def decimal_showNat list_all_showNat)

lemma atoi_showInt: "- (2 ^ 63) \<le> i \<Longrightarrow> i < 2 ^ 63 \<Longrightarrow> atoi (showInt i) = Some i"
proof -
  assume i: "- (2 ^ 63) \<le> i" "i < 2 ^ 63"
  obtain c cs where c: "showNat (nat i) = c # cs" "isDigit c" using showNat_head by blast
  then have "c \<noteq> CHR ''-''" "c \<noteq> CHR ''+''" using isDigit_neq by auto
  then show ?thesis
    using i c unsigned_showNat[of "nat i"] unsigned_showNat[of "nat (- i)"]
    by (auto simp: atoi_def showInt_def)
qed

text \<open>A deeper limit accepts what a smaller one accepts.\<close>

definition weaker :: "('a \<Rightarrow> 'b option) \<Rightarrow> ('a \<Rightarrow> 'b option) \<Rightarrow> bool" where
  "weaker f g = (\<forall>s r. f s = Some r \<longrightarrow> g s = Some r)"

lemma weaker_element: "weaker p q \<Longrightarrow> weaker (element p) (element q)"
  by (auto simp: weaker_def element_def Let_def)

lemma weaker_member: "weaker p q \<Longrightarrow> weaker (member p) (member q)"
  using weaker_element[of p q]
  by (auto simp: weaker_def member_def split: list.splits option.splits)

lemma sepLoop_weaker: "sepLoop item close s = Some r \<Longrightarrow> weaker item item' \<Longrightarrow> sepLoop item' close s = Some r"
proof (induction "length s" arbitrary: s r rule: less_induct)
  case less
  obtain xs t where r: "r = (xs, t)" by fastforce
  have "sepLoop item close s = Some (xs, t)" using less.prems(1) r by simp
  then show ?case
  proof (cases rule: sepLoopE)
    case (last x)
    then show ?thesis using less.prems(2) r by (subst sepLoop.simps) (simp add: weaker_def)
  next
    case (more x r' ys)
    then have "item' s = Some (x, CHR '','' # r')" using less.prems(2) by (simp add: weaker_def)
    then show ?thesis
      using more less.hyps[of r' "(ys, t)"] less.prems(2) r by (subst sepLoop.simps) simp
  qed
qed

lemma weaker_bracketed: "weaker item item' \<Longrightarrow> weaker (bracketed item close) (bracketed item' close)"
  using sepLoop_weaker[of item close _ _ item']
  by (auto simp: weaker_def bracketed_def split: list.splits if_splits)

lemma digit_head: "isDigit c \<Longrightarrow> c \<noteq> CHR ''{'' \<and> c \<noteq> CHR ''[''"
  by (auto simp: isDigit_def less_eq_char_def)

lemma skipValue_Suc: "weaker (skipValue d) (skipValue (Suc d))"
proof (induction d)
  case 0
  have "skipValue (Suc 0) s = Some r" if sc: "scalar s = Some r" for s r
  proof -
    obtain c cs where "s = c # cs" "c \<noteq> CHR ''{''" "c \<noteq> CHR ''[''"
      using sc digit_head by (cases s) (auto simp: scalar_def dquote_def split: if_splits)
    then show ?thesis using sc skipValue_scalar by metis
  qed
  then show ?case by (simp add: weaker_def skipValue.simps(1))
next
  case (Suc d)
  note g = weaker_bracketed[OF weaker_member[OF Suc]] weaker_bracketed[OF weaker_element[OF Suc]]
  have m: "map_option snd (bracketed (member (skipValue (Suc d))) close s) = Some r"
    if "map_option snd (bracketed (member (skipValue d)) close s) = Some r" for close s r
    using that g(1) by (auto simp: weaker_def)
  have e: "map_option snd (bracketed (element (skipValue (Suc d))) close s) = Some r"
    if "map_option snd (bracketed (element (skipValue d)) close s) = Some r" for close s r
    using that g(2) by (auto simp: weaker_def)
  have "skipValue (Suc (Suc d)) s = Some r" if sv: "skipValue (Suc d) s = Some r" for s r
  proof (cases s)
    case (Cons c s')
    then show ?thesis
      using sv unfolding skipValue.simps(2)[of "Suc d" s] skipValue.simps(2)[of d s]
      by (simp add: m e del: map_option_eq_Some split: if_splits)
  qed (use sv in \<open>simp add: skipValue.simps(2)\<close>)
  then show ?case by (simp add: weaker_def)
qed

lemma isValue_mono: "d \<le> e \<Longrightarrow> isValue d v \<Longrightarrow> isValue e v"
proof (induction e rule: dec_induct)
  case (step n)
  then show ?case using skipValue_Suc[of n] by (simp add: isValue_def weaker_def)
qed

text \<open>Decoding a printed object runs over its members in order.\<close>

lemma objectMembers_jsonObj:
  assumes "\<forall>m \<in> set ms. isValue maxNestingDepth (snd m)"
  shows "objectMembers (jsonObj ms) = Some (map (map_prod escapeBody id) ms)"
  using bracketed_members[OF assms, of "[]"] by (simp add: objectMembers_def jsonObj_def)

lemma decStruct_jsonObj:
  assumes "\<forall>m \<in> set ms. isValue maxNestingDepth (snd m)"
  shows "decStruct fs (jsonObj ms) old = decMembers fs (map (map_prod escapeBody id) ms) old"
proof -
  have "\<not> isNull (jsonObj ms)" by (simp add: isNull_def jsonObj_def)
  then show ?thesis using objectMembers_jsonObj[OF assms] by (simp add: decStruct_def)
qed

lemma decMembers_append:
  "decMembers fs (ms @ ns) r = (case decMembers fs ms r of None \<Rightarrow> None | Some r' \<Rightarrow> decMembers fs ns r')"
  by (induction ms arbitrary: r) (auto split: option.splits)

lemma unmarshal_value: "isValue maxNestingDepth v \<Longrightarrow> unmarshal dec old v = dec v old"
  using skipWS_value[of maxNestingDepth v "[]"]
  by (simp add: unmarshal_def isValue_def consumed_def) (simp add: skipWS_def)

lemma decString_jsonQuote [simp]: "validUTF8 s \<Longrightarrow> decString (jsonQuote s) old = Some s"
  by (simp add: decString_def jsonQuote_def isNull_def dquote_def)

lemma decBool_jsonBool [simp]: "decBool (jsonBool b) old = Some b"
  by (simp add: decBool_def jsonBool_def isNull_def)

lemma not_null_number: "c = CHR ''-'' \<or> isDigit c \<Longrightarrow> \<not> isNull (c # cs)"
  by (auto simp: isNull_def isDigit_def less_eq_char_def)

lemma decInt_showInt [simp]: "- (2 ^ 63) \<le> i \<Longrightarrow> i < 2 ^ 63 \<Longrightarrow> decInt (showInt i) old = Some i"
proof -
  assume i: "- (2 ^ 63) \<le> i" "i < 2 ^ 63"
  obtain c cs where "showInt i = c # cs" "c = CHR ''-'' \<or> isDigit c"
    using showNat_head[of "nat i"] by (cases "i < 0") (auto simp: showInt_def)
  then show ?thesis using atoi_showInt[OF i] not_null_number by (simp add: decInt_def)
qed

lemma decUint32_showNat [simp]: "decUint32 (showNat (unat w)) old = Some w"
proof -
  obtain c cs where "showNat (unat w) = c # cs" "isDigit c" using showNat_head[of "unat w"] by blast
  then have "\<not> isNull (showNat (unat w))" using not_null_number by simp
  moreover have "int (unat w) < 2 ^ 32" using unsigned_less[of w] by (simp flip: of_nat_less_iff)
  ultimately show ?thesis by (simp add: decUint32_def unsigned_showNat)
qed

lemma decRaw_simp [simp]: "decRaw v old = Some v"
  by (simp add: decRaw_def)

section \<open>Printed values are compact\<close>

definition tight :: "bytes \<Rightarrow> bool" where
  "tight v = (\<forall>t. compactText False (v @ t) = v @ compactText False t)"

lemma tight_append: "tight u \<Longrightarrow> tight v \<Longrightarrow> tight (u @ v)"
  by (simp add: tight_def)

lemma tight_Nil: "tight []"
  by (simp add: tight_def)

lemma tight_plain: "list_all (\<lambda>c. \<not> isSpace c \<and> c \<noteq> dquote) v \<Longrightarrow> tight v"
  by (induction v) (auto simp: tight_def)

lemma compact_plain:
  "c \<noteq> dquote \<Longrightarrow> c \<noteq> bslash \<Longrightarrow> c \<notin> set htmlChars \<Longrightarrow> c \<noteq> CHR 0xE2 \<Longrightarrow>
     compactText True (c # t) = c # compactText True t"
  by (simp add: lineSep_def parSep_def)

lemma compact_plains:
  "list_all (\<lambda>c. c \<noteq> dquote \<and> c \<noteq> bslash \<and> c \<notin> set htmlChars \<and> c \<noteq> CHR 0xE2) v \<Longrightarrow>
     compactText True (v @ t) = v @ compactText True t"
  by (induction v) (auto simp: compact_plain simp del: compactText.simps)

lemma compact_escU:
  "list_all (\<lambda>c. c \<noteq> dquote \<and> c \<noteq> bslash \<and> c \<notin> set htmlChars \<and> c \<noteq> CHR 0xE2) h \<Longrightarrow>
     compactText True (escU h @ t) = escU h @ compactText True t"
  by (simp add: escU_def special_codes compact_plains)

lemma hexLower_plain: "list_all (\<lambda>c. c \<noteq> dquote \<and> c \<noteq> bslash \<and> c \<notin> set htmlChars \<and> c \<noteq> CHR 0xE2) hexLower"
  by code_simp

lemma compact_escASCII:
  assumes "code c < 128"
  shows "compactText True (escASCII c @ t) = escASCII c @ compactText True t"
proof -
  let ?h = "[CHR ''0'', CHR ''0'', hexDigit (code c div 16), hexDigit (code c mod 16)]"
  have "hexDigit (code c div 16) \<in> set hexLower" "hexDigit (code c mod 16) \<in> set hexLower" "CHR ''0'' \<in> set hexLower"
    using assms by (simp_all add: hexDigit_mem less_mult_imp_div_less) (simp add: hexLower_def)
  then have u: "compactText True (escU ?h @ t) = escU ?h @ compactText True t"
    using hexLower_plain by (intro compact_escU) (simp add: list_all_iff)
  have e: "compactText True (bslash # x # t) = bslash # x # compactText True t" for x
    by (simp add: special_codes)
  have "c \<noteq> CHR 0xE2" using assms by auto
  then have "c \<noteq> dquote \<Longrightarrow> c \<noteq> bslash \<Longrightarrow> c \<notin> set htmlChars \<Longrightarrow> compactText True (c # t) = c # compactText True t"
    using compact_plain[of c t] by blast
  then show ?thesis
    using u e by (auto simp: escASCII_def escU_def simp del: compactText.simps)
qed

lemma runeLen_E2: "runeLen (CHR 0xE2 # s) \<in> {0, 3}"
  by (auto simp: runeLen.simps(2) between_def split: list.splits)

lemma compact_rune:
  assumes "\<not> code a < 128" and "runeLen (a # s) \<noteq> 0"
  shows "compactText True (escRune (take (runeLen (a # s)) (a # s)) @ t) =
    escRune (take (runeLen (a # s)) (a # s)) @ compactText True t"
proof -
  let ?r = "take (runeLen (a # s)) (a # s)"
  obtain n where n: "runeLen (a # s) = Suc n" using assms(2) by (cases "runeLen (a # s)") auto
  have bs: "b \<noteq> dquote \<and> b \<noteq> bslash \<and> b \<notin> set htmlChars \<and> b \<noteq> CHR 0xE2" if "b \<in> set (take n s)" for b
    using runeLen_take(3)[OF _ n that] assms(1) by (auto simp: between_def special_iff htmlChars_def)
  have a: "a \<noteq> dquote" "a \<noteq> bslash" "a \<notin> set htmlChars"
    using assms(1) by (auto simp: special_iff htmlChars_def)
  have e: "compactText True (escU ''2028'' @ t) = escU ''2028'' @ compactText True t"
    "compactText True (escU ''2029'' @ t) = escU ''2029'' @ compactText True t"
    by (rule compact_escU, simp add: special_iff htmlChars_def)+
  have "compactText True (?r @ t) = ?r @ compactText True t" if "?r \<noteq> lineSep" "?r \<noteq> parSep"
  proof -
    have "take 3 (?r @ t) = ?r" if "a = CHR 0xE2"
      using that runeLen_E2[of s] rune_bytes(3)[OF assms] assms(2) by auto
    then have "take 3 (?r @ t) \<noteq> lineSep \<and> take 3 (?r @ t) \<noteq> parSep"
      using \<open>?r \<noteq> lineSep\<close> \<open>?r \<noteq> parSep\<close> n by (cases "a = CHR 0xE2") (auto simp: lineSep_def parSep_def)
    then have "compactText True (?r @ t) = a # compactText True (take n s @ t)"
      using a n by (simp add: numeral_3_eq_3)
    then show ?thesis using compact_plains[of "take n s" t] bs n by (simp add: list_all_iff)
  qed
  then show ?thesis using e by (auto simp: escRune_def)
qed

lemma compact_escapeBody: "compactText True (escapeBody s @ t) = escapeBody s @ compactText True t"
proof (induction s rule: escapeBody.induct)
  case (2 a s)
  have f: "compactText True (escU ''fffd'' @ u) = escU ''fffd'' @ compactText True u" for u
    by (rule compact_escU) (simp add: special_iff htmlChars_def)
  consider "code a < 128" | "\<not> code a < 128" "runeLen (a # s) = 0"
    | "\<not> code a < 128" "runeLen (a # s) \<noteq> 0" by blast
  then show ?case
    by cases (use 2 f in \<open>simp_all add: escapeBody.simps(2) compact_escASCII compact_rune del: compactText.simps\<close>)
qed simp

lemma tight_jsonQuote: "tight (jsonQuote s)"
  by (simp add: tight_def jsonQuote_def compact_escapeBody not_space)

lemma tight_jsonBool: "tight (jsonBool b)"
  by (rule tight_plain) (simp add: jsonBool_def isSpace_def dquote_def)

lemma tight_joinWith: "(\<And>v. v \<in> set vs \<Longrightarrow> tight v) \<Longrightarrow> tight (joinWith (CHR '','') vs)"
  by (induction "CHR '',''" vs rule: joinWith.induct)
    (auto simp: tight_def not_space special_iff)

lemma tight_jsonObj: "(\<And>m. m \<in> set ms \<Longrightarrow> tight (snd m)) \<Longrightarrow> tight (jsonObj ms)"
proof -
  assume t: "\<And>m. m \<in> set ms \<Longrightarrow> tight (snd m)"
  have p: "tight ''{''" "tight ''}''" "tight '':''" by (rule tight_plain, simp add: dquote_def isSpace_def)+
  have "tight (jsonMember m)" if "m \<in> set ms" for m
    unfolding jsonMember_def using t[OF that] p by (intro tight_append tight_jsonQuote)
  then show ?thesis
    unfolding jsonObj_def using p by (intro tight_append tight_joinWith) auto
qed

lemma tight_jsonArr: "(\<And>v. v \<in> set vs \<Longrightarrow> tight v) \<Longrightarrow> tight (jsonArr vs)"
  unfolding jsonArr_def
  by (intro tight_append tight_joinWith) (auto simp: dquote_def isSpace_def intro!: tight_plain)

text \<open>Text that validates within the limit and is its own compaction.\<close>

definition canonical :: "nat \<Rightarrow> bytes \<Rightarrow> bool" where
  "canonical d v = (isValue d v \<and> compactText False v = v)"

lemma canonicalI: "isValue d v \<Longrightarrow> tight v \<Longrightarrow> canonical d v"
  using append_Nil2[of v] by (simp add: canonical_def tight_def) (metis append_Nil2 compactText.simps(1))

lemma checkValid_value: "isValue maxNestingDepth v \<Longrightarrow> checkValid v"
  using skipWS_value[of maxNestingDepth v "[]"] by (simp add: checkValid_def isValue_def) (simp add: skipWS_def)

lemma compact_canonical: "canonical d v \<Longrightarrow> d \<le> maxNestingDepth \<Longrightarrow> compact v = Some v"
  using isValue_mono checkValid_value by (auto simp: canonical_def compact_def)

section \<open>The text of a scanned value is itself a value\<close>

definition cuts :: "(bytes \<Rightarrow> bytes option) \<Rightarrow> bool" where
  "cuts p = (\<forall>s r. p s = Some r \<longrightarrow> (\<exists>u. s = u @ r \<and> p u = Some []))"

definition cutsItem :: "(bytes \<Rightarrow> ('a \<times> bytes) option) \<Rightarrow> bool" where
  "cutsItem item = (\<forall>s x c r. item s = Some (x, c # r) \<longrightarrow> c \<in> set '',]}'' \<longrightarrow>
     (\<exists>u. s = u @ c # r \<and> item (u @ [c]) = Some (x, [c])))"

lemma cutsD: "cuts p \<Longrightarrow> p s = Some r \<Longrightarrow> \<exists>u. s = u @ r \<and> p u = Some []"
  by (simp add: cuts_def)

lemma scanStr_cut: "scanStr s = Some r \<Longrightarrow> \<exists>u. s = u @ r \<and> scanStr u = Some []"
proof (induction s rule: scanStr.induct)
  case (2 c s)
  consider "c = dquote" | e s' where "c = bslash" "s = e # s'" | "c \<noteq> dquote" "c \<noteq> bslash"
    using 2(4) by (cases s) (auto simp: scanStr.simps(2) split: if_splits)
  then show ?case
  proof cases
    case 1
    then show ?thesis using 2(4) by (intro exI[of _ "[c]"]) (simp add: scanStr.simps(2))
  next
    case esc: (2 e s')
    show ?thesis
    proof (cases "simpleEscape e")
      case True
      then obtain u where "s' = u @ r" "scanStr u = Some []"
        using esc "2.prems" "2.IH"(1)[of e s'] by (auto simp: scanStr.simps(2) special_codes)
      then show ?thesis using esc True by (intro exI[of _ "c # e # u"]) (simp add: scanStr.simps(2) special_codes)
    next
      case False
      have u: "e = CHR ''u''" "hex4 (take 4 s') \<noteq> None"
        using esc "2.prems" False by (simp_all add: scanStr.simps(2) special_codes split: if_splits)
      then obtain w where w: "drop 4 s' = w @ r" "scanStr w = Some []"
        using esc "2.prems" "2.IH"(2)[of e s'] False by (auto simp: scanStr.simps(2) special_codes)
      define h where "h = take 4 s'"
      have h: "length h = 4" "hex4 h \<noteq> None" "s' = h @ w @ r"
        using u(2) hex4_length[of h] w(1) append_take_drop_id[of 4 s'] by (auto simp: h_def simp del: length_take)
      then show ?thesis
        using esc False u(1) w(2) by (intro exI[of _ "c # e # h @ w"]) (simp add: scanStr.simps(2) special_codes)
    qed
  next
    case 3
    then obtain u where "s = u @ r" "scanStr u = Some []" "\<not> code c < 32"
      using 2(3,4) by (auto simp: scanStr.simps(2) split: if_splits)
    then show ?thesis using 3 by (intro exI[of _ "c # u"]) (simp add: scanStr.simps(2))
  qed
qed simp

lemma digits_cut: "dropWhile isDigit s = u @ r \<Longrightarrow> dropWhile isDigit (takeWhile isDigit s @ u) = u"
  by (induction s; cases u) (auto split: if_splits)

lemma digits_split: "dropWhile isDigit s = u @ r \<Longrightarrow> s = (takeWhile isDigit s @ u) @ r"
  using takeWhile_dropWhile_id[of isDigit s] by simp

lemma scanExp_cut: "scanExp s = Some r \<Longrightarrow> \<exists>u. s = u @ r \<and> scanExp u = Some []"
proof -
  assume e: "scanExp s = Some r"
  have n: "scanExp [] = Some []" by (simp add: scanExp_def)
  show ?thesis
  proof (cases "s = r")
    case True
    then show ?thesis using n by (intro exI[of _ "[]"]) simp
  next
    case False
    obtain x s' where s: "s = x # s'" "x = CHR ''e'' \<or> x = CHR ''E''"
      using e False by (cases s) (auto simp: scanExp_def split: if_splits)
    obtain w c r2 where w: "s' = w @ c # r2" "w = [] \<and> c \<noteq> CHR ''+'' \<and> c \<noteq> CHR ''-'' \<or> w = ''+'' \<or> w = ''-''"
      "isDigit c" "r = dropWhile isDigit r2"
    proof -
      obtain y s2 where y: "s' = y # s2" using e s by (cases s') (auto simp: scanExp_def)
      show ?thesis
      proof (cases "y = CHR ''+'' \<or> y = CHR ''-''")
        case True
        then show ?thesis
          using that[of "[y]"] e s y by (cases s2) (auto simp: scanExp_def Let_def split: if_splits)
      next
        case False
        then show ?thesis using that[of "[]" y s2] e s y by (auto simp: scanExp_def Let_def split: if_splits)
      qed
    qed
    let ?u = "x # w @ c # takeWhile isDigit r2"
    have "dropWhile isDigit (takeWhile isDigit r2) = []" using set_takeWhileD by fastforce
    then have "scanExp ?u = Some []"
      using s(2) w(2,3) by (auto simp: scanExp_def Let_def simp del: dropWhile_eq_Nil_conv)
    moreover have "s = ?u @ r" using s(1) w(1,4) by simp
    ultimately show ?thesis by blast
  qed
qed

lemma scanFrac_cut: "scanFrac s = Some r \<Longrightarrow> \<exists>u. s = u @ r \<and> scanFrac u = Some []"
proof -
  assume f: "scanFrac s = Some r"
  have n: "scanFrac [] = Some []" by (simp add: scanFrac_def)
  show ?thesis
  proof (cases "\<exists>s'. s = CHR ''.'' # s'")
    case True
    then obtain c r2 where s: "s = CHR ''.'' # c # r2" "isDigit c" "scanExp (dropWhile isDigit r2) = Some r"
      using f by (auto simp: scanFrac_def split: list.splits if_splits)
    obtain u where u: "dropWhile isDigit r2 = u @ r" "scanExp u = Some []" using scanExp_cut[OF s(3)] by blast
    then have "scanFrac (CHR ''.'' # c # takeWhile isDigit r2 @ u) = Some []"
      using s(2) digits_cut[OF u(1)] by (simp add: scanFrac_def)
    then show ?thesis using s(1) digits_split[OF u(1)] by (intro exI[of _ "CHR ''.'' # c # takeWhile isDigit r2 @ u"]) simp
  next
    case False
    then have e: "scanExp s = Some r" using f by (cases s) (auto simp: scanFrac_def scanExp_def)
    then obtain u where u: "s = u @ r" "scanExp u = Some []" using scanExp_cut by blast
    then have "scanFrac u = Some []" using False by (cases u) (auto simp: scanFrac_def)
    then show ?thesis using u by blast
  qed
qed

lemma scanNum_cut: "scanNum s = Some r \<Longrightarrow> \<exists>u. s = u @ r \<and> scanNum u = Some []"
proof -
  assume sn: "scanNum s = Some r"
  obtain w c s' where s: "s = w @ c # s'" "w = ''-'' \<or> w = [] \<and> c \<noteq> CHR ''-''"
    and f: "c = CHR ''0'' \<and> scanFrac s' = Some r \<or> c \<noteq> CHR ''0'' \<and> isDigit c \<and> scanFrac (dropWhile isDigit s') = Some r"
  proof -
    obtain y s2 where y: "s = y # s2" using sn by (cases s) (auto simp: scanNum_def)
    show ?thesis
    proof (cases "y = CHR ''-''")
      case True
      then show ?thesis
        using that[of "[y]"] sn y by (cases s2) (auto simp: scanNum_def Let_def split: if_splits)
    next
      case False
      then show ?thesis using that[of "[]" y s2] sn y by (auto simp: scanNum_def Let_def split: if_splits)
    qed
  qed
  have w: "scanNum (w @ c # v) = (if c = CHR ''0'' then scanFrac v
      else if isDigit c then scanFrac (dropWhile isDigit v) else None)" for v
    using s(2) by (auto simp: scanNum_def)
  show ?thesis
  proof (cases "c = CHR ''0''")
    case True
    then obtain u where "s' = u @ r" "scanFrac u = Some []" using f scanFrac_cut by blast
    then show ?thesis using s(1) w[of u] True by (intro exI[of _ "w @ c # u"]) simp
  next
    case False
    then obtain u where u: "dropWhile isDigit s' = u @ r" "scanFrac u = Some []" using f scanFrac_cut by blast
    then show ?thesis
      using s(1) w[of "takeWhile isDigit s' @ u"] False f digits_cut[OF u(1)] digits_split[OF u(1)]
      by (intro exI[of _ "w @ c # takeWhile isDigit s' @ u"]) simp
  qed
qed

lemma scanLit_cut: "scanLit lit s = Some r \<Longrightarrow> s = lit @ r \<and> scanLit lit lit = Some []"
  unfolding scanLit_def by (metis append_Nil2 append_eq_conv_conj append_take_drop_id option.inject option.distinct(1))

lemma scalar_cuts: "cuts scalar"
proof -
  have "\<exists>u. s = u @ r \<and> scalar u = Some []" if sc: "scalar s = Some r" for s r
  proof -
    obtain c s' where s: "s = c # s'" using sc by (cases s) (auto simp: scalar_def)
    consider "c = dquote" | "c \<noteq> dquote" "c = CHR ''-'' \<or> isDigit c"
      | lit where "lit = ''true'' \<or> lit = ''false'' \<or> lit = ''null''" "scanLit lit s = Some r"
      using sc s by (auto simp: scalar_def split: if_splits)
    then show ?thesis
    proof cases
      case 1
      then obtain u where "s' = u @ r" "scanStr u = Some []" using sc s scanStr_cut[of s' r] by (auto simp: scalar_def)
      then show ?thesis using s 1 by (intro exI[of _ "dquote # u"]) (simp add: scalar_def)
    next
      case 2
      then obtain u where u: "s = u @ r" "scanNum u = Some []" using sc s scanNum_cut[of s r] by (auto simp: scalar_def)
      then obtain u' where "u = c # u'" using s by (cases u) (auto simp: scanNum_def)
      then show ?thesis using u 2 by (intro exI[of _ u]) (simp add: scalar_def)
    next
      case 3
      then show ?thesis
        using scanLit_cut[OF 3(2)] by (intro exI[of _ lit]) (auto simp: scalar_def dquote_def isDigit_def less_eq_char_def)
    qed
  qed
  then show ?thesis by (simp add: cuts_def)
qed


lemma skipWS_split: "\<exists>w. s = w @ skipWS s \<and> list_all isSpace w"
  by (intro exI[of _ "takeWhile isSpace s"]) (auto simp: skipWS_def list_all_iff dest: set_takeWhileD)

lemma skipWS_spaces: "list_all isSpace w \<Longrightarrow> skipWS (w @ s) = skipWS s"
  by (induction w) (auto simp: skipWS_def)

lemma skipWS_idem: "skipWS s = c # r \<Longrightarrow> \<not> isSpace c"
  unfolding skipWS_def by (metis dropWhile_eq_Cons_conv)

lemma stops_close: "c \<in> set '',]}'' \<Longrightarrow> list_all isSpace w \<Longrightarrow> stops (w @ c # t) \<and> \<not> isSpace c"
  by (cases w) (auto simp: stops_def isDigit_def less_eq_char_def isSpace_def)

lemma element_cuts:
  assumes "cuts p" and "stable p" and "shrinks p"
    and that: "element p s = Some (v, c # r)" "c \<in> set '',]}''"
  shows "\<exists>u. s = u @ c # r \<and> element p (u @ [c]) = Some (v, [c]) \<and> p v = Some []"
proof (rule elementE[OF that(1)])
  fix r0
  assume p: "p (skipWS s) = Some r0" and v: "v = consumed (skipWS s) r0" and r: "c # r = skipWS r0"
  obtain u0 where u0: "skipWS s = u0 @ r0" "p u0 = Some []" using cutsD[OF assms(1) p] by blast
  obtain w where w: "s = w @ skipWS s" "list_all isSpace w" using skipWS_split by blast
  obtain w0 where w0: "r0 = w0 @ c # r" "list_all isSpace w0" using skipWS_split[of r0] r by auto
  have st: "stops (w0 @ c # t)" "\<not> isSpace c" for t using stops_close[OF that(2) w0(2)] by simp_all
  have pu: "p (u0 @ w0 @ [c]) = Some (w0 @ [c])"
    using assms(2) u0(2) st(1)[of "[]"] by (fastforce simp: stable_def)
  have "skipWS (u0 @ w0 @ [c]) = u0 @ w0 @ [c]"
  proof (cases u0)
    case Nil
    have "w0 = []"
    proof (cases w0)
      case (Cons a w1)
      then have "\<not> isSpace a" using Nil u0(1) w0(1) skipWS_idem[of s a] by simp
      then show ?thesis using Cons w0(2) by simp
    qed
    then show ?thesis using Nil st(2) by (simp add: skipWS_Cons)
  next
    case (Cons x u1)
    then have "\<not> isSpace x" using skipWS_idem[of s x] u0(1) by simp
    then show ?thesis using Cons by (simp add: skipWS_Cons)
  qed
  then have "skipWS ((w @ u0 @ w0) @ [c]) = u0 @ w0 @ [c]" using skipWS_spaces[OF w(2)] by simp
  moreover have "skipWS (w0 @ [c]) = [c]" using skipWS_spaces[OF w0(2)] st(2) by (simp add: skipWS_Cons)
  ultimately have "element p ((w @ u0 @ w0) @ [c]) = Some (u0, [c])"
    using pu by (simp add: element_def consumed_def)
  moreover have "v = u0" using v u0(1) by (simp add: consumed_def)
  moreover have "s = (w @ u0 @ w0) @ c # r" using w(1) u0(1) w0(1) by simp
  ultimately show ?thesis using u0(2) by blast
qed

lemma member_cuts:
  assumes "cuts p" and "stable p" and "shrinks p"
    and m: "member p s = Some ((k, v), c # r)" "c \<in> set '',]}''"
  shows "\<exists>u. s = u @ c # r \<and> member p (u @ [c]) = Some ((k, v), [c]) \<and> p v = Some []"
proof (rule memberE[OF m(1)])
  fix s1 r1 r2
  assume s1: "skipWS s = dquote # s1" and r1: "scanStr s1 = Some r1" and r2: "skipWS r1 = CHR '':'' # r2"
    and k: "k = butlast (consumed s1 r1)" and e: "element p r2 = Some (v, c # r)"
  obtain w where w: "s = w @ dquote # s1" "list_all isSpace w" using skipWS_split[of s] s1 by auto
  obtain u1 where u1: "s1 = u1 @ r1" "scanStr u1 = Some []" using scanStr_cut[OF r1] by blast
  obtain w1 where w1: "r1 = w1 @ CHR '':'' # r2" "list_all isSpace w1" using skipWS_split[of r1] r2 by auto
  obtain u2 where u2: "r2 = u2 @ c # r" "element p (u2 @ [c]) = Some (v, [c])" "p v = Some []"
    using element_cuts[OF assms(1-3) e] m(2) by blast
  let ?u = "w @ dquote # u1 @ w1 @ CHR '':'' # u2"
  have "skipWS (?u @ [c]) = dquote # u1 @ w1 @ CHR '':'' # u2 @ [c]"
    using skipWS_spaces[OF w(2)] by (simp add: skipWS_Cons not_space)
  moreover have "scanStr (u1 @ w1 @ CHR '':'' # u2 @ [c]) = Some (w1 @ CHR '':'' # u2 @ [c])"
    using scanStr_append[OF u1(2)] by simp
  moreover have "skipWS (w1 @ CHR '':'' # u2 @ [c]) = CHR '':'' # u2 @ [c]"
    using skipWS_spaces[OF w1(2)] by (simp add: skipWS_Cons not_space)
  ultimately have "member p (?u @ [c]) = Some ((k, v), [c])"
    using u2(2) k u1(1) by (simp add: member_def consumed_def)
  moreover have "s = ?u @ c # r" using w(1) u1(1) w1(1) u2(1) by simp
  ultimately show ?thesis using u2(3) by blast
qed

lemma cutsItem_of:
  assumes "cuts p" and "stable p" and "shrinks p"
  shows "cutsItem (element p)" and "cutsItem (member p)"
proof -
  show "cutsItem (element p)" unfolding cutsItem_def using element_cuts[OF assms] by blast
  show "cutsItem (member p)"
    unfolding cutsItem_def
  proof (intro allI impI)
    fix s x c r
    assume m: "member p s = Some (x, c # r)" "c \<in> set '',]}''"
    obtain k v where x: "x = (k, v)" by fastforce
    show "\<exists>u. s = u @ c # r \<and> member p (u @ [c]) = Some (x, [c])"
      using member_cuts[OF assms, of s k v c r] m x by blast
  qed
qed

lemma sepLoop_cut:
  "sepLoop item close s = Some (xs, r) \<Longrightarrow> cutsItem item \<Longrightarrow> stableItem item \<Longrightarrow> close \<in> set '']}'' \<Longrightarrow>
     \<exists>u. s = u @ r \<and> sepLoop item close u = Some (xs, [])"
proof (induction "length s" arbitrary: s xs rule: less_induct)
  case less
  have ct: "\<exists>u. s = u @ c # r \<and> item (u @ [c]) = Some (x, [c])" if "item s = Some (x, c # r)" "c \<in> set '',]}''" for x c r
    using less.prems(2) that unfolding cutsItem_def by blast
  from less.prems(1) show ?case
  proof (cases rule: sepLoopE)
    case (last x)
    then obtain u where "s = u @ close # r" "item (u @ [close]) = Some (x, [close])"
      using ct[of x close r] less.prems(4) by auto
    then show ?thesis using last(2) by (intro exI[of _ "u @ [close]"]) (simp add: sepLoop.simps)
  next
    case (more x r' ys)
    obtain u where u: "s = u @ CHR '','' # r'" "item (u @ '','') = Some (x, '','')"
      using ct[OF more(1)] by auto
    obtain w where w: "r' = w @ r" "sepLoop item close w = Some (ys, [])"
      using less.hyps[OF more(3,4) less.prems(2-4)] by blast
    have "item ((u @ '','') @ w) = Some (x, '','' @ w)"
      using less.prems(3) u(2) unfolding stableItem_def by blast
    then have "sepLoop item close (u @ CHR '','' # w) = Some (xs, [])"
      using w(2) more(2,5) by (subst sepLoop.simps) simp
    then show ?thesis using u(1) w(1) by (intro exI[of _ "u @ CHR '','' # w"]) simp
  qed
qed

lemma bracketed_cut:
  assumes "bracketed item close s = Some (xs, r)" and "cutsItem item" and "stableItem item" and "close \<in> set '']}''"
    and "shrinksItem item"
  shows "\<exists>u. s = u @ r \<and> bracketed item close u = Some (xs, [])"
proof -
  obtain c s1 where s1: "skipWS s = c # s1" using assms(1) by (cases "skipWS s") (auto simp: bracketed_def)
  obtain w where w: "s = w @ c # s1" "list_all isSpace w" using skipWS_split[of s] s1 by auto
  have ws: "skipWS (w @ c # t) = c # t" for t
    using skipWS_spaces[OF w(2)] skipWS_idem[OF s1] by (simp add: skipWS_Cons)
  show ?thesis
  proof (cases "c = close")
    case True
    then show ?thesis
      using assms(1) s1 w(1) ws[of "[]"] by (intro exI[of _ "w @ [c]"]) (simp add: bracketed_def)
  next
    case False
    then have sl: "sepLoop item close (c # s1) = Some (xs, r)" using assms(1) s1 by (simp add: bracketed_def)
    then obtain u where u: "c # s1 = u @ r" "sepLoop item close u = Some (xs, [])"
      using sepLoop_cut assms(2-4) by blast
    have "length r < length (c # s1)" using sepLoop_shrinks[OF sl assms(5)] .
    then obtain u' where "u = c # u'" using u(1) by (cases u) auto
    then show ?thesis
      using u w(1) ws[of u'] False by (intro exI[of _ "w @ c # u'"]) (simp add: bracketed_def)
  qed
qed

lemma skipValue_cuts: "cuts (skipValue d)"
proof (induction d)
  case 0
  then show ?case using scalar_cuts by (simp add: cuts_def skipValue.simps(1))
next
  case (Suc d)
  note items = cutsItem_of[OF Suc skipValue_stable skipValue_shrinks]
  note st = member_stable[OF skipValue_stable skipValue_shrinks, of d] element_stable[OF skipValue_stable skipValue_shrinks, of d]
  note sh = member_shrinks[OF skipValue_shrinks, of d] element_shrinks[OF skipValue_shrinks, of d]
  have "\<exists>u. s = u @ r \<and> skipValue (Suc d) u = Some []" if sv: "skipValue (Suc d) s = Some r" for s r
  proof -
    obtain c s' where s: "s = c # s'" using sv by (cases s) (auto simp: skipValue.simps(2))
    consider (obj) xs where "c = CHR ''{''" "bracketed (member (skipValue d)) (CHR ''}'') s' = Some (xs, r)"
      | (arr) xs where "c = CHR ''[''" "bracketed (element (skipValue d)) (CHR '']'') s' = Some (xs, r)"
      | (other) "c \<noteq> CHR ''{''" "c \<noteq> CHR ''[''" "scalar s = Some r"
      using sv s by (auto simp: skipValue.simps(2) split: if_splits)
    then show ?thesis
    proof cases
      case obj
      then obtain u where "s' = u @ r" "bracketed (member (skipValue d)) (CHR ''}'') u = Some (xs, [])"
        using bracketed_cut[OF obj(2) items(2) st(1) _ sh(1)] by auto
      then show ?thesis using s obj(1) by (intro exI[of _ "c # u"]) (simp add: skipValue.simps(2))
    next
      case arr
      then obtain u where "s' = u @ r" "bracketed (element (skipValue d)) (CHR '']'') u = Some (xs, [])"
        using bracketed_cut[OF arr(2) items(1) st(2) _ sh(2)] by auto
      then show ?thesis using s arr(1) by (intro exI[of _ "c # u"]) (simp add: skipValue.simps(2))
    next
      case other
      then obtain u where u: "s = u @ r" "scalar u = Some []" using cutsD[OF scalar_cuts] by blast
      then obtain u' where "u = c # u'" using s by (cases u) (auto simp: scalar_def)
      then show ?thesis using u other by (intro exI[of _ u]) (simp add: skipValue.simps(2))
    qed
  qed
  then show ?case by (simp add: cuts_def)
qed


lemma weaker_trans: "weaker f g \<Longrightarrow> weaker g h \<Longrightarrow> weaker f h"
  by (simp add: weaker_def)

lemma skipValue_mono: "d \<le> e \<Longrightarrow> weaker (skipValue d) (skipValue e)"
proof (induction e rule: dec_induct)
  case (step n)
  then show ?case using skipValue_Suc weaker_trans by blast
qed (simp add: weaker_def)

text \<open>The values a scanner took apart are values.\<close>

lemma sepLoop_members:
  "sepLoop (member (skipValue d)) close s = Some (ms, r) \<Longrightarrow> close \<in> set '']}'' \<Longrightarrow> m \<in> set ms \<Longrightarrow>
     isValue d (snd m)"
proof (induction "length s" arbitrary: s ms rule: less_induct)
  case less
  note mc = member_cuts[OF skipValue_cuts skipValue_stable skipValue_shrinks, of d]
  have v: "isValue d (snd x)" if "member (skipValue d) s = Some (x, c # r)" "c \<in> set '',]}''" for x c r
    using mc[of s "fst x" "snd x" c r] that by (auto simp: isValue_def)
  from less.prems(1) show ?case
  proof (cases rule: sepLoopE)
    case (last x)
    then show ?thesis using v[of x close r] less.prems(2,3) by auto
  next
    case (more x r' ys)
    then show ?thesis using v[of x "CHR '',''" r'] less.hyps[of r' ys] less.prems(2,3) by auto
  qed
qed

lemma objectMembers_values:
  assumes "isValue (Suc d) raw" and "Suc d \<le> maxNestingDepth" and "objectMembers raw = Some ms" and "m \<in> set ms"
  shows "isValue d (snd m)"
proof -
  obtain s where s: "raw = CHR ''{'' # s"
    using assms(3) by (cases raw) (auto simp: objectMembers_def split: if_splits)
  then obtain xs where xs: "bracketed (member (skipValue d)) (CHR ''}'') s = Some (xs, [])"
    using assms(1) by (auto simp: isValue_def skipValue.simps(2))
  then have "bracketed (member (skipValue maxNestingDepth)) (CHR ''}'') s = Some (xs, [])"
    using weaker_bracketed[OF weaker_member[OF skipValue_mono[of d maxNestingDepth]], of "CHR ''}''"] assms(2)
    unfolding weaker_def by simp
  then have "ms = xs" using assms(3) s by (simp add: objectMembers_def)
  then show ?thesis
    using xs assms(4) sepLoop_members[of d "CHR ''}''" "skipWS s" ms "[]" m]
    by (auto simp: bracketed_def split: list.splits if_splits)
qed

lemma unmarshalE:
  assumes "unmarshal dec old s = Some x"
  obtains v where "isValue maxNestingDepth v" "dec v old = Some x"
proof -
  obtain r where r: "skipValue maxNestingDepth (skipWS s) = Some r" "dec (consumed (skipWS s) r) old = Some x"
    using assms by (auto simp: unmarshal_def Let_def split: option.splits if_splits)
  then obtain u where u: "skipWS s = u @ r" "skipValue maxNestingDepth u = Some []" using cutsD[OF skipValue_cuts] by blast
  then have "consumed (skipWS s) r = u" by (simp add: consumed_def)
  then show ?thesis using that[of u] u(2) r(2) by (simp add: isValue_def)
qed

lemma unmarshal_members:
  assumes "bracketed (member (skipValue d)) (CHR ''}'') s = Some (ms, [])" and "d < maxNestingDepth"
  shows "unmarshal (decStruct fs) old (CHR ''{'' # s) = decMembers fs ms old"
proof -
  have v: "isValue maxNestingDepth (CHR ''{'' # s)"
    using assms isValue_mono[of "Suc d"] by (simp add: isValue_def skipValue.simps(2))
  have "bracketed (member (skipValue maxNestingDepth)) (CHR ''}'') s = Some (ms, [])"
    using weaker_bracketed[OF weaker_member[OF skipValue_mono[of d maxNestingDepth]], of "CHR ''}''"] assms
    unfolding weaker_def by simp
  then show ?thesis
    by (simp add: unmarshal_value[OF v] decStruct_def objectMembers_def isNull_def)
qed

text \<open>What every field's decoder keeps, the decoder of the struct keeps.\<close>

lemma lookupField_mem: "lookupField fs k = Some dec \<Longrightarrow> dec \<in> snd ` set fs"
  by (force simp: lookupField_def dest!: map_of_SomeD split: option.splits)

lemma decMembers_inv:
  assumes "\<And>dec v r r'. dec \<in> snd ` set fs \<Longrightarrow> V v \<Longrightarrow> P r \<Longrightarrow> dec v r = Some r' \<Longrightarrow> P r'"
  shows "\<forall>m \<in> set ms. V (snd m) \<Longrightarrow> P r \<Longrightarrow> decMembers fs ms r = Some r' \<Longrightarrow> P r'"
proof (induction ms arbitrary: r)
  case (Cons m ms)
  obtain key where key: "unquote (fst m) = Some key" using Cons.prems(3) by (auto split: option.splits)
  show ?case
  proof (cases "lookupField fs key")
    case None
    then show ?thesis using Cons key by simp
  next
    case (Some dec)
    then obtain r1 where r1: "dec (snd m) r = Some r1" "decMembers fs ms r1 = Some r'"
      using Cons.prems(3) key by (auto split: option.splits)
    have "P r1" using assms[OF lookupField_mem[OF Some] _ Cons.prems(2) r1(1)] Cons.prems(1) by simp
    then show ?thesis using Cons.IH[of r1] Cons.prems(1) r1(2) by simp
  qed
qed simp

lemma decStruct_inv:
  assumes "\<And>dec v r r'. dec \<in> snd ` set fs \<Longrightarrow> isValue d v \<Longrightarrow> P r \<Longrightarrow> dec v r = Some r' \<Longrightarrow> P r'"
    and "isValue (Suc d) raw" and "Suc d \<le> maxNestingDepth" and "P r" and "decStruct fs raw r = Some r'"
  shows "P r'"
proof (cases "isNull raw")
  case False
  then obtain ms where ms: "objectMembers raw = Some ms" "decMembers fs ms r = Some r'"
    using assms(5) by (auto simp: decStruct_def split: option.splits)
  have "\<forall>m \<in> set ms. isValue d (snd m)" using objectMembers_values[OF assms(2,3) ms(1)] by blast
  then show ?thesis
    by (rule decMembers_inv[where V = "isValue d" and P = P, rotated, OF _ assms(4) ms(2)]) (rule assms(1))
qed (use assms in \<open>simp add: decStruct_def\<close>)

lemma decString_valid: "decString raw old = Some s \<Longrightarrow> validUTF8 old \<Longrightarrow> validUTF8 s"
  using validUTF8_unquote by (auto simp: decString_def split: if_splits)

lemma atoi_int64: "atoi s = Some i \<Longrightarrow> - (2 ^ 63) \<le> i \<and> i < 2 ^ 63"
  by (auto simp: atoi_def Let_def split: list.splits option.splits if_splits)

section \<open>Codecs\<close>

text \<open>The contract of a printer and a decoder of one type, starting from the type's zero value: what is
  printed is one value and is read back. A printer whose text is compact as well may be embedded in
  other texts. What a client gets from it does not depend on the type.\<close>

locale json_reader =
  fixes pr :: "'a \<Rightarrow> bytes" and dec :: "'a decoder" and zero :: 'a and ok :: "'a \<Rightarrow> bool" and depth :: nat
  assumes scans: "ok x \<Longrightarrow> isValue depth (pr x)"
    and reads: "ok x \<Longrightarrow> dec (pr x) zero = Some x"
    and shallow: "depth \<le> maxNestingDepth"
begin

lemma scans_max: "ok x \<Longrightarrow> isValue maxNestingDepth (pr x)"
  using isValue_mono[OF shallow] scans by blast

lemma unmarshal_print: "ok x \<Longrightarrow> unmarshal dec zero (pr x) = Some x"
  by (simp add: unmarshal_value[OF scans_max] reads)

text \<open>A printed value is not empty, so it is not taken for an absent one.\<close>

lemma print_not_Nil: "ok x \<Longrightarrow> pr x \<noteq> []"
  using isValue_head[OF scans] by blast

lemma print_inject: "ok x \<Longrightarrow> ok y \<Longrightarrow> pr x = pr y \<Longrightarrow> x = y"
  by (metis option.inject reads)

end

locale json_codec = json_reader +
  assumes compacted: "ok x \<Longrightarrow> tight (pr x)"
begin

lemma canonical_print: "ok x \<Longrightarrow> canonical depth (pr x)"
  by (rule canonicalI[OF scans compacted])

lemma compact_print: "ok x \<Longrightarrow> compact (pr x) = Some (pr x)"
  using compact_canonical[OF canonical_print shallow] .

end

interpretation js: json_codec jsonQuote decString "[]" validUTF8 0
  by unfold_locales (simp_all add: tight_jsonQuote)

interpretation jb: json_codec jsonBool decBool False "\<lambda>_. True" 0
  by unfold_locales (simp_all add: tight_jsonBool)

definition int64 :: "int \<Rightarrow> bool" where
  "int64 i = (- (2 ^ 63) \<le> i \<and> i < 2 ^ 63)"

lemma tight_showNat: "tight (showNat n)"
proof (rule tight_plain)
  have "\<not> isDigit dquote" by (simp add: isDigit_def less_eq_char_def dquote_def)
  then have "\<not> isSpace c \<and> c \<noteq> dquote" if "isDigit c" for c
    using that isSpace_heads[of c] by metis
  then show "list_all (\<lambda>c. \<not> isSpace c \<and> c \<noteq> dquote) (showNat n)"
    using list_all_showNat[of n] by (simp add: list_all_iff)
qed

lemma tight_showInt: "tight (showInt i)"
proof -
  have "tight ''-''" by (rule tight_plain) (simp add: isSpace_def dquote_def)
  then show ?thesis
    using tight_append[OF _ tight_showNat, of "''-''"] by (simp add: showInt_def tight_showNat)
qed

interpretation ji: json_codec showInt decInt 0 int64 0
  by unfold_locales (simp_all add: tight_showInt int64_def)

interpretation ju: json_codec "\<lambda>w. showNat (unat w)" decUint32 0 "\<lambda>_. True" 0
  by unfold_locales (simp_all add: tight_showNat)

text \<open>Reading a printed struct field by field.\<close>

lemma decMembers_field:
  assumes "validUTF8 k" and "lookupField fs k = Some dec"
  shows "decMembers fs (map (map_prod escapeBody id) ((k, v) # ms)) r =
    (case dec v r of None \<Rightarrow> None | Some r' \<Rightarrow> decMembers fs (map (map_prod escapeBody id) ms) r')"
  using assms by simp

lemma decMembers_omit:
  assumes "validUTF8 k" and "lookupField fs k = Some dec"
  shows "decMembers fs (map (map_prod escapeBody id) (omitIf e (k, v))) r = (if e then Some r else dec v r)"
  using assms by (simp add: omitIf_def split: option.split)

section \<open>How long printed values are\<close>

lemma length_showNat: "n < 10 ^ k \<Longrightarrow> 0 < k \<Longrightarrow> length (showNat n) \<le> k"
proof (induction k arbitrary: n)
  case (Suc k)
  show ?case
  proof (cases "n < 10")
    case False
    then have "n div 10 < 10 ^ k" "0 < k" using Suc.prems by (simp_all add: less_mult_imp_div_less) (cases k; simp)
    then show ?thesis using Suc.IH[of "n div 10"] False by (subst showNat.simps) simp
  qed (subst showNat.simps, simp)
qed simp

lemma length_jsonQuote: "length (jsonQuote s) \<le> 6 * length s + 2"
  using length_escapeBody[of s] by (simp add: jsonQuote_def)
lemma length_showInt: "int64 i \<Longrightarrow> length (showInt i) \<le> 20"
proof -
  assume "int64 i"
  then have "nat i < 10 ^ 19" "nat (- i) < 10 ^ 19" unfolding int64_def by auto
  then have "length (showNat (nat i)) \<le> 19" "length (showNat (nat (- i))) \<le> 19"
    using length_showNat[of _ 19] by simp_all
  then show ?thesis by (simp add: showInt_def)
qed

lemma length_showWord: "length (showNat (unat (w :: 32 word))) \<le> 10"
proof -
  have "unat w < 2 ^ 32" using unsigned_less[of w] by simp
  then show ?thesis using length_showNat[of "unat w" 10] by simp
qed

lemma length_joinWith: "length (joinWith c xs) \<le> sum_list (map length xs) + length xs"
  by (induction c xs rule: joinWith.induct) auto

lemma length_jsonObj:
  "length (jsonObj ms) \<le> sum_list (map (\<lambda>m. 6 * length (fst m) + length (snd m) + 4) ms) + 2"
proof -
  have m: "length (jsonMember m) + 1 \<le> 6 * length (fst m) + length (snd m) + 4" for m
    using length_jsonQuote[of "fst m"] by (simp add: jsonMember_def)
  have "sum_list (map length (map jsonMember ms)) + length ms \<le>
      sum_list (map (\<lambda>m. 6 * length (fst m) + length (snd m) + 4) ms)"
  proof (induction ms)
    case (Cons x ms)
    then show ?case using m[of x] by simp
  qed simp
  then show ?thesis
    using length_joinWith[of "CHR '',''" "map jsonMember ms"] by (simp add: jsonObj_def)
qed

end
