(* ===== verification/Manifestjson.thy ===== *)
theory Manifestjson
  imports Sideload Json
begin

text \<open>
  The JSON of manifests (\<^verbatim>\<open>Parse\<close>, \<^verbatim>\<open>Marshal\<close> and \<^verbatim>\<open>canonicalJSON\<close> of
  \<^verbatim>\<open>pkg/manifest/manifest.go\<close>): slices, the values of interface type in a condition's parameters,
  conditions nested in conditions, and the structs of the schema with their tags. How a number is
  converted to and from \<^verbatim>\<open>float64\<close> (\<^verbatim>\<open>strconv\<close>) is the record \<open>floats\<close>.
\<close>

section \<open>Slices\<close>

text \<open>An element is decoded onto the one that is already there when a member is repeated; a third
  repetition, which Go decodes onto what the backing array still holds, counts as the second.\<close>

primrec decElems :: "'a decoder \<Rightarrow> 'a \<Rightarrow> bytes list \<Rightarrow> 'a list \<Rightarrow> 'a list option" where
  "decElems dec zero [] old = Some []"
| "decElems dec zero (v # vs) old =
     (case dec v (case old of [] \<Rightarrow> zero | x # _ \<Rightarrow> x) of
        None \<Rightarrow> None
      | Some x \<Rightarrow> map_option (Cons x) (decElems dec zero vs (drop 1 old)))"

definition arrayElems :: "bytes \<Rightarrow> bytes list option" where
  "arrayElems raw =
     (if take 1 raw = ''[''
      then map_option fst (bracketed (element (skipValue maxNestingDepth)) (CHR '']'') (drop 1 raw))
      else None)"

definition decSlice :: "'a decoder \<Rightarrow> 'a \<Rightarrow> 'a list decoder" where
  "decSlice dec zero raw old =
     (if isNull raw then Some []
      else (case arrayElems raw of None \<Rightarrow> None | Some vs \<Rightarrow> decElems dec zero vs old))"

section \<open>Values of interface type\<close>

record floats =
  isDouble :: "rat \<Rightarrow> bool"
  parseFloat :: "bytes \<Rightarrow> rat option"
  formatFloat :: "rat \<Rightarrow> bytes"

definition decAtom :: "floats \<Rightarrow> bytes \<Rightarrow> gval option" where
  "decAtom ff raw =
     (if isNull raw then Some GNil
      else if raw = ''true'' then Some (GBool True)
      else if raw = ''false'' then Some (GBool False)
      else if take 1 raw = [dquote] then map_option GStr (unquote (butlast (drop 1 raw)))
      else if scanNum raw = Some [] then map_option GNum (parseFloat ff raw)
      else None)"

text \<open>A Go map is kept sorted by key, the order in which the encoder prints it.\<close>

fun putEntry :: "string \<Rightarrow> 'a \<Rightarrow> (string \<times> 'a) list \<Rightarrow> (string \<times> 'a) list" where
  "putEntry k v [] = [(k, v)]"
| "putEntry k v ((k', v') # r) =
     (if k < k' then (k, v) # (k', v') # r
      else if k = k' then (k, v) # r
      else (k', v') # putEntry k v r)"

primrec decEntries :: "(bytes \<Rightarrow> 'a option) \<Rightarrow> (bytes \<times> bytes) list \<Rightarrow> (string \<times> 'a) list \<Rightarrow> (string \<times> 'a) list option" where
  "decEntries dec [] acc = Some acc"
| "decEntries dec (m # ms) acc =
     (case unquote (fst m) of
        None \<Rightarrow> None
      | Some k \<Rightarrow> (case dec (snd m) of None \<Rightarrow> None | Some v \<Rightarrow> decEntries dec ms (putEntry k v acc)))"

text \<open>The fuel is the depth that validation has already bounded.\<close>

primrec decAny :: "floats \<Rightarrow> nat \<Rightarrow> bytes \<Rightarrow> gval option" where
  "decAny ff 0 raw = decAtom ff raw"
| "decAny ff (Suc d) raw =
     (if take 1 raw = ''{'' then
        (case objectMembers raw of None \<Rightarrow> None | Some ms \<Rightarrow> map_option GMap (decEntries (decAny ff d) ms []))
      else if take 1 raw = ''['' then
        (case arrayElems raw of None \<Rightarrow> None | Some vs \<Rightarrow> map_option GList (those (map (decAny ff d) vs)))
      else decAtom ff raw)"

definition decParams :: "floats \<Rightarrow> (string \<times> gval) list decoder" where
  "decParams ff raw old =
     (if isNull raw then Some []
      else (case objectMembers raw of None \<Rightarrow> None | Some ms \<Rightarrow> decEntries (decAny ff maxNestingDepth) ms old))"

fun printAny :: "floats \<Rightarrow> gval \<Rightarrow> bytes" where
  "printAny ff GNil = ''null''"
| "printAny ff (GBool b) = jsonBool b"
| "printAny ff (GNum x) = formatFloat ff x"
| "printAny ff (GStr s) = jsonQuote s"
| "printAny ff (GList vs) = jsonArr (map (printAny ff) vs)"
| "printAny ff (GStrs ss) = jsonArr (map jsonQuote ss)"
| "printAny ff (GMap kvs) = jsonObj (sort_key fst (map (\<lambda>(k, v). (k, printAny ff v)) kvs))"

section \<open>The structs of the schema\<close>

definition zeroCond :: condition where
  "zeroCond = Condition [] [] [] []"

definition condFields :: "floats \<Rightarrow> condition decoder \<Rightarrow> condition fields" where
  "condFields ff rec =
     [(''kind'', fieldDec decString Kind (\<lambda>v c. Condition v (Params c) (Op c) (Compose c))),
      (''params'', fieldDec (decParams ff) Params (\<lambda>v c. Condition (Kind c) v (Op c) (Compose c))),
      (''op'', fieldDec decString Op (\<lambda>v c. Condition (Kind c) (Params c) v (Compose c))),
      (''compose'', fieldDec (decSlice rec zeroCond) Compose (\<lambda>v c. Condition (Kind c) (Params c) (Op c) v))]"

primrec decCond :: "floats \<Rightarrow> nat \<Rightarrow> condition decoder" where
  "decCond ff 0 = (\<lambda>raw old. if isNull raw then Some old else None)"
| "decCond ff (Suc d) = decStruct (condFields ff (decCond ff d))"

fun condJSON :: "floats \<Rightarrow> condition \<Rightarrow> bytes" where
  "condJSON ff (Condition k ps op cs) = jsonObj
     (omitIf (k = []) (''kind'', jsonQuote k) @
      omitIf (ps = []) (''params'', printAny ff (GMap ps)) @
      omitIf (op = []) (''op'', jsonQuote op) @
      omitIf (cs = []) (''compose'', jsonArr (map (condJSON ff) cs)))"

definition grantFields :: "floats \<Rightarrow> grant fields" where
  "grantFields ff =
     [(''cap'', fieldDec decString Cap (\<lambda>v. Cap_update (\<lambda>_. v))),
      (''target'', fieldDec decString Target (\<lambda>v. Target_update (\<lambda>_. v))),
      (''if'', fieldDec (decPtr (decCond ff maxNestingDepth) zeroCond) Cond (\<lambda>v. Cond_update (\<lambda>_. v)))]"

definition zeroGrant :: grant where
  "zeroGrant = \<lparr> Cap = [], Target = [], Cond = None \<rparr>"

definition grantJSON :: "floats \<Rightarrow> grant \<Rightarrow> bytes" where
  "grantJSON ff g = jsonObj
     ([(''cap'', jsonQuote (Cap g)), (''target'', jsonQuote (Target g))] @
      omitIf (Cond g = None) (''if'', case Cond g of None \<Rightarrow> ''null'' | Some c \<Rightarrow> condJSON ff c))"

text \<open>A slice without \<^verbatim>\<open>omitempty\<close>: an empty one is printed as \<^verbatim>\<open>null\<close> if it is nil, which
  a list does not tell and \<open>isNil\<close> says.\<close>

definition sliceJSON :: "bool \<Rightarrow> ('a \<Rightarrow> bytes) \<Rightarrow> 'a list \<Rightarrow> bytes" where
  "sliceJSON isNil pr xs = (if xs = [] \<and> isNil then ''null'' else jsonArr (map pr xs))"

definition grantsText :: "floats \<Rightarrow> bool \<Rightarrow> grant list \<Rightarrow> bytes" where
  "grantsText ff isNil gs = sliceJSON isNil (grantJSON ff) gs"

text \<open>On grants the encoder cannot fail: a parsed number is finite.\<close>

definition canonicalJSON :: "floats \<Rightarrow> bool \<Rightarrow> grant list \<Rightarrow> bytes option" where
  "canonicalJSON ff isNil gs = Some (grantsText ff isNil gs)"

definition binaryFields :: "binary fields" where
  "binaryFields =
     [(''runtime'', fieldDec decString Runtime (\<lambda>v. Runtime_update (\<lambda>_. v))),
      (''path'', fieldDec decString Path (\<lambda>v. Path_update (\<lambda>_. v))),
      (''sha256'', fieldDec decString SHA256 (\<lambda>v. SHA256_update (\<lambda>_. v)))]"

definition zeroBinary :: binary where "zeroBinary = \<lparr> Runtime = [], Path = [], SHA256 = [] \<rparr>"

definition binaryJSON :: "binary \<Rightarrow> bytes" where
  "binaryJSON b = jsonObj
     [(''runtime'', jsonQuote (Runtime b)), (''path'', jsonQuote (Path b)), (''sha256'', jsonQuote (SHA256 b))]"

definition storeFields :: "store fields" where
  "storeFields =
     [(''publisher'', fieldDec decString Publisher (\<lambda>v. Publisher_update (\<lambda>_. v))),
      (''signature'', fieldDec decString Signature (\<lambda>v. Signature_update (\<lambda>_. v)))]"

definition zeroStore :: store where "zeroStore = \<lparr> Publisher = [], Signature = [] \<rparr>"

definition storeJSON :: "store \<Rightarrow> bytes" where
  "storeJSON s = jsonObj [(''publisher'', jsonQuote (Publisher s)), (''signature'', jsonQuote (Signature s))]"

definition affiliateFields :: "affiliate fields" where
  "affiliateFields =
     [(''pubkey'', fieldDec decString Pubkey (\<lambda>v. Pubkey_update (\<lambda>_. v))),
      (''role'', fieldDec decString Role (\<lambda>v. Role_update (\<lambda>_. v))),
      (''purpose'', fieldDec decString Purpose (\<lambda>v. Purpose_update (\<lambda>_. v)))]"

definition zeroAffiliate :: affiliate where "zeroAffiliate = \<lparr> Pubkey = [], Role = [], Purpose = [] \<rparr>"

definition affiliateJSON :: "affiliate \<Rightarrow> bytes" where
  "affiliateJSON a = jsonObj
     [(''pubkey'', jsonQuote (Pubkey a)), (''role'', jsonQuote (Role a)), (''purpose'', jsonQuote (Purpose a))]"

definition dependencyFields :: "dependency fields" where
  "dependencyFields =
     [(''app'', fieldDec decString App (\<lambda>v. App_update (\<lambda>_. v))),
      (''methods'', fieldDec (decSlice decString []) Methods (\<lambda>v. Methods_update (\<lambda>_. v)))]"

definition zeroDependency :: dependency where "zeroDependency = \<lparr> App = [], Methods = [] \<rparr>"

definition dependencyJSON :: "bool \<Rightarrow> dependency \<Rightarrow> bytes" where
  "dependencyJSON isNil d = jsonObj [(''app'', jsonQuote (App d)), (''methods'', sliceJSON isNil jsonQuote (Methods d))]"

definition flagFields :: "flagSpec fields" where
  "flagFields =
     [(''name'', fieldDec decString FlagName (\<lambda>v. FlagName_update (\<lambda>_. v))),
      (''type'', fieldDec decString FlagType (\<lambda>v. FlagType_update (\<lambda>_. v))),
      (''help'', fieldDec decString FlagHelp (\<lambda>v. FlagHelp_update (\<lambda>_. v)))]"

definition zeroFlag :: flagSpec where "zeroFlag = \<lparr> FlagName = [], FlagType = [], FlagHelp = [] \<rparr>"

definition flagJSON :: "flagSpec \<Rightarrow> bytes" where
  "flagJSON f = jsonObj
     ([(''name'', jsonQuote (FlagName f)), (''type'', jsonQuote (FlagType f))] @
      omitIf (FlagHelp f = []) (''help'', jsonQuote (FlagHelp f)))"

definition extensionFields :: "extension fields" where
  "extensionFields =
     [(''primitive'', fieldDec decString Primitive (\<lambda>v. Primitive_update (\<lambda>_. v))),
      (''method'', fieldDec decString Method (\<lambda>v. Method_update (\<lambda>_. v))),
      (''adds_flags'', fieldDec (decSlice (decStruct flagFields) zeroFlag) AddsFlags (\<lambda>v. AddsFlags_update (\<lambda>_. v))),
      (''order'', fieldDec decInt Order (\<lambda>v. Order_update (\<lambda>_. v)))]"

definition zeroExtension :: extension where
  "zeroExtension = \<lparr> Primitive = [], Method = [], AddsFlags = [], Order = 0 \<rparr>"

definition extensionJSON :: "extension \<Rightarrow> bytes" where
  "extensionJSON e = jsonObj
     ([(''primitive'', jsonQuote (Primitive e)), (''method'', jsonQuote (Method e))] @
      omitIf (AddsFlags e = []) (''adds_flags'', jsonArr (map flagJSON (AddsFlags e))) @
      omitIf (Order e = 0) (''order'', showInt (Order e)))"

definition manifestFields :: "floats \<Rightarrow> manifest fields" where
  "manifestFields ff =
     [(''id'', fieldDec decString ID (\<lambda>v. ID_update (\<lambda>_. v))),
      (''app_version'', fieldDec decString AppVersion (\<lambda>v. AppVersion_update (\<lambda>_. v))),
      (''manifest_version'', fieldDec decInt ManifestVersion (\<lambda>v. ManifestVersion_update (\<lambda>_. v))),
      (''binary'', fieldDec (decStruct binaryFields) Binary (\<lambda>v. Binary_update (\<lambda>_. v))),
      (''exposes'', fieldDec (decSlice decString []) Exposes (\<lambda>v. Exposes_update (\<lambda>_. v))),
      (''grants'', fieldDec (decSlice (decStruct (grantFields ff)) zeroGrant) Grants (\<lambda>v. Grants_update (\<lambda>_. v))),
      (''protection'', fieldDec decString Protection (\<lambda>v. Protection_update (\<lambda>_. v))),
      (''store'', fieldDec (decStruct storeFields) Store (\<lambda>v. Store_update (\<lambda>_. v))),
      (''affiliates'', fieldDec (decSlice (decStruct affiliateFields) zeroAffiliate) Affiliates (\<lambda>v. Affiliates_update (\<lambda>_. v))),
      (''depends'', fieldDec (decSlice (decStruct dependencyFields) zeroDependency) Depends (\<lambda>v. Depends_update (\<lambda>_. v))),
      (''extends'', fieldDec (decSlice (decStruct extensionFields) zeroExtension) Extends (\<lambda>v. Extends_update (\<lambda>_. v))),
      (''dynamic_extends'', fieldDec (decSlice decString []) DynamicExtends (\<lambda>v. DynamicExtends_update (\<lambda>_. v)))]"

definition zeroManifest :: manifest where
  "zeroManifest = \<lparr> ID = [], AppVersion = [], ManifestVersion = 0, Binary = zeroBinary, Exposes = [], Grants = [],
     Protection = [], Store = zeroStore, Affiliates = [], Depends = [], Extends = [], DynamicExtends = [] \<rparr>"

section \<open>Operations\<close>

definition Parse :: "floats \<Rightarrow> bytes \<Rightarrow> manifest option" where
  "Parse ff data = unmarshal (decStruct (manifestFields ff)) zeroManifest data"

text \<open>\<open>gn\<close> and \<open>dn\<close> say of the grants and of a dependency's methods whether they are nil.\<close>

definition manifestMembers :: "floats \<Rightarrow> bool \<Rightarrow> (dependency \<Rightarrow> bool) \<Rightarrow> manifest \<Rightarrow> (string \<times> bytes) list" where
  "manifestMembers ff gn dn m =
     [(''id'', jsonQuote (ID m)), (''app_version'', jsonQuote (AppVersion m)),
      (''manifest_version'', showInt (ManifestVersion m)), (''binary'', binaryJSON (Binary m))] @
     omitIf (Exposes m = []) (''exposes'', jsonArr (map jsonQuote (Exposes m))) @
     [(''grants'', grantsText ff gn (Grants m))] @
     omitIf (Protection m = []) (''protection'', jsonQuote (Protection m)) @
     [(''store'', storeJSON (Store m))] @
     omitIf (Affiliates m = []) (''affiliates'', jsonArr (map affiliateJSON (Affiliates m))) @
     omitIf (Depends m = []) (''depends'', jsonArr (map (\<lambda>d. dependencyJSON (dn d) d) (Depends m))) @
     omitIf (Extends m = []) (''extends'', jsonArr (map extensionJSON (Extends m))) @
     omitIf (DynamicExtends m = []) (''dynamic_extends'', jsonArr (map jsonQuote (DynamicExtends m)))"

definition MarshalManifest :: "floats \<Rightarrow> bool \<Rightarrow> (dependency \<Rightarrow> bool) \<Rightarrow> manifest \<Rightarrow> bytes" where
  "MarshalManifest ff gn dn m = jsonObj (manifestMembers ff gn dn m)"

section \<open>Slices read back\<close>

lemma arrayElems_jsonArr: "\<forall>v \<in> set vs. isValue maxNestingDepth v \<Longrightarrow> arrayElems (jsonArr vs) = Some vs"
  using bracketed_elements[of vs maxNestingDepth "[]"] by (simp add: arrayElems_def jsonArr_def)

lemma decElems_print: "\<forall>x \<in> set xs. dec (pr x) zero = Some x \<Longrightarrow> decElems dec zero (map pr xs) [] = Some xs"
  by (induction xs) simp_all

lemma decSlice_jsonArr:
  assumes "\<forall>x \<in> set xs. isValue maxNestingDepth (pr x)" and "\<forall>x \<in> set xs. dec (pr x) zero = Some x"
  shows "decSlice dec zero (jsonArr (map pr xs)) [] = Some xs"
proof -
  have "\<not> isNull (jsonArr vs)" for vs by (simp add: isNull_def jsonArr_def)
  then show ?thesis
    using arrayElems_jsonArr[of "map pr xs"] decElems_print[where xs = xs and pr = pr and dec = dec and zero = zero, OF assms(2)] assms(1) by (simp add: decSlice_def)
qed

lemma decSlice_sliceJSON:
  assumes "\<forall>x \<in> set xs. isValue maxNestingDepth (pr x)" and "\<forall>x \<in> set xs. dec (pr x) zero = Some x"
  shows "decSlice dec zero (sliceJSON isNil pr xs) [] = Some xs"
  using decSlice_jsonArr[where xs = xs and pr = pr and dec = dec and zero = zero, OF assms] by (simp add: sliceJSON_def) (simp add: decSlice_def isNull_def)

lemma isValue_sliceJSON: "\<forall>x \<in> set xs. isValue d (pr x) \<Longrightarrow> isValue (Suc d) (sliceJSON isNil pr xs)"
  using isValue_jsonArr[of "map pr xs" d] by (simp add: sliceJSON_def)

text \<open>Every printer and decoder of one type gives those of its slices.\<close>

context json_reader begin

lemma slice_reads: "list_all ok xs \<Longrightarrow> decSlice dec zero (jsonArr (map pr xs)) [] = Some xs"
  using scans_max reads by (intro decSlice_jsonArr) (auto simp: list_all_iff)

lemma slice_scans: "list_all ok xs \<Longrightarrow> isValue (Suc depth) (jsonArr (map pr xs))"
  using scans by (intro isValue_jsonArr) (auto simp: list_all_iff)

end

section \<open>The structs read back\<close>

definition typedBinary :: "binary \<Rightarrow> bool" where
  "typedBinary b = (validUTF8 (Runtime b) \<and> validUTF8 (Path b) \<and> validUTF8 (SHA256 b))"

definition typedStore :: "store \<Rightarrow> bool" where
  "typedStore s = (validUTF8 (Publisher s) \<and> validUTF8 (Signature s))"

definition typedAffiliate :: "affiliate \<Rightarrow> bool" where
  "typedAffiliate a = (validUTF8 (Pubkey a) \<and> validUTF8 (Role a) \<and> validUTF8 (Purpose a))"

definition typedDependency :: "dependency \<Rightarrow> bool" where
  "typedDependency d = (validUTF8 (App d) \<and> list_all validUTF8 (Methods d))"

definition typedFlag :: "flagSpec \<Rightarrow> bool" where
  "typedFlag f = (validUTF8 (FlagName f) \<and> validUTF8 (FlagType f) \<and> validUTF8 (FlagHelp f))"

definition typedExtension :: "extension \<Rightarrow> bool" where
  "typedExtension e = (validUTF8 (Primitive e) \<and> validUTF8 (Method e) \<and> list_all typedFlag (AddsFlags e) \<and> int64 (Order e))"

lemmas struct_reads = lookupField_def fieldDec_def validUTF8_ascii omitIf_def

interpretation jbin: json_reader binaryJSON "decStruct binaryFields" zeroBinary typedBinary 1
proof unfold_locales
  fix b :: binary
  have v: "\<forall>m \<in> set [(''runtime'', jsonQuote (Runtime b)), (''path'', jsonQuote (Path b)), (''sha256'', jsonQuote (SHA256 b))].
      isValue d (snd m)" for d by simp
  show "isValue 1 (binaryJSON b)" using isValue_jsonObj[OF v[of 0]] by (simp add: binaryJSON_def)
  assume "typedBinary b"
  then show "decStruct binaryFields (binaryJSON b) zeroBinary = Some b"
    unfolding binaryJSON_def decStruct_jsonObj[OF v]
    by (simp add: binaryFields_def zeroBinary_def typedBinary_def struct_reads)
qed (simp add: maxNestingDepth_def)

interpretation jsto: json_reader storeJSON "decStruct storeFields" zeroStore typedStore 1
proof unfold_locales
  fix s :: store
  have v: "\<forall>m \<in> set [(''publisher'', jsonQuote (Publisher s)), (''signature'', jsonQuote (Signature s))]. isValue d (snd m)"
    for d by simp
  show "isValue 1 (storeJSON s)" using isValue_jsonObj[OF v[of 0]] by (simp add: storeJSON_def)
  assume "typedStore s"
  then show "decStruct storeFields (storeJSON s) zeroStore = Some s"
    unfolding storeJSON_def decStruct_jsonObj[OF v]
    by (simp add: storeFields_def zeroStore_def typedStore_def struct_reads)
qed (simp add: maxNestingDepth_def)

interpretation jaff: json_reader affiliateJSON "decStruct affiliateFields" zeroAffiliate typedAffiliate 1
proof unfold_locales
  fix a :: affiliate
  have v: "\<forall>m \<in> set [(''pubkey'', jsonQuote (Pubkey a)), (''role'', jsonQuote (Role a)), (''purpose'', jsonQuote (Purpose a))].
      isValue d (snd m)" for d by simp
  show "isValue 1 (affiliateJSON a)" using isValue_jsonObj[OF v[of 0]] by (simp add: affiliateJSON_def)
  assume "typedAffiliate a"
  then show "decStruct affiliateFields (affiliateJSON a) zeroAffiliate = Some a"
    unfolding affiliateJSON_def decStruct_jsonObj[OF v]
    by (simp add: affiliateFields_def zeroAffiliate_def typedAffiliate_def struct_reads)
qed (simp add: maxNestingDepth_def)

interpretation jflag: json_reader flagJSON "decStruct flagFields" zeroFlag typedFlag 1
proof unfold_locales
  fix f :: flagSpec
  have v: "\<forall>m \<in> set ([(''name'', jsonQuote (FlagName f)), (''type'', jsonQuote (FlagType f))] @
      omitIf (FlagHelp f = []) (''help'', jsonQuote (FlagHelp f))). isValue d (snd m)" for d by (simp add: omitIf_def)
  show "isValue 1 (flagJSON f)" using isValue_jsonObj[OF v[of 0]] by (simp add: flagJSON_def)
  assume "typedFlag f"
  then show "decStruct flagFields (flagJSON f) zeroFlag = Some f"
    unfolding flagJSON_def decStruct_jsonObj[OF v]
    by (cases f) (simp add: flagFields_def zeroFlag_def typedFlag_def struct_reads)
qed (simp add: maxNestingDepth_def)

interpretation jext: json_reader extensionJSON "decStruct extensionFields" zeroExtension typedExtension 3
proof unfold_locales
  fix e :: extension
  let ?ms = "[(''primitive'', jsonQuote (Primitive e)), (''method'', jsonQuote (Method e))] @
      omitIf (AddsFlags e = []) (''adds_flags'', jsonArr (map flagJSON (AddsFlags e))) @
      omitIf (Order e = 0) (''order'', showInt (Order e))"
  assume t: "typedExtension e"
  have fl: "isValue 2 (jsonArr (map flagJSON (AddsFlags e)))"
    using t jflag.slice_scans by (simp add: typedExtension_def numeral_2_eq_2)
  then have v: "\<forall>m \<in> set ?ms. isValue 2 (snd m)" by (simp add: omitIf_def)
  show "isValue 3 (extensionJSON e)" using isValue_jsonObj[OF v] by (simp add: extensionJSON_def numeral_3_eq_3 numeral_2_eq_2)
  have v': "\<forall>m \<in> set ?ms. isValue maxNestingDepth (snd m)"
    using v isValue_mono[of 2 maxNestingDepth] by (simp add: maxNestingDepth_def)
  have "decSlice (decStruct flagFields) zeroFlag (jsonArr (map flagJSON (AddsFlags e))) [] = Some (AddsFlags e)"
    using t jflag.slice_reads by (simp add: typedExtension_def)
  then show "decStruct extensionFields (extensionJSON e) zeroExtension = Some e"
    unfolding extensionJSON_def decStruct_jsonObj[OF v']
    using t by (cases e) (simp add: extensionFields_def zeroExtension_def typedExtension_def int64_def struct_reads)
qed (simp add: maxNestingDepth_def)

interpretation jdep: json_reader "\<lambda>d. dependencyJSON (dn d) d" "decStruct dependencyFields" zeroDependency typedDependency 2
  for dn :: "dependency \<Rightarrow> bool"
proof unfold_locales
  fix d :: dependency
  let ?ms = "[(''app'', jsonQuote (App d)), (''methods'', sliceJSON (dn d) jsonQuote (Methods d))]"
  have m: "isValue (Suc k) (sliceJSON (dn d) jsonQuote (Methods d))" for k by (rule isValue_sliceJSON) simp
  then have v: "\<forall>m \<in> set ?ms. isValue (Suc k) (snd m)" for k by simp
  show "isValue 2 (dependencyJSON (dn d) d)" using isValue_jsonObj[OF v[of 0]] by (simp add: dependencyJSON_def numeral_2_eq_2)
  have v': "\<forall>m \<in> set ?ms. isValue maxNestingDepth (snd m)" using v[of "maxNestingDepth - 1"] by (simp add: maxNestingDepth_def)
  assume t: "typedDependency d"
  then have "decSlice decString [] (sliceJSON (dn d) jsonQuote (Methods d)) [] = Some (Methods d)"
    by (intro decSlice_sliceJSON) (auto simp: typedDependency_def list_all_iff)
  then show "decStruct dependencyFields (dependencyJSON (dn d) d) zeroDependency = Some d"
    unfolding dependencyJSON_def decStruct_jsonObj[OF v']
    using t by (simp add: dependencyFields_def zeroDependency_def typedDependency_def struct_reads)
qed (simp add: maxNestingDepth_def)

section \<open>Values of interface type read back\<close>

text \<open>What is required of the conversions: a printed number is a number and is read as itself, and what is
  read is a \<^verbatim>\<open>float64\<close>.\<close>

definition goodFloats :: "floats \<Rightarrow> bool" where
  "goodFloats ff \<longleftrightarrow>
     (\<forall>x. isDouble ff x \<longrightarrow> scanNum (formatFloat ff x) = Some [] \<and> parseFloat ff (formatFloat ff x) = Some x)
     \<and> (\<forall>s x. parseFloat ff s = Some x \<longrightarrow> isDouble ff x)"

text \<open>The values a parser returns from text nested at most \<open>d\<close> deep.\<close>

fun okVal :: "floats \<Rightarrow> nat \<Rightarrow> gval \<Rightarrow> bool" where
  "okVal ff d GNil = True"
| "okVal ff d (GBool b) = True"
| "okVal ff d (GNum x) = isDouble ff x"
| "okVal ff d (GStr s) = validUTF8 s"
| "okVal ff d (GList vs) = (0 < d \<and> list_all (okVal ff (d - 1)) vs)"
| "okVal ff d (GStrs ss) = False"
| "okVal ff d (GMap kvs) =
     (0 < d \<and> sorted_wrt (<) (map fst kvs) \<and> list_all (\<lambda>(k, v). validUTF8 k \<and> okVal ff (d - 1) v) kvs)"

lemma okVal_mono: "d \<le> e \<Longrightarrow> okVal ff d v \<Longrightarrow> okVal ff e v"
proof (induction ff d v arbitrary: e rule: okVal.induct)
  case (5 ff d vs)
  then have "0 < e" "d - 1 \<le> e - 1" by auto
  then show ?case using 5 by (auto simp: list_all_iff)
next
  case (7 ff d kvs)
  then have "0 < e" "d - 1 \<le> e - 1" by auto
  then show ?case using 7 by (fastforce simp: list_all_iff)
qed simp_all

lemma number_head: "scanNum s = Some r \<Longrightarrow> \<exists>c cs. s = c # cs \<and> (c = CHR ''-'' \<or> isDigit c)"
  by (cases s) (auto simp: scanNum_def isDigit_def less_eq_char_def split: list.splits if_splits)

lemma number_start: "c = CHR ''-'' \<or> isDigit c \<Longrightarrow> c \<noteq> dquote \<and> c \<notin> set ''{[tfn''"
  by (auto simp: isDigit_def less_eq_char_def special_iff)

lemma isValue_number: "scanNum s = Some [] \<Longrightarrow> isValue d s"
proof -
  assume s: "scanNum s = Some []"
  then obtain c cs where c: "s = c # cs" "c = CHR ''-'' \<or> isDigit c" using number_head by blast
  note h = number_start[OF c(2)]
  have "skipValue d s = scalar s" by (rule skipValue_scalar[OF c(1)]) (use h in auto)
  then show ?thesis using s c h by (simp add: isValue_def scalar_def)
qed

lemma decAny_atom: "take 1 raw \<noteq> ''{'' \<Longrightarrow> take 1 raw \<noteq> ''['' \<Longrightarrow> decAny ff d raw = decAtom ff raw"
  by (cases d) simp_all

lemma sort_printed:
  "sorted_wrt (<) (map fst kvs) \<Longrightarrow> sort_key fst (map (\<lambda>(k, v). (k, f v)) kvs) = map (\<lambda>(k, v). (k, f v)) kvs"
proof -
  assume "sorted_wrt (<) (map fst kvs)"
  then have "sorted (map fst kvs)" by (simp add: strict_sorted_iff)
  moreover have "map fst (map (\<lambda>(k, v). (k, f v)) kvs) = map fst kvs" by auto
  ultimately show ?thesis by (metis sort_key_id_if_sorted)
qed

lemma printAny_value: "goodFloats ff \<Longrightarrow> okVal ff d v \<Longrightarrow> isValue d (printAny ff v)"
proof (induction ff v arbitrary: d rule: printAny.induct)
  case (3 ff x)
  then show ?case by (simp add: isValue_number goodFloats_def)
next
  case (5 ff vs)
  then obtain e where "d = Suc e" by (cases d) auto
  then show ?case using 5 by (auto simp: list_all_iff intro!: isValue_jsonArr)
next
  case (7 ff kvs)
  then obtain e where e: "d = Suc e" by (cases d) auto
  have "\<forall>m \<in> set (map (\<lambda>(k, v). (k, printAny ff v)) kvs). isValue e (snd m)"
    using 7 e by (fastforce simp: list_all_iff)
  then show ?case using 7(3) e isValue_jsonObj by (simp add: sort_printed)
qed simp_all

lemma putEntry_last: "\<forall>k' \<in> fst ` set acc. k' < k \<Longrightarrow> putEntry k v acc = acc @ [(k, v)]"
  by (induction acc) (auto simp: order.asym)

lemma decEntries_print:
  "sorted_wrt (<) (map fst (acc @ kvs)) \<Longrightarrow> \<forall>(k, v) \<in> set kvs. validUTF8 k \<and> dec (pr v) = Some v \<Longrightarrow>
     decEntries dec (map (map_prod escapeBody id) (map (\<lambda>(k, v). (k, pr v)) kvs)) acc = Some (acc @ kvs)"
proof (induction kvs arbitrary: acc)
  case (Cons kv kvs)
  obtain k v where kv: "kv = (k, v)" by fastforce
  have "putEntry k v acc = acc @ [(k, v)]"
    using Cons.prems(1) by (intro putEntry_last) (auto simp: kv sorted_wrt_append)
  then show ?case using Cons.IH[of "acc @ [(k, v)]"] Cons.prems by (simp add: kv)
qed simp

lemma those_print: "\<forall>x \<in> set xs. f (pr x) = Some x \<Longrightarrow> those (map (f \<circ> pr) xs) = Some xs"
  by (induction xs) simp_all

lemma decAny_print: "goodFloats ff \<Longrightarrow> okVal ff d v \<Longrightarrow> d \<le> maxNestingDepth \<Longrightarrow> decAny ff d (printAny ff v) = Some v"
proof (induction ff v arbitrary: d rule: printAny.induct)
  case (1 ff)
  show ?case by (simp add: decAny_atom decAtom_def isNull_def)
next
  case (2 ff b)
  show ?case by (simp add: decAny_atom decAtom_def isNull_def jsonBool_def)
next
  case (3 ff x)
  then have n: "scanNum (formatFloat ff x) = Some []" "parseFloat ff (formatFloat ff x) = Some x"
    by (simp_all add: goodFloats_def)
  obtain c cs where c: "formatFloat ff x = c # cs" "c = CHR ''-'' \<or> isDigit c" using number_head[OF n(1)] by blast
  note h = number_start[OF c(2)]
  have "decAny ff d (formatFloat ff x) = decAtom ff (formatFloat ff x)" using h c(1) by (intro decAny_atom) auto
  then show ?case using n h by (auto simp: decAtom_def isNull_def c(1))
next
  case (4 ff s)
  then show ?case by (simp add: decAny_atom decAtom_def isNull_def jsonQuote_def dquote_def)
next
  case (5 ff vs)
  then obtain e where e: "d = Suc e" by (cases d) auto
  have v: "\<forall>x \<in> set (map (printAny ff) vs). isValue maxNestingDepth x"
    using 5 e printAny_value[of ff e] isValue_mono[of e maxNestingDepth] by (auto simp: list_all_iff)
  have "those (map (decAny ff e \<circ> printAny ff) vs) = Some vs" using 5 e by (intro those_print) (auto simp: list_all_iff)
  then show ?case using arrayElems_jsonArr[OF v] e by (simp add: jsonArr_def)
next
  case (7 ff kvs)
  then obtain e where e: "d = Suc e" by (cases d) auto
  let ?ms = "map (\<lambda>(k, v). (k, printAny ff v)) kvs"
  have s: "sort_key fst ?ms = ?ms" using 7 by (intro sort_printed) simp
  have v: "\<forall>m \<in> set ?ms. isValue maxNestingDepth (snd m)"
    using 7 e printAny_value[of ff e] isValue_mono[of e maxNestingDepth] by (fastforce simp: list_all_iff)
  have "\<forall>(k, v) \<in> set kvs. validUTF8 k \<and> decAny ff e (printAny ff v) = Some v"
    using 7 e by (fastforce simp: list_all_iff)
  then have "decEntries (decAny ff e) (map (map_prod escapeBody id) ?ms) [] = Some kvs"
    using decEntries_print[of "[]" kvs "decAny ff e" "printAny ff"] 7 by simp
  then show ?case using objectMembers_jsonObj[OF v] s e by (simp add: jsonObj_def)
qed simp_all

section \<open>Conditions and grants read back\<close>

text \<open>A condition that was \<^verbatim>\<open>null\<close> in a list prints as an empty object, so printed text may be one
  level deeper than the text it was parsed from.\<close>

fun okCond :: "floats \<Rightarrow> nat \<Rightarrow> condition \<Rightarrow> bool" where
  "okCond ff d (Condition k ps op cs) =
     (validUTF8 k \<and> validUTF8 op
      \<and> (ps = [] \<or> 0 < d \<and> okVal ff (d - 1) (GMap ps))
      \<and> (cs = [] \<or> 2 \<le> d \<and> list_all (okCond ff (d - 2)) cs))"

definition okGrant :: "floats \<Rightarrow> nat \<Rightarrow> grant \<Rightarrow> bool" where
  "okGrant ff d g =
     (validUTF8 (Cap g) \<and> validUTF8 (Target g)
      \<and> (case Cond g of None \<Rightarrow> True | Some c \<Rightarrow> 0 < d \<and> okCond ff (d - 1) c))"

lemma condJSON_members:
  assumes "\<And>c. c \<in> set cs \<Longrightarrow> isValue e (condJSON ff c)" and "ps \<noteq> [] \<Longrightarrow> isValue (Suc e) (printAny ff (GMap ps))"
  shows "\<forall>m \<in> set (omitIf (k = []) (''kind'', jsonQuote k) @ omitIf (ps = []) (''params'', printAny ff (GMap ps)) @
      omitIf (op = []) (''op'', jsonQuote op) @ omitIf (cs = []) (''compose'', jsonArr (map (condJSON ff) cs))).
      isValue (Suc e) (snd m)"
proof -
  have "isValue (Suc e) (jsonArr (map (condJSON ff) cs))" using assms(1) by (intro isValue_jsonArr) auto
  then show ?thesis using assms(2) by (simp add: omitIf_def del: printAny.simps)
qed

lemma condJSON_value: "goodFloats ff \<Longrightarrow> okCond ff d c \<Longrightarrow> isValue (Suc d) (condJSON ff c)"
proof (induction ff c arbitrary: d rule: condJSON.induct)
  case (1 ff k ps op cs)
  show ?case
  proof (cases d)
    case 0
    then show ?thesis using 1 isValue_jsonObj[of _ 0] by (simp add: omitIf_def)
  next
    case (Suc e)
    have "isValue e (condJSON ff c)" if "c \<in> set cs" for c
    proof -
      have "2 \<le> d" "okCond ff (d - 2) c" using 1(3) that by (auto simp: list_all_iff)
      then show ?thesis using 1(1)[OF that 1(2), of "d - 2"] Suc by (simp add: Suc_diff_Suc numeral_2_eq_2)
    qed
    moreover have "ps \<noteq> [] \<Longrightarrow> isValue d (printAny ff (GMap ps))"
      using 1(3) printAny_value[OF 1(2), of "d - 1" "GMap ps"] isValue_mono[of "d - 1" d] by (simp del: printAny.simps okVal.simps)
    ultimately show ?thesis
      using isValue_jsonObj[OF condJSON_members[of cs e ff ps k op]] Suc by (simp del: printAny.simps)
  qed
qed

lemma cond_lookup:
  "lookupField (condFields ff rec) ''kind'' = Some (fieldDec decString Kind (\<lambda>v c. Condition v (Params c) (Op c) (Compose c)))"
  "lookupField (condFields ff rec) ''params'' =
     Some (fieldDec (decParams ff) Params (\<lambda>v c. Condition (Kind c) v (Op c) (Compose c)))"
  "lookupField (condFields ff rec) ''op'' = Some (fieldDec decString Op (\<lambda>v c. Condition (Kind c) (Params c) v (Compose c)))"
  "lookupField (condFields ff rec) ''compose'' =
     Some (fieldDec (decSlice rec zeroCond) Compose (\<lambda>v c. Condition (Kind c) (Params c) (Op c) v))"
  by (simp_all add: lookupField_def condFields_def)

lemma cond_keys: "validUTF8 ''kind''" "validUTF8 ''params''" "validUTF8 ''op''" "validUTF8 ''compose''"
  by (simp_all add: validUTF8_ascii)

lemma decParams_print:
  assumes "goodFloats ff" and "okVal ff d (GMap ps)" and "d \<le> maxNestingDepth"
  shows "decParams ff (printAny ff (GMap ps)) [] = Some ps"
proof -
  obtain e where e: "d = Suc e" using assms(2) by (cases d) auto
  let ?ms = "map (\<lambda>(k, v). (k, printAny ff v)) ps"
  have s: "sort_key fst ?ms = ?ms" using assms(2) by (intro sort_printed) simp
  have ok: "\<And>k v. (k, v) \<in> set ps \<Longrightarrow> validUTF8 k \<and> okVal ff e v" using assms(2) e by (auto simp: list_all_iff)
  have v: "\<forall>m \<in> set ?ms. isValue maxNestingDepth (snd m)"
    using ok printAny_value[OF assms(1)] isValue_mono[of e maxNestingDepth] assms(3) e by fastforce
  have "decAny ff maxNestingDepth (printAny ff v) = Some v" if "(k, v) \<in> set ps" for k v
    using ok[OF that] decAny_print[OF assms(1) _ order_refl] okVal_mono[of e maxNestingDepth] assms(3) e by simp
  then have "decEntries (decAny ff maxNestingDepth) (map (map_prod escapeBody id) ?ms) [] = Some ps"
    using decEntries_print[of "[]" ps "decAny ff maxNestingDepth" "printAny ff"] ok assms(2) by auto
  then show ?thesis
    using objectMembers_jsonObj[OF v] s by (simp add: decParams_def isNull_def jsonObj_def)
qed

lemma decCond_print:
  "goodFloats ff \<Longrightarrow> okCond ff d c \<Longrightarrow> d \<le> n \<Longrightarrow> d \<le> maxNestingDepth \<Longrightarrow>
     decCond ff (Suc n) (condJSON ff c) zeroCond = Some c"
proof (induction ff c arbitrary: d n rule: condJSON.induct)
  case (1 ff k ps op cs)
  let ?cs = "jsonArr (map (condJSON ff) cs)"
  have sub: "isValue maxNestingDepth (condJSON ff c) \<and> decCond ff n (condJSON ff c) zeroCond = Some c" if "c \<in> set cs" for c
  proof -
    have d: "2 \<le> d" "okCond ff (d - 2) c" using 1(3) that by (auto simp: list_all_iff)
    obtain j where "n = Suc j" "d - 2 \<le> j" using d(1) 1(4) by (cases n) auto
    then show ?thesis
      using 1(1)[OF that 1(2) d(2)] condJSON_value[OF 1(2) d(2)] isValue_mono[of "Suc (d - 2)" maxNestingDepth] 1(5) d(1) by simp
  qed
  have ps: "isValue maxNestingDepth (printAny ff (GMap ps)) \<and> decParams ff (printAny ff (GMap ps)) [] = Some ps" if "ps \<noteq> []"
    using 1(3,5) that printAny_value[OF 1(2), of "d - 1" "GMap ps"] decParams_print[OF 1(2), of "d - 1" ps]
      isValue_mono[of "d - 1" maxNestingDepth] by (simp del: printAny.simps okVal.simps)
  have el: "isValue (maxNestingDepth - 1) (condJSON ff c)" if "c \<in> set cs" for c
  proof -
    have "2 \<le> d" "okCond ff (d - 2) c" using 1(3) that by (auto simp: list_all_iff)
    then show ?thesis
      using condJSON_value[OF 1(2)] isValue_mono[of "Suc (d - 2)" "maxNestingDepth - 1"] 1(5) by simp
  qed
  have arr: "isValue maxNestingDepth ?cs"
    using isValue_jsonArr[of "map (condJSON ff) cs" "maxNestingDepth - 1"] el by (simp add: maxNestingDepth_def)
  have v: "\<forall>m \<in> set (omitIf (k = []) (''kind'', jsonQuote k) @ omitIf (ps = []) (''params'', printAny ff (GMap ps)) @
      omitIf (op = []) (''op'', jsonQuote op) @ omitIf (cs = []) (''compose'', ?cs)). isValue maxNestingDepth (snd m)"
    using ps arr by (simp add: omitIf_def del: printAny.simps)
  have sl: "decSlice (decCond ff n) zeroCond ?cs [] = Some cs" using sub by (intro decSlice_jsonArr) auto
  have u: "validUTF8 k" "validUTF8 op" using 1(3) by simp_all
  show ?case
    unfolding condJSON.simps decCond.simps decStruct_jsonObj[OF v]
    using ps u sl
    by (simp add: decMembers_append decMembers_omit cond_lookup cond_keys fieldDec_def zeroCond_def
        del: printAny.simps split: option.split)
qed

lemma grant_lookup:
  "lookupField (grantFields ff) ''cap'' = Some (fieldDec decString Cap (\<lambda>v. Cap_update (\<lambda>_. v)))"
  "lookupField (grantFields ff) ''target'' = Some (fieldDec decString Target (\<lambda>v. Target_update (\<lambda>_. v)))"
  "lookupField (grantFields ff) ''if'' =
     Some (fieldDec (decPtr (decCond ff maxNestingDepth) zeroCond) Cond (\<lambda>v. Cond_update (\<lambda>_. v)))"
  by (simp_all add: lookupField_def grantFields_def)

lemma grantJSON_reads:
  assumes "goodFloats ff" and "okGrant ff d g" and "d \<le> maxNestingDepth"
  shows "isValue (Suc d) (grantJSON ff g)" and "decStruct (grantFields ff) (grantJSON ff g) zeroGrant = Some g"
proof -
  let ?ms = "[(''cap'', jsonQuote (Cap g)), (''target'', jsonQuote (Target g))] @
      omitIf (Cond g = None) (''if'', case Cond g of None \<Rightarrow> ''null'' | Some c \<Rightarrow> condJSON ff c)"
  have c: "isValue d (condJSON ff c) \<and> decCond ff maxNestingDepth (condJSON ff c) zeroCond = Some c \<and> \<not> isNull (condJSON ff c)"
    if "Cond g = Some c" for c
  proof -
    have d: "0 < d" "okCond ff (d - 1) c" using assms(2) that by (simp_all add: okGrant_def)
    obtain j where "maxNestingDepth = Suc j" by (cases maxNestingDepth) (simp_all add: maxNestingDepth_def)
    then show ?thesis
      using condJSON_value[OF assms(1) d(2)] decCond_print[OF assms(1) d(2), of j] d(1) assms(3)
      by (cases c) (simp add: isNull_def jsonObj_def)
  qed
  have v: "\<forall>m \<in> set ?ms. isValue d (snd m)" using c by (auto simp: omitIf_def split: option.split)
  show "isValue (Suc d) (grantJSON ff g)" using isValue_jsonObj[OF v] by (simp add: grantJSON_def)
  have v': "\<forall>m \<in> set ?ms. isValue maxNestingDepth (snd m)" using v isValue_mono[OF assms(3)] by blast
  have k: "validUTF8 ''cap''" "validUTF8 ''target''" "validUTF8 ''if''" by (simp_all add: validUTF8_ascii)
  show "decStruct (grantFields ff) (grantJSON ff g) zeroGrant = Some g"
    unfolding grantJSON_def decStruct_jsonObj[OF v']
    using assms(2) c
    by (cases "Cond g"; cases g)
      (simp_all add: decMembers_append decMembers_omit grant_lookup k fieldDec_def zeroGrant_def okGrant_def decPtr_def
        omitIf_def)
qed

lemma grantsText_reads:
  assumes "goodFloats ff" and "list_all (okGrant ff d) gs" and "d < maxNestingDepth"
  shows "isValue (Suc (Suc d)) (grantsText ff isNil gs)"
    and "decSlice (decStruct (grantFields ff)) zeroGrant (grantsText ff isNil gs) [] = Some gs"
proof -
  have g: "isValue (Suc d) (grantJSON ff g)" "decStruct (grantFields ff) (grantJSON ff g) zeroGrant = Some g" if "g \<in> set gs" for g
    using grantJSON_reads[OF assms(1), of d g] assms(2,3) that by (auto simp: list_all_iff)
  then show "isValue (Suc (Suc d)) (grantsText ff isNil gs)"
    unfolding grantsText_def by (intro isValue_sliceJSON) blast
  have "isValue maxNestingDepth (grantJSON ff g)" if "g \<in> set gs" for g
    using g(1)[OF that] isValue_mono[of "Suc d" maxNestingDepth] assms(3) by simp
  then show "decSlice (decStruct (grantFields ff)) zeroGrant (grantsText ff isNil gs) [] = Some gs"
    unfolding grantsText_def using g(2) by (intro decSlice_sliceJSON) blast+
qed

text \<open>So the canonical form tells apart what the parser does.\<close>

lemma grantsText_inject:
  assumes "goodFloats ff" and "list_all (okGrant ff d) gs" and "list_all (okGrant ff d) gs'" and "d < maxNestingDepth"
    and "grantsText ff n gs = grantsText ff n' gs'"
  shows "gs = gs'"
  using grantsText_reads(2)[OF assms(1,2,4), of n] grantsText_reads(2)[OF assms(1,3,4), of n'] assms(5) by simp

section \<open>What the parser returns is well typed\<close>

lemma isValue_0: "isValue 0 raw \<Longrightarrow> take 1 raw \<noteq> ''{'' \<and> take 1 raw \<noteq> ''[''"
  by (cases raw) (auto simp: isValue_def skipValue.simps scalar_def special_iff isDigit_def less_eq_char_def)

lemma objectMembers_start: "objectMembers raw = Some ms \<Longrightarrow> take 1 raw = ''{''"
  and arrayElems_start: "arrayElems raw = Some vs \<Longrightarrow> take 1 raw = ''[''"
  by (simp_all add: objectMembers_def arrayElems_def split: if_splits)

lemma sepLoop_elements:
  "sepLoop (element (skipValue d)) close s = Some (vs, r) \<Longrightarrow> close \<in> set '']}'' \<Longrightarrow> v \<in> set vs \<Longrightarrow> isValue d v"
proof (induction "length s" arbitrary: s vs rule: less_induct)
  case less
  note ec = element_cuts[OF skipValue_cuts skipValue_stable skipValue_shrinks, of d]
  have v: "isValue d x" if "element (skipValue d) s = Some (x, c # r)" "c \<in> set '',]}''" for x c r
    using ec[of s x c r] that by (auto simp: isValue_def)
  from less.prems(1) show ?case
  proof (cases rule: sepLoopE)
    case (last x)
    then show ?thesis using v[of x close r] less.prems(2,3) by auto
  next
    case (more x r' ys)
    then show ?thesis using v[of x "CHR '',''" r'] less.hyps[of r' ys] less.prems(2,3) by auto
  qed
qed

lemma arrayElems_values:
  assumes "isValue (Suc d) raw" and "Suc d \<le> maxNestingDepth" and "arrayElems raw = Some vs" and "v \<in> set vs"
  shows "isValue d v"
proof -
  obtain s where s: "raw = CHR ''['' # s"
    using arrayElems_start[OF assms(3)] by (cases raw) auto
  then obtain xs where xs: "bracketed (element (skipValue d)) (CHR '']'') s = Some (xs, [])"
    using assms(1) by (auto simp: isValue_def skipValue.simps(2))
  then have "bracketed (element (skipValue maxNestingDepth)) (CHR '']'') s = Some (xs, [])"
    using weaker_bracketed[OF weaker_element[OF skipValue_mono[of d maxNestingDepth]], of "CHR '']''"] assms(2)
    unfolding weaker_def by simp
  then have "vs = xs" using assms(3) s by (simp add: arrayElems_def)
  then show ?thesis
    using xs assms(4) sepLoop_elements[of d "CHR '']''" "skipWS s" vs "[]" v]
    by (auto simp: bracketed_def split: list.splits if_splits)
qed

lemma decElems_typed:
  assumes "\<And>v old x. V v \<Longrightarrow> P old \<Longrightarrow> dec v old = Some x \<Longrightarrow> P x" and "P zero"
  shows "\<forall>v \<in> set vs. V v \<Longrightarrow> list_all P old \<Longrightarrow> decElems dec zero vs old = Some xs \<Longrightarrow> list_all P xs"
proof (induction vs arbitrary: old xs)
  case (Cons v vs)
  let ?o = "case old of [] \<Rightarrow> zero | x # _ \<Rightarrow> x"
  obtain x ys where x: "dec v ?o = Some x" "decElems dec zero vs (drop 1 old) = Some ys" "xs = x # ys"
    using Cons.prems(3) by (auto split: option.splits)
  have "P ?o" using Cons.prems(2) assms(2) by (cases old) simp_all
  then have "P x" using assms(1) x(1) Cons.prems(1) by auto
  moreover have "list_all P (drop 1 old)" using Cons.prems(2) by (cases old) simp_all
  ultimately show ?case using Cons.IH x Cons.prems(1) by auto
qed simp

lemma decSlice_typed:
  assumes "decSlice dec zero raw old = Some xs" and "isValue d raw" and "d \<le> maxNestingDepth"
    and "\<And>v old x. isValue (d - 1) v \<Longrightarrow> P old \<Longrightarrow> dec v old = Some x \<Longrightarrow> P x" and "P zero" and "list_all P old"
  shows "xs = [] \<or> 0 < d \<and> list_all P xs"
proof (cases "isNull raw")
  case False
  then obtain vs where vs: "arrayElems raw = Some vs" "decElems dec zero vs old = Some xs"
    using assms(1) by (auto simp: decSlice_def split: option.splits)
  then obtain e where e: "d = Suc e" using isValue_0 arrayElems_start assms(2) by (cases d) blast+
  have "\<forall>v \<in> set vs. isValue e v" using arrayElems_values[OF _ _ vs(1)] assms(2,3) e by blast
  then have "list_all P xs" using decElems_typed[of "isValue e" P dec zero vs old xs] assms(4-6) vs(2) e by simp
  then show ?thesis using e by simp
qed (use assms(1) in \<open>simp add: decSlice_def\<close>)

lemma set_putEntry: "set (putEntry k v acc) \<subseteq> insert (k, v) (set acc)"
  by (induction acc rule: putEntry.induct) auto

lemma sorted_putEntry: "sorted_wrt (<) (map fst acc) \<Longrightarrow> sorted_wrt (<) (map fst (putEntry k v acc))"
proof (induction acc rule: putEntry.induct)
  case (2 k v k' v' r)
  consider "k < k'" | "k = k'" | "k' < k" using less_linear by blast
  then show ?case
  proof cases
    case 1
    have "\<forall>x \<in> set (map fst r). k < x" using 2(2) 1 order.strict_trans by auto
    then show ?thesis using 1 2(2) by simp
  next
    case 2
    then show ?thesis using "2.prems" by simp
  next
    case 3
    have "\<forall>x \<in> set (map fst (putEntry k v r)). k' < x" using set_putEntry[of k v r] 2(2) 3 by auto
    moreover have "\<not> k < k'" "k \<noteq> k'" using 3 by auto
    ultimately show ?thesis using "2.IH" "2.prems" by simp
  qed
qed simp

lemma decEntries_typed:
  assumes "\<And>v x. V v \<Longrightarrow> dec v = Some x \<Longrightarrow> P x"
  shows "\<forall>m \<in> set ms. V (snd m) \<Longrightarrow> sorted_wrt (<) (map fst acc) \<Longrightarrow> \<forall>(k, v) \<in> set acc. validUTF8 k \<and> P v \<Longrightarrow>
    decEntries dec ms acc = Some kvs \<Longrightarrow> sorted_wrt (<) (map fst kvs) \<and> (\<forall>(k, v) \<in> set kvs. validUTF8 k \<and> P v)"
proof (induction ms arbitrary: acc)
  case (Cons m ms)
  obtain k v where kv: "unquote (fst m) = Some k" "dec (snd m) = Some v" "decEntries dec ms (putEntry k v acc) = Some kvs"
    using Cons.prems(4) by (auto split: option.splits)
  have "P v" using assms[OF _ kv(2)] Cons.prems(1) by simp
  then have "\<forall>(k, v) \<in> set (putEntry k v acc). validUTF8 k \<and> P v"
    using set_putEntry[of k v acc] Cons.prems(3) validUTF8_unquote[OF kv(1)] by fastforce
  moreover have "sorted_wrt (<) (map fst (putEntry k v acc))" by (rule sorted_putEntry[OF Cons.prems(2)])
  moreover have "\<forall>m \<in> set ms. V (snd m)" using Cons.prems(1) by simp
  ultimately show ?case using Cons.IH[of "putEntry k v acc"] kv(3) by blast
qed simp

lemma decAtom_typed: "goodFloats ff \<Longrightarrow> decAtom ff raw = Some v \<Longrightarrow> okVal ff d v"
  using validUTF8_unquote by (auto simp: decAtom_def goodFloats_def split: if_splits)

lemma those_mem: "those (map f xs) = Some ys \<Longrightarrow> y \<in> set ys \<Longrightarrow> \<exists>x \<in> set xs. f x = Some y"
  by (induction xs arbitrary: ys) (auto split: option.splits)

lemma decAny_typed:
  "goodFloats ff \<Longrightarrow> decAny ff n raw = Some v \<Longrightarrow> isValue d raw \<Longrightarrow> d \<le> maxNestingDepth \<Longrightarrow> okVal ff d v"
proof (induction n arbitrary: raw v d)
  case 0
  then show ?case using decAtom_typed by simp
next
  case (Suc n)
  consider (obj) "take 1 raw = ''{''" | (arr) "take 1 raw = ''[''" | (atom) "take 1 raw \<noteq> ''{''" "take 1 raw \<noteq> ''[''"
    by blast
  then show ?case
  proof cases
    case obj
    then obtain ms kvs where m: "objectMembers raw = Some ms" "decEntries (decAny ff n) ms [] = Some kvs" "v = GMap kvs"
      using Suc.prems(2) by (auto split: option.splits)
    obtain e where e: "d = Suc e" using isValue_0 obj Suc.prems(3) by (cases d) blast+
    have "\<forall>x \<in> set ms. isValue e (snd x)" using objectMembers_values[OF _ _ m(1)] Suc.prems(3,4) e by blast
    then have "sorted_wrt (<) (map fst kvs) \<and> (\<forall>(k, v) \<in> set kvs. validUTF8 k \<and> okVal ff e v)"
      using Suc.IH[OF Suc.prems(1)] Suc.prems(4) e m(2)
      by (intro decEntries_typed[where V = "isValue e" and dec = "decAny ff n" and ms = ms and acc = "[]"]) auto
    then show ?thesis using m(3) e by (simp add: list_all_iff)
  next
    case arr
    then obtain vs xs where x: "arrayElems raw = Some vs" "those (map (decAny ff n) vs) = Some xs" "v = GList xs"
      using Suc.prems(2) by (auto split: option.splits)
    obtain e where e: "d = Suc e" using isValue_0 arr Suc.prems(3) by (cases d) blast+
    have "okVal ff e y" if y: "y \<in> set xs" for y
    proof -
      obtain z where z: "z \<in> set vs" "decAny ff n z = Some y" using those_mem[OF x(2) y] by blast
      have "isValue e z" using arrayElems_values[OF _ _ x(1) z(1)] Suc.prems(3,4) e by blast
      then show ?thesis using Suc.IH[OF Suc.prems(1) z(2)] Suc.prems(4) e by simp
    qed
    then show ?thesis using x(3) e by (simp add: list_all_iff)
  next
    case atom
    then show ?thesis using decAtom_typed Suc.prems(1,2) by simp
  qed
qed

lemma decParams_typed:
  assumes "goodFloats ff" and "decParams ff raw old = Some ps" and "isValue d raw" and "d \<le> maxNestingDepth"
    and "old = [] \<or> okVal ff d (GMap old)"
  shows "ps = [] \<or> okVal ff d (GMap ps)"
proof (cases "isNull raw")
  case False
  then obtain ms where m: "objectMembers raw = Some ms" "decEntries (decAny ff maxNestingDepth) ms old = Some ps"
    using assms(2) by (auto simp: decParams_def split: option.splits)
  obtain e where e: "d = Suc e" using isValue_0 objectMembers_start[OF m(1)] assms(3) by (cases d) blast+
  have "\<forall>x \<in> set ms. isValue e (snd x)" using objectMembers_values[OF _ _ m(1)] assms(3,4) e by blast
  then have "sorted_wrt (<) (map fst ps) \<and> (\<forall>(k, v) \<in> set ps. validUTF8 k \<and> okVal ff e v)"
    using decAny_typed[OF assms(1)] assms(4,5) e m(2)
    by (intro decEntries_typed[where V = "isValue e" and dec = "decAny ff maxNestingDepth" and ms = ms and acc = old])
      (auto simp: list_all_iff)
  then show ?thesis using e by (auto simp: list_all_iff)
qed (use assms(2) in \<open>simp add: decParams_def\<close>)

lemma decStruct_typed:
  assumes "decStruct fs raw old = Some x" and "isValue d raw" and "d \<le> maxNestingDepth" and "P old"
    and "\<And>dec v r r'. dec \<in> snd ` set fs \<Longrightarrow> 0 < d \<Longrightarrow> isValue (d - 1) v \<Longrightarrow> P r \<Longrightarrow> dec v r = Some r' \<Longrightarrow> P r'"
  shows "P x"
proof (cases "isNull raw")
  case False
  then obtain ms where "objectMembers raw = Some ms" using assms(1) by (auto simp: decStruct_def split: option.splits)
  then obtain e where e: "d = Suc e" using isValue_0 objectMembers_start assms(2) by (cases d) blast+
  show ?thesis
    by (rule decStruct_inv[where P = P and d = e, OF _ _ _ assms(4,1)]) (use assms(2,3,5) e in auto)
qed (use assms(1,4) in \<open>simp add: decStruct_def\<close>)

lemma decString_field:
  "fieldDec decString get put v r = Some r' \<Longrightarrow> validUTF8 (get r) \<Longrightarrow> (\<And>s. validUTF8 s \<Longrightarrow> P (put s r)) \<Longrightarrow> P r'"
  using decString_valid[of v "get r"] by (auto simp: fieldDec_def)

lemma okCond_zero: "okCond ff d zeroCond"
  by (simp add: zeroCond_def)

lemma okCond_parts:
  "okCond ff d c \<longleftrightarrow>
     validUTF8 (Kind c) \<and> validUTF8 (Op c) \<and> (Params c = [] \<or> 0 < d \<and> okVal ff (d - 1) (GMap (Params c)))
     \<and> (Compose c = [] \<or> 2 \<le> d \<and> list_all (okCond ff (d - 2)) (Compose c))"
  by (cases c) (simp del: okVal.simps)

lemma decCond_typed:
  "goodFloats ff \<Longrightarrow> decCond ff n raw old = Some c \<Longrightarrow> isValue d raw \<Longrightarrow> d \<le> maxNestingDepth \<Longrightarrow> okCond ff d old \<Longrightarrow>
     okCond ff d c"
proof (induction n arbitrary: raw old c d)
  case 0
  then show ?case by (simp split: if_splits)
next
  case (Suc n)
  have f: "okCond ff d r'"
    if fs: "dec \<in> snd ` set (condFields ff (decCond ff n))" and d: "0 < d" and v: "isValue (d - 1) v"
      and r: "okCond ff d r" and r': "dec v r = Some r'" for dec v r r'
  proof -
    consider "dec = fieldDec decString Kind (\<lambda>v c. Condition v (Params c) (Op c) (Compose c))"
      | "dec = fieldDec (decParams ff) Params (\<lambda>v c. Condition (Kind c) v (Op c) (Compose c))"
      | "dec = fieldDec decString Op (\<lambda>v c. Condition (Kind c) (Params c) v (Compose c))"
      | "dec = fieldDec (decSlice (decCond ff n) zeroCond) Compose (\<lambda>v c. Condition (Kind c) (Params c) (Op c) v)"
      using fs by (auto simp: condFields_def)
    then show ?thesis
    proof cases
      case 1
      show ?thesis
        by (rule decString_field[OF r'[unfolded 1]]) (use r in \<open>simp_all add: okCond_parts del: okVal.simps\<close>)
    next
      case 2
      then obtain ps where ps: "decParams ff v (Params r) = Some ps" and c: "r' = Condition (Kind r) ps (Op r) (Compose r)"
        using r' by (auto simp: fieldDec_def)
      have "ps = [] \<or> okVal ff (d - 1) (GMap ps)"
        using decParams_typed[OF Suc.prems(1) ps v] Suc.prems(4) r by (auto simp: okCond_parts simp del: okVal.simps)
      then show ?thesis using r d by (simp add: c okCond_parts del: okVal.simps)
    next
      case 3
      show ?thesis
        by (rule decString_field[OF r'[unfolded 3]]) (use r in \<open>simp_all add: okCond_parts del: okVal.simps\<close>)
    next
      case 4
      then obtain cs where cs: "decSlice (decCond ff n) zeroCond v (Compose r) = Some cs"
        and c: "r' = Condition (Kind r) (Params r) (Op r) cs"
        using r' by (auto simp: fieldDec_def)
      have "cs = [] \<or> 0 < d - 1 \<and> list_all (okCond ff (d - 2)) cs"
      proof (rule decSlice_typed[OF cs v])
        show "okCond ff (d - 2) x" if "isValue (d - 1 - 1) u" "okCond ff (d - 2) o'" "decCond ff n u o' = Some x" for u o' x
          using Suc.IH[OF Suc.prems(1) that(3), of "d - 2"] that(1,2) Suc.prems(4) by (simp add: numeral_2_eq_2)
        show "list_all (okCond ff (d - 2)) (Compose r)" using r by (auto simp: okCond_parts)
      qed (use Suc.prems(4) okCond_zero in auto)
      then show ?thesis using r d by (auto simp: c okCond_parts simp del: okVal.simps)
    qed
  qed
  show ?case
    by (rule decStruct_typed[where P = "okCond ff d", OF Suc.prems(2)[unfolded decCond.simps] Suc.prems(3,4,5) f])
qed

lemma decGrant_typed:
  assumes "goodFloats ff" and "decStruct (grantFields ff) raw old = Some g" and "isValue d raw" and "d \<le> maxNestingDepth"
    and "okGrant ff d old"
  shows "okGrant ff d g"
proof (rule decStruct_typed[where P = "okGrant ff d", OF assms(2-5)])
  fix dec v r r'
  assume f: "dec \<in> snd ` set (grantFields ff)" and "0 < d" and v: "isValue (d - 1) v" and r: "okGrant ff d r" and r': "dec v r = Some r'"
  have "okCond ff (d - 1) c" if "decCond ff maxNestingDepth v (case Cond r of None \<Rightarrow> zeroCond | Some c \<Rightarrow> c) = Some c" for c
    using decCond_typed[OF assms(1) that v] assms(4) r okCond_zero by (auto simp: okGrant_def split: option.splits)
  then show "okGrant ff d r'"
    using f \<open>0 < d\<close> r r' decString_valid[of v "Cap r"] decString_valid[of v "Target r"]
    by (auto simp: grantFields_def fieldDec_def okGrant_def decPtr_def split: if_splits)
qed

text \<open>A manifest with its grants nested at most \<open>d\<close> deep.\<close>

definition typedManifest :: "floats \<Rightarrow> nat \<Rightarrow> manifest \<Rightarrow> bool" where
  "typedManifest ff d m =
     (validUTF8 (ID m) \<and> validUTF8 (AppVersion m) \<and> int64 (ManifestVersion m) \<and> typedBinary (Binary m)
      \<and> list_all validUTF8 (Exposes m) \<and> list_all (okGrant ff d) (Grants m) \<and> validUTF8 (Protection m)
      \<and> typedStore (Store m) \<and> list_all typedAffiliate (Affiliates m) \<and> list_all typedDependency (Depends m)
      \<and> list_all typedExtension (Extends m) \<and> list_all validUTF8 (DynamicExtends m))"

lemma decSlice_all:
  assumes "decSlice dec zero raw old = Some xs" and "isValue d raw" and "d \<le> maxNestingDepth"
    and "\<And>v old x. isValue (d - 1) v \<Longrightarrow> P old \<Longrightarrow> dec v old = Some x \<Longrightarrow> P x" and "P zero" and "list_all P old"
  shows "list_all P xs"
  using decSlice_typed[OF assms(1-3), of P] assms(4-6) by auto

lemma decStrings_typed:
  "decSlice decString [] raw old = Some xs \<Longrightarrow> isValue d raw \<Longrightarrow> d \<le> maxNestingDepth \<Longrightarrow> list_all validUTF8 old \<Longrightarrow>
     list_all validUTF8 xs"
  by (rule decSlice_all) (auto dest: decString_valid)

lemma decInt_int64: "decInt raw old = Some i \<Longrightarrow> int64 old \<Longrightarrow> int64 i"
  using atoi_int64[of raw i] by (auto simp: decInt_def int64_def split: if_splits)

lemma decBinary_typed:
  assumes "isValue d raw" and "d \<le> maxNestingDepth" and "decStruct binaryFields raw x = Some x'" and "typedBinary x"
  shows "typedBinary x'"
proof (rule decStruct_typed[where P = typedBinary, OF assms(3,1,2,4)])
  fix dec v r r'
  assume "dec \<in> snd ` set binaryFields" and "typedBinary r" and "dec v r = Some r'"
  then show "typedBinary r'"
    using decString_valid[of v] by (auto simp: binaryFields_def fieldDec_def typedBinary_def)
qed

lemma decStore_typed:
  assumes "isValue d raw" and "d \<le> maxNestingDepth" and "decStruct storeFields raw x = Some x'" and "typedStore x"
  shows "typedStore x'"
proof (rule decStruct_typed[where P = typedStore, OF assms(3,1,2,4)])
  fix dec v r r'
  assume "dec \<in> snd ` set storeFields" and "typedStore r" and "dec v r = Some r'"
  then show "typedStore r'"
    using decString_valid[of v] by (auto simp: storeFields_def fieldDec_def typedStore_def)
qed

lemma decAffiliate_typed:
  assumes "isValue d raw" and "d \<le> maxNestingDepth" and "decStruct affiliateFields raw x = Some x'" and "typedAffiliate x"
  shows "typedAffiliate x'"
proof (rule decStruct_typed[where P = typedAffiliate, OF assms(3,1,2,4)])
  fix dec v r r'
  assume "dec \<in> snd ` set affiliateFields" and "typedAffiliate r" and "dec v r = Some r'"
  then show "typedAffiliate r'"
    using decString_valid[of v] by (auto simp: affiliateFields_def fieldDec_def typedAffiliate_def)
qed

lemma decFlag_typed:
  assumes "isValue d raw" and "d \<le> maxNestingDepth" and "decStruct flagFields raw x = Some x'" and "typedFlag x"
  shows "typedFlag x'"
proof (rule decStruct_typed[where P = typedFlag, OF assms(3,1,2,4)])
  fix dec v r r'
  assume "dec \<in> snd ` set flagFields" and "typedFlag r" and "dec v r = Some r'"
  then show "typedFlag r'"
    using decString_valid[of v] by (auto simp: flagFields_def fieldDec_def typedFlag_def)
qed

lemma decDependency_typed:
  assumes "isValue d raw" and "d \<le> maxNestingDepth" and "decStruct dependencyFields raw x = Some x'" and "typedDependency x"
  shows "typedDependency x'"
proof (rule decStruct_typed[where P = typedDependency, OF assms(3,1,2,4)])
  fix dec v r r'
  assume "dec \<in> snd ` set dependencyFields" and "typedDependency r" and "dec v r = Some r'" and "isValue (d - 1) v"
  then show "typedDependency r'"
    using decString_valid[of v] decStrings_typed[of v "Methods r" _ "d - 1"] assms(2)
    by (auto simp: dependencyFields_def fieldDec_def typedDependency_def)
qed

lemma decExtension_typed:
  assumes "isValue d raw" and "d \<le> maxNestingDepth" and "decStruct extensionFields raw x = Some x'" and "typedExtension x"
  shows "typedExtension x'"
proof (rule decStruct_typed[where P = typedExtension, OF assms(3,1,2,4)])
  fix dec v r r'
  assume f: "dec \<in> snd ` set extensionFields" and v: "isValue (d - 1) v" and r: "typedExtension r" and r': "dec v r = Some r'"
  have "list_all typedFlag xs" if "decSlice (decStruct flagFields) zeroFlag v (AddsFlags r) = Some xs" for xs
  proof (rule decSlice_all[OF that v])
    show "typedFlag x" if "isValue (d - 1 - 1) u" "typedFlag old" "decStruct flagFields u old = Some x" for u old x
      using decFlag_typed[OF that(1) _ that(3,2)] assms(2) by simp
  qed (use assms(2) r in \<open>auto simp: typedExtension_def typedFlag_def zeroFlag_def\<close>)
  then show "typedExtension r'"
    using f r r' decString_valid[of v] decInt_int64[of v]
    by (auto simp: extensionFields_def fieldDec_def typedExtension_def)
qed

text \<open>A field is decoded from a value of its type to one of its type, and the struct stays well typed.\<close>

lemma fieldDec_typed:
  assumes "fieldDec dec get put v r = Some r'" and "\<And>x'. dec v (get r) = Some x' \<Longrightarrow> Q (get r) \<Longrightarrow> Q x'" and "Q (get r)"
    and "\<And>x. Q x \<Longrightarrow> P (put x r)"
  shows "P r'"
  using assms by (auto simp: fieldDec_def)

lemma decSlice_structs:
  assumes "decSlice dec zero v old = Some xs" and "list_all P old" and "isValue d v" and "d \<le> maxNestingDepth" and "P zero"
    and "\<And>u x x'. isValue (d - 1) u \<Longrightarrow> d - 1 \<le> maxNestingDepth \<Longrightarrow> dec u x = Some x' \<Longrightarrow> P x \<Longrightarrow> P x'"
  shows "list_all P xs"
  by (rule decSlice_all[OF assms(1,3,4) _ assms(5,2)]) (use assms(4) in \<open>auto intro: assms(6)\<close>)

lemma manifest_field_typed:
  assumes ff: "goodFloats ff" and fs: "dec \<in> snd ` set (manifestFields ff)" and v: "isValue e v" and le: "e \<le> maxNestingDepth"
    and d: "e - 1 = d" and r: "typedManifest ff d r" and r': "dec v r = Some r'"
  shows "typedManifest ff d r'"
proof -
  note r'' = r[unfolded typedManifest_def]
  have z: "okGrant ff d zeroGrant" "typedAffiliate zeroAffiliate" "typedDependency zeroDependency" "typedExtension zeroExtension" for d
    by (simp_all add: okGrant_def zeroGrant_def typedAffiliate_def zeroAffiliate_def typedDependency_def zeroDependency_def
      typedExtension_def zeroExtension_def int64_def)
  have g: "list_all (okGrant ff d) xs" if "decSlice (decStruct (grantFields ff)) zeroGrant v old = Some xs" "list_all (okGrant ff d) old"
    for old xs
    by (rule decSlice_structs[where P = "okGrant ff d", OF that v le z(1)]) (rule decGrant_typed[OF ff], use d in simp_all)
  consider
    "dec = fieldDec decString ID (\<lambda>v. ID_update (\<lambda>_. v))"
  | "dec = fieldDec decString AppVersion (\<lambda>v. AppVersion_update (\<lambda>_. v))"
  | "dec = fieldDec decInt ManifestVersion (\<lambda>v. ManifestVersion_update (\<lambda>_. v))"
  | "dec = fieldDec (decStruct binaryFields) Binary (\<lambda>v. Binary_update (\<lambda>_. v))"
  | "dec = fieldDec (decSlice decString []) Exposes (\<lambda>v. Exposes_update (\<lambda>_. v))"
  | "dec = fieldDec (decSlice (decStruct (grantFields ff)) zeroGrant) Grants (\<lambda>v. Grants_update (\<lambda>_. v))"
  | "dec = fieldDec decString Protection (\<lambda>v. Protection_update (\<lambda>_. v))"
  | "dec = fieldDec (decStruct storeFields) Store (\<lambda>v. Store_update (\<lambda>_. v))"
  | "dec = fieldDec (decSlice (decStruct affiliateFields) zeroAffiliate) Affiliates (\<lambda>v. Affiliates_update (\<lambda>_. v))"
  | "dec = fieldDec (decSlice (decStruct dependencyFields) zeroDependency) Depends (\<lambda>v. Depends_update (\<lambda>_. v))"
  | "dec = fieldDec (decSlice (decStruct extensionFields) zeroExtension) Extends (\<lambda>v. Extends_update (\<lambda>_. v))"
  | "dec = fieldDec (decSlice decString []) DynamicExtends (\<lambda>v. DynamicExtends_update (\<lambda>_. v))"
    using fs unfolding manifestFields_def by auto
  then show ?thesis
  proof cases
    case 1
    show ?thesis
      by (rule fieldDec_typed[where Q = "validUTF8", OF r'[unfolded 1]])
        (use r'' in \<open>simp_all add: typedManifest_def decString_valid\<close>)
  next
    case 2
    show ?thesis
      by (rule fieldDec_typed[where Q = "validUTF8", OF r'[unfolded 2]])
        (use r'' in \<open>simp_all add: typedManifest_def decString_valid\<close>)
  next
    case 3
    show ?thesis
      by (rule fieldDec_typed[where Q = "int64", OF r'[unfolded 3]])
        (use r'' in \<open>simp_all add: typedManifest_def decInt_int64\<close>)
  next
    case 4
    show ?thesis
      by (rule fieldDec_typed[where Q = "typedBinary", OF r'[unfolded 4]])
        (use r'' in \<open>simp_all add: typedManifest_def decBinary_typed[OF v le]\<close>)
  next
    case 5
    show ?thesis
      by (rule fieldDec_typed[where Q = "list_all validUTF8", OF r'[unfolded 5]])
        (use r'' in \<open>simp_all add: typedManifest_def decStrings_typed[OF _ v le]\<close>)
  next
    case 6
    show ?thesis
      by (rule fieldDec_typed[where Q = "list_all (okGrant ff d)", OF r'[unfolded 6]])
        (use r'' in \<open>simp_all add: typedManifest_def g\<close>)
  next
    case 7
    show ?thesis
      by (rule fieldDec_typed[where Q = "validUTF8", OF r'[unfolded 7]])
        (use r'' in \<open>simp_all add: typedManifest_def decString_valid\<close>)
  next
    case 8
    show ?thesis
      by (rule fieldDec_typed[where Q = "typedStore", OF r'[unfolded 8]])
        (use r'' in \<open>simp_all add: typedManifest_def decStore_typed[OF v le]\<close>)
  next
    case 9
    show ?thesis
      by (rule fieldDec_typed[where Q = "list_all typedAffiliate", OF r'[unfolded 9]])
        (use r'' in \<open>simp_all add: typedManifest_def decSlice_structs[where P = typedAffiliate, OF _ _ v le z(2) decAffiliate_typed]\<close>)
  next
    case 10
    show ?thesis
      by (rule fieldDec_typed[where Q = "list_all typedDependency", OF r'[unfolded 10]])
        (use r'' in \<open>simp_all add: typedManifest_def decSlice_structs[where P = typedDependency, OF _ _ v le z(3) decDependency_typed]\<close>)
  next
    case 11
    show ?thesis
      by (rule fieldDec_typed[where Q = "list_all typedExtension", OF r'[unfolded 11]])
        (use r'' in \<open>simp_all add: typedManifest_def decSlice_structs[where P = typedExtension, OF _ _ v le z(4) decExtension_typed]\<close>)
  next
    case 12
    show ?thesis
      by (rule fieldDec_typed[where Q = "list_all validUTF8", OF r'[unfolded 12]])
        (use r'' in \<open>simp_all add: typedManifest_def decStrings_typed[OF _ v le]\<close>)
  qed
qed

lemma Parse_typed:
  assumes "goodFloats ff" and "Parse ff data = Some m"
  shows "typedManifest ff (maxNestingDepth - 2) m"
proof -
  obtain raw where raw: "isValue maxNestingDepth raw" "decStruct (manifestFields ff) raw zeroManifest = Some m"
    using assms(2) unfolding Parse_def by (rule unmarshalE)
  have z: "typedManifest ff (maxNestingDepth - 2) zeroManifest"
    by (simp add: typedManifest_def zeroManifest_def int64_def typedBinary_def typedStore_def zeroBinary_def zeroStore_def)
  have e: "maxNestingDepth - 1 - 1 = maxNestingDepth - 2" by simp
  show ?thesis
  proof (rule decStruct_typed[where P = "typedManifest ff (maxNestingDepth - 2)", OF raw(2,1) order_refl z])
    fix dec v r r'
    assume f: "dec \<in> snd ` set (manifestFields ff)" "isValue (maxNestingDepth - 1) v" "typedManifest ff (maxNestingDepth - 2) r"
      "dec v r = Some r'"
    show "typedManifest ff (maxNestingDepth - 2) r'"
      by (rule manifest_field_typed[OF assms(1) f(1,2) _ e f(3,4)]) simp
  qed
qed

section \<open>The fuel is enough\<close>

text \<open>Validation has bounded the depth of the text, and more fuel than that depth changes nothing.\<close>

lemma decEntries_cong: "\<forall>m \<in> set ms. f (snd m) = g (snd m) \<Longrightarrow> decEntries f ms acc = decEntries g ms acc"
  by (induction ms arbitrary: acc) (auto split: option.split)

lemma decAny_fuel: "isValue d raw \<Longrightarrow> d \<le> maxNestingDepth \<Longrightarrow> d \<le> n \<Longrightarrow> decAny ff n raw = decAny ff d raw"
proof (induction d arbitrary: n raw)
  case 0
  then show ?case using isValue_0[of raw] by (cases n) simp_all
next
  case (Suc d)
  then obtain k where n: "n = Suc k" "d \<le> k" by (cases n) auto
  have o: "decEntries (decAny ff k) ms [] = decEntries (decAny ff d) ms []" if "objectMembers raw = Some ms" for ms
    using objectMembers_values[OF Suc.prems(1,2) that] Suc.IH[of _ k] Suc.prems(2) n by (intro decEntries_cong) simp
  have a: "those (map (decAny ff k) vs) = those (map (decAny ff d) vs)" if "arrayElems raw = Some vs" for vs
    using arrayElems_values[OF Suc.prems(1,2) that] Suc.IH[of _ k] Suc.prems(2) n by (intro arg_cong[where f = those] map_cong) simp_all
  show ?case using o a by (simp add: n(1) split: option.split)
qed

lemma lookupField_map: "lookupField (map (\<lambda>(k, f). (k, h f)) fs) key = map_option h (lookupField fs key)"
proof -
  have "map (\<lambda>(k, f). (foldName k, f)) (map (\<lambda>(k, f). (k, h f)) fs) = map (\<lambda>(k, f). (k, h f)) (map (\<lambda>(k, f). (foldName k, f)) fs)"
    by (simp add: case_prod_beta)
  then show ?thesis
    unfolding lookupField_def by (simp only: map_of_map o_apply) (cases "map_of fs key"; simp)
qed

lemma decMembers_cong:
  assumes "\<And>m f r. m \<in> set ms \<Longrightarrow> f \<in> snd ` set fs \<Longrightarrow> h f (snd m) r = g f (snd m) r"
  shows "decMembers (map (\<lambda>(k, f). (k, h f)) fs) ms r = decMembers (map (\<lambda>(k, f). (k, g f)) fs) ms r"
  using assms
proof (induction ms arbitrary: r)
  case (Cons m ms)
  have "h f (snd m) r = g f (snd m) r" if "lookupField fs key = Some f" for key f r
    using Cons.prems[of m f r] lookupField_mem[OF that] by simp
  moreover have "decMembers (map (\<lambda>(k, f). (k, h f)) fs) ms r = decMembers (map (\<lambda>(k, f). (k, g f)) fs) ms r" for r
    by (rule Cons.IH) (rule Cons.prems, simp_all)
  ultimately show ?case
    by (cases "unquote (fst m)"; cases "lookupField fs (the (unquote (fst m)))") (simp_all add: lookupField_map split: option.split)
qed simp

lemma condFields_map:
  "condFields ff rec = map (\<lambda>(k, f). (k, f rec))
     [(''kind'', \<lambda>_. fieldDec decString Kind (\<lambda>v c. Condition v (Params c) (Op c) (Compose c))),
      (''params'', \<lambda>_. fieldDec (decParams ff) Params (\<lambda>v c. Condition (Kind c) v (Op c) (Compose c))),
      (''op'', \<lambda>_. fieldDec decString Op (\<lambda>v c. Condition (Kind c) (Params c) v (Compose c))),
      (''compose'', \<lambda>rec. fieldDec (decSlice rec zeroCond) Compose (\<lambda>v c. Condition (Kind c) (Params c) (Op c) v))]"
  by (simp add: condFields_def)

lemma decElems_cong: "\<forall>v \<in> set vs. \<forall>x. f v x = g v x \<Longrightarrow> decElems f z vs old = decElems g z vs old"
  by (induction vs arbitrary: old) (auto split: option.split)

lemma decCond_fuel:
  "isValue d raw \<Longrightarrow> d \<le> maxNestingDepth \<Longrightarrow> d < n \<Longrightarrow> decCond ff n raw old = decCond ff (Suc d) raw old"
proof (induction d arbitrary: n raw old rule: less_induct)
  case (less d)
  then obtain k where n: "n = Suc k" "d \<le> k" by (cases n) auto
  have m: "decMembers (condFields ff (decCond ff k)) ms old = decMembers (condFields ff (decCond ff d)) ms old"
    if ms: "objectMembers raw = Some ms" for ms
  proof -
    obtain e where e: "d = Suc e" using isValue_0 objectMembers_start[OF ms] less.prems(1) by (cases d) blast+
    have sl: "decSlice (decCond ff k) zeroCond v cs = decSlice (decCond ff d) zeroCond v cs" if v: "v \<in> snd ` set ms" for v cs
    proof -
      have ve: "isValue e v" using objectMembers_values[OF _ _ ms] less.prems(1,2) v e by auto
      have "decElems (decCond ff k) zeroCond vs cs = decElems (decCond ff d) zeroCond vs cs" if vs: "arrayElems v = Some vs" for vs
      proof -
        have "take 1 v = ''[''" using vs by (auto simp: arrayElems_def split: if_splits)
        then obtain j where j: "e = Suc j" using isValue_0 ve by (cases e) blast+
        have "decCond ff k u x = decCond ff d u x" if "u \<in> set vs" for u x
        proof -
          have "isValue j u" using arrayElems_values[OF _ _ vs that] ve less.prems(2) j e by simp
          then show ?thesis using less.IH[of j u k x] less.IH[of j u d x] less.prems(2) n j e by simp
        qed
        then show ?thesis by (intro decElems_cong) blast
      qed
      then show ?thesis by (simp add: decSlice_def split: option.split)
    qed
    then have "decSlice (decCond ff k) zeroCond v cs = decSlice (decCond ff d) zeroCond v cs" if "(a, v) \<in> set ms" for a v cs
      using that by force
    then show ?thesis
      unfolding condFields_map by (intro decMembers_cong) (auto simp: fieldDec_def)
  qed
  show ?case using m by (simp add: n(1) decStruct_def split: option.split)
qed

section \<open>Manifests read back\<close>

lemma manifest_lookup:
  "lookupField (manifestFields ff) ''id'' = Some (fieldDec decString ID (\<lambda>v. ID_update (\<lambda>_. v)))"
  "lookupField (manifestFields ff) ''app_version'' = Some (fieldDec decString AppVersion (\<lambda>v. AppVersion_update (\<lambda>_. v)))"
  "lookupField (manifestFields ff) ''manifest_version'' =
     Some (fieldDec decInt ManifestVersion (\<lambda>v. ManifestVersion_update (\<lambda>_. v)))"
  "lookupField (manifestFields ff) ''binary'' = Some (fieldDec (decStruct binaryFields) Binary (\<lambda>v. Binary_update (\<lambda>_. v)))"
  "lookupField (manifestFields ff) ''exposes'' = Some (fieldDec (decSlice decString []) Exposes (\<lambda>v. Exposes_update (\<lambda>_. v)))"
  "lookupField (manifestFields ff) ''grants'' =
     Some (fieldDec (decSlice (decStruct (grantFields ff)) zeroGrant) Grants (\<lambda>v. Grants_update (\<lambda>_. v)))"
  "lookupField (manifestFields ff) ''protection'' = Some (fieldDec decString Protection (\<lambda>v. Protection_update (\<lambda>_. v)))"
  "lookupField (manifestFields ff) ''store'' = Some (fieldDec (decStruct storeFields) Store (\<lambda>v. Store_update (\<lambda>_. v)))"
  "lookupField (manifestFields ff) ''affiliates'' =
     Some (fieldDec (decSlice (decStruct affiliateFields) zeroAffiliate) Affiliates (\<lambda>v. Affiliates_update (\<lambda>_. v)))"
  "lookupField (manifestFields ff) ''depends'' =
     Some (fieldDec (decSlice (decStruct dependencyFields) zeroDependency) Depends (\<lambda>v. Depends_update (\<lambda>_. v)))"
  "lookupField (manifestFields ff) ''extends'' =
     Some (fieldDec (decSlice (decStruct extensionFields) zeroExtension) Extends (\<lambda>v. Extends_update (\<lambda>_. v)))"
  "lookupField (manifestFields ff) ''dynamic_extends'' =
     Some (fieldDec (decSlice decString []) DynamicExtends (\<lambda>v. DynamicExtends_update (\<lambda>_. v)))"
  by (simp_all add: lookupField_def manifestFields_def)

lemma manifest_keys:
  "validUTF8 ''id''" "validUTF8 ''app_version''" "validUTF8 ''manifest_version''" "validUTF8 ''binary''" "validUTF8 ''exposes''"
  "validUTF8 ''grants''" "validUTF8 ''protection''" "validUTF8 ''store''" "validUTF8 ''affiliates''" "validUTF8 ''depends''"
  "validUTF8 ''extends''" "validUTF8 ''dynamic_extends''"
  by (simp_all add: validUTF8_ascii)

lemma manifestMembers_values:
  assumes "goodFloats ff" and "typedManifest ff d m" and "d \<le> maxNestingDepth - 3"
  shows "\<forall>x \<in> set (manifestMembers ff gn dn m). isValue (maxNestingDepth - 1) (snd x)"
proof -
  have up: "k \<le> 4 \<Longrightarrow> isValue k v \<Longrightarrow> isValue (maxNestingDepth - 1) v" for k v
    by (erule isValue_mono[rotated]) (simp add: maxNestingDepth_def)
  have "isValue (Suc (Suc d)) (grantsText ff gn (Grants m))"
    using grantsText_reads(1)[OF assms(1)] assms(2,3) by (simp add: typedManifest_def maxNestingDepth_def)
  then have g: "isValue (maxNestingDepth - 1) (grantsText ff gn (Grants m))"
    by (rule isValue_mono[rotated]) (use assms(3) in \<open>simp add: maxNestingDepth_def\<close>)
  note t = assms(2)[unfolded typedManifest_def]
  have s: "list_all validUTF8 ss \<Longrightarrow> isValue (maxNestingDepth - 1) (jsonArr (map jsonQuote ss))" for ss
    by (rule up[OF _ js.slice_scans]) simp_all
  have a: "isValue (maxNestingDepth - 1) (jsonArr (map affiliateJSON (Affiliates m)))"
    by (rule up[OF _ jaff.slice_scans]) (use t in simp_all)
  have dp: "isValue (maxNestingDepth - 1) (jsonArr (map (\<lambda>d. dependencyJSON (dn d) d) (Depends m)))"
    by (rule up[OF _ jdep.slice_scans]) (use t in simp_all)
  have e: "isValue (maxNestingDepth - 1) (jsonArr (map extensionJSON (Extends m)))"
    by (rule up[OF _ jext.slice_scans]) (use t in simp_all)
  have "isValue (maxNestingDepth - 1) (binaryJSON (Binary m))" "isValue (maxNestingDepth - 1) (storeJSON (Store m))"
    using up[OF _ jbin.scans] up[OF _ jsto.scans] t by simp_all
  then show ?thesis using g s a dp e t by (simp add: manifestMembers_def omitIf_def)
qed

lemma manifest_reads:
  assumes "goodFloats ff" and "typedManifest ff d m" and "d \<le> maxNestingDepth - 3"
  shows "decStruct (manifestFields ff) (MarshalManifest ff gn dn m) zeroManifest = Some m"
proof -
  have v: "\<forall>x \<in> set (manifestMembers ff gn dn m). isValue maxNestingDepth (snd x)"
  proof
    fix x assume "x \<in> set (manifestMembers ff gn dn m)"
    then have "isValue (maxNestingDepth - 1) (snd x)" by (rule bspec[OF manifestMembers_values[OF assms]])
    then show "isValue maxNestingDepth (snd x)" by (rule isValue_mono[rotated]) simp
  qed
  note t = assms(2)[unfolded typedManifest_def]
  have g: "decSlice (decStruct (grantFields ff)) zeroGrant (grantsText ff gn (Grants m)) [] = Some (Grants m)"
  proof (rule grantsText_reads(2)[OF assms(1)])
    show "list_all (okGrant ff d) (Grants m)" using t by blast
    show "d < maxNestingDepth" using assms(3) by (simp add: maxNestingDepth_def)
  qed
  have s: "decSlice decString [] (jsonArr (map jsonQuote ss)) [] = Some ss" if "list_all validUTF8 ss" for ss
    by (rule js.slice_reads[OF that])
  have e: "decSlice (decStruct affiliateFields) zeroAffiliate (jsonArr (map affiliateJSON (Affiliates m))) [] = Some (Affiliates m)"
    "decSlice (decStruct dependencyFields) zeroDependency (jsonArr (map (\<lambda>d. dependencyJSON (dn d) d) (Depends m))) [] = Some (Depends m)"
    "decSlice (decStruct extensionFields) zeroExtension (jsonArr (map extensionJSON (Extends m))) [] = Some (Extends m)"
    "decStruct binaryFields (binaryJSON (Binary m)) zeroBinary = Some (Binary m)"
    "decStruct storeFields (storeJSON (Store m)) zeroStore = Some (Store m)"
    using t by (simp_all only: jaff.slice_reads jdep.slice_reads jext.slice_reads jbin.reads jsto.reads)
  have "decString (jsonQuote x) [] = Some x" if "validUTF8 x" for x by (rule js.reads[OF that])
  moreover have "decInt (showInt (ManifestVersion m)) 0 = Some (ManifestVersion m)" using t by (simp only: ji.reads)
  ultimately have str: "\<And>x. validUTF8 x \<Longrightarrow> decString (jsonQuote x) [] = Some x"
    "decInt (showInt (ManifestVersion m)) 0 = Some (ManifestVersion m)" by blast+
  have om:
    "Exposes r = [] \<Longrightarrow> decMembers (manifestFields ff) (map (map_prod escapeBody id) (omitIf (Exposes m = []) (''exposes'', jsonArr (map jsonQuote (Exposes m))))) r =
       Some (r\<lparr>Exposes := Exposes m\<rparr>)"
    "Protection r = [] \<Longrightarrow> decMembers (manifestFields ff) (map (map_prod escapeBody id) (omitIf (Protection m = []) (''protection'', jsonQuote (Protection m)))) r =
       Some (r\<lparr>Protection := Protection m\<rparr>)"
    "Affiliates r = [] \<Longrightarrow> decMembers (manifestFields ff) (map (map_prod escapeBody id) (omitIf (Affiliates m = []) (''affiliates'', jsonArr (map affiliateJSON (Affiliates m))))) r =
       Some (r\<lparr>Affiliates := Affiliates m\<rparr>)"
    "Depends r = [] \<Longrightarrow> decMembers (manifestFields ff) (map (map_prod escapeBody id) (omitIf (Depends m = []) (''depends'', jsonArr (map (\<lambda>d. dependencyJSON (dn d) d) (Depends m))))) r =
       Some (r\<lparr>Depends := Depends m\<rparr>)"
    "Extends r = [] \<Longrightarrow> decMembers (manifestFields ff) (map (map_prod escapeBody id) (omitIf (Extends m = []) (''extends'', jsonArr (map extensionJSON (Extends m))))) r =
       Some (r\<lparr>Extends := Extends m\<rparr>)"
    "DynamicExtends r = [] \<Longrightarrow> decMembers (manifestFields ff) (map (map_prod escapeBody id) (omitIf (DynamicExtends m = []) (''dynamic_extends'', jsonArr (map jsonQuote (DynamicExtends m))))) r =
       Some (r\<lparr>DynamicExtends := DynamicExtends m\<rparr>)"
    for r
    using t s e str by (cases r, simp add: decMembers_omit manifest_lookup manifest_keys fieldDec_def)+
  have "decMembers (manifestFields ff) (map (map_prod escapeBody id) (manifestMembers ff gn dn m)) zeroManifest =
      Some (zeroManifest\<lparr>ID := ID m, AppVersion := AppVersion m, ManifestVersion := ManifestVersion m, Binary := Binary m,
        Exposes := Exposes m, Grants := Grants m, Protection := Protection m, Store := Store m, Affiliates := Affiliates m,
        Depends := Depends m, Extends := Extends m, DynamicExtends := DynamicExtends m\<rparr>)"
    unfolding manifestMembers_def zeroManifest_def
    using t g e str by (simp add: decMembers_append om manifest_lookup manifest_keys fieldDec_def)
  moreover have "zeroManifest\<lparr>ID := ID m, AppVersion := AppVersion m, ManifestVersion := ManifestVersion m, Binary := Binary m,
        Exposes := Exposes m, Grants := Grants m, Protection := Protection m, Store := Store m, Affiliates := Affiliates m,
        Depends := Depends m, Extends := Extends m, DynamicExtends := DynamicExtends m\<rparr> = m"
    by (cases m) (simp add: zeroManifest_def)
  ultimately show ?thesis unfolding MarshalManifest_def decStruct_jsonObj[OF v] by simp
qed

lemma Parse_Marshal:
  assumes "goodFloats ff" and "typedManifest ff d m" and "d \<le> maxNestingDepth - 3"
  shows "Parse ff (MarshalManifest ff gn dn m) = Some m"
proof -
  have "isValue (Suc (maxNestingDepth - 1)) (MarshalManifest ff gn dn m)"
    unfolding MarshalManifest_def by (rule isValue_jsonObj[OF manifestMembers_values[OF assms]])
  then have "isValue maxNestingDepth (MarshalManifest ff gn dn m)" by (simp add: maxNestingDepth_def)
  then show ?thesis
    unfolding Parse_def by (simp add: unmarshal_value manifest_reads[OF assms])
qed

section \<open>Properties\<close>

text \<open>A concrete conversion: the integers of 64 bits, without fractions and exponents.\<close>

definition intFloats :: floats where
  "intFloats = \<lparr> isDouble = (\<lambda>x. of_int \<lfloor>x\<rfloor> = x \<and> int64 \<lfloor>x\<rfloor>), parseFloat = (\<lambda>s. map_option of_int (atoi s)),
     formatFloat = (\<lambda>x. showInt \<lfloor>x\<rfloor>) \<rparr>"

lemma scanNum_showInt: "scanNum (showInt i) = Some []"
proof -
  have "scanNum (CHR ''-'' # showNat n) = scanNum (showNat n)" for n
    using showNat_head[of n] isDigit_neq by (auto simp: scanNum_def)
  then show ?thesis by (simp add: showInt_def scanNum_showNat)
qed

lemma goodFloats_intFloats: "goodFloats intFloats"
proof -
  have "parseFloat intFloats (formatFloat intFloats x) = Some x" if "isDouble intFloats x" for x
    using that atoi_showInt[of "\<lfloor>x\<rfloor>"] by (simp add: intFloats_def int64_def)
  moreover have "scanNum (formatFloat intFloats x) = Some []" for x by (simp add: intFloats_def scanNum_showInt)
  moreover have "isDouble intFloats x" if p: "parseFloat intFloats s = Some x" for s x
  proof -
    obtain i where "atoi s = Some i" "x = of_int i" using p by (auto simp: intFloats_def)
    then show ?thesis using atoi_int64[of s i] by (simp only: intFloats_def int64_def floats.simps floor_of_int)
  qed
  ultimately show ?thesis by (simp add: goodFloats_def)
qed

text \<open>The example's grants with a condition: at most five, and one of two others.\<close>

definition exampleCondition :: condition where
  "exampleCondition = Condition ''rate'' [(''limit'', GNum 5), (''per'', GStr ''1m'')] ''any''
     [Condition [] [(''tags'', GList [GStr ''a'', GNil])] [] [], Condition ''true'' [] [] []]"

definition exampleManifest :: manifest where
  "exampleManifest = exampleSideload\<lparr>Grants := map (Cond_update (\<lambda>_. Some exampleCondition)) (Grants exampleSideload)\<rparr>"

lemma exampleSideload_typed: "typedManifest intFloats 10 exampleSideload"
proof -
  have "validUTF8 (replicate 64 (CHR ''0''))" "validUTF8 (''ed25519:'' @ replicate 43 (CHR ''A'') @ ''='')" by code_simp+
  then show ?thesis
    by (simp add: typedManifest_def exampleSideload_def okGrant_def typedBinary_def typedStore_def validUTF8_ascii int64_def)
qed

lemma exampleManifest_typed: "typedManifest intFloats 10 exampleManifest"
proof -
  have "validUTF8 (replicate 64 (CHR ''0''))" "validUTF8 (''ed25519:'' @ replicate 43 (CHR ''A'') @ ''='')" by code_simp+
  then show ?thesis
    by (simp add: typedManifest_def exampleManifest_def exampleSideload_def exampleCondition_def okGrant_def typedBinary_def
      typedStore_def validUTF8_ascii int64_def intFloats_def)
qed

text \<open>C16. Whatever text is parsed, the manifest is well typed: its texts are valid UTF-8, its integers fit an
  \<^verbatim>\<open>int\<close>, its numbers are \<^verbatim>\<open>float64\<close>, the parameters of its conditions are sorted by key without
  duplicates, and conditions nest no deeper than a parser of JSON allows.\<close>

theorem manifest_type_sound:
  assumes "goodFloats ff" and "Parse ff data = Some m"
  shows "typedManifest ff (maxNestingDepth - 2) m"
  using assms by (rule Parse_typed)

theorem manifest_type_sound_witness:
  "\<exists>data. Parse intFloats data = Some exampleManifest \<and> typedManifest intFloats (maxNestingDepth - 2) exampleManifest"
proof -
  have "Parse intFloats (MarshalManifest intFloats False (\<lambda>_. False) exampleManifest) = Some exampleManifest"
    by (rule Parse_Marshal[OF goodFloats_intFloats exampleManifest_typed]) (simp add: maxNestingDepth_def)
  then show ?thesis using manifest_type_sound[OF goodFloats_intFloats] by blast
qed

text \<open>C15. A manifest that a parser may have returned is printed to text that parses back to it, conditions
  and their parameters included. It may nest to one level less than what can be parsed, since a condition
  that was \<^verbatim>\<open>null\<close> in a list is printed as an empty object.\<close>

theorem manifest_roundtrip:
  assumes "goodFloats ff" and "typedManifest ff d m" and "d \<le> maxNestingDepth - 3"
  shows "Parse ff (MarshalManifest ff gn dn m) = Some m"
  using assms by (rule Parse_Marshal)

theorem manifest_roundtrip_witness:
  "Parse intFloats (MarshalManifest intFloats False (\<lambda>_. False) exampleManifest) = Some exampleManifest"
  by (rule manifest_roundtrip[OF goodFloats_intFloats exampleManifest_typed]) (simp add: maxNestingDepth_def)

text \<open>The canonical form is not the one with sorted keys: the keys of a grant stand in the order of the
  struct's fields, so the target comes before the condition.\<close>

theorem canonicalJSON_unsorted:
  "canonicalJSON ff False [\<lparr> Cap = c, Target = t, Cond = Some cd \<rparr>] =
     Some (jsonArr [jsonObj [(''cap'', jsonQuote c), (''target'', jsonQuote t), (''if'', condJSON ff cd)]])
   \<and> \<not> sorted [''cap'', ''target'', ''if'']"
proof -
  have "\<not> ''target'' \<le> ''if''" by code_simp
  then show ?thesis by (simp add: canonicalJSON_def grantsText_def sliceJSON_def grantJSON_def omitIf_def)
qed

end
