(* ===== verification/Signing.thy ===== *)
theory Signing
  imports Manifestjson
begin

text \<open>
  The trust chain of \<^verbatim>\<open>pkg/manifest/manifest.go\<close>: the signing payload, the signature
  check and the catalogue trust anchor. Base64 decoding and number printing are modelled; SHA-256,
  Ed25519 verification and the JSON encoding of the grants are the fields of a record \<open>crypto\<close>
  every definition that needs them takes as an argument.
\<close>

section \<open>Base64 (\<open>encoding/base64\<close>, standard alphabet with padding)\<close>

fun indexIn :: "char \<Rightarrow> string \<Rightarrow> nat option" where
  "indexIn c [] = None"
| "indexIn c (x # xs) = (if c = x then Some 0 else map_option Suc (indexIn c xs))"

definition b64Alphabet :: string where
  "b64Alphabet = upper @ lower @ digits @ ''+/''"

definition b64Val :: "char \<Rightarrow> nat option" where
  "b64Val c = indexIn c b64Alphabet"

text \<open>A quantum of four characters; padding may only end the last one, and the bits it leaves
  over are ignored (the decoder is not strict).\<close>

fun b64Quanta :: "string \<Rightarrow> bytes option" where
  "b64Quanta [] = Some []"
| "b64Quanta (a # b # c # d # rest) =
     (case (b64Val a, b64Val b) of
        (Some va, Some vb) \<Rightarrow>
          if c = CHR ''='' then
            (if d = CHR ''='' \<and> rest = [] then Some [char_of (va * 4 + vb div 16)] else None)
          else (case b64Val c of
            None \<Rightarrow> None
          | Some vc \<Rightarrow>
              if d = CHR ''='' then
                (if rest = [] then Some [char_of (va * 4 + vb div 16), char_of (vb mod 16 * 16 + vc div 4)]
                 else None)
              else (case (b64Val d, b64Quanta rest) of
                (Some vd, Some bs) \<Rightarrow>
                  Some (char_of (va * 4 + vb div 16) # char_of (vb mod 16 * 16 + vc div 4) #
                        char_of (vc mod 4 * 64 + vd) # bs)
              | _ \<Rightarrow> None))
      | _ \<Rightarrow> None)"
| "b64Quanta _ = None"

text \<open>Line breaks are skipped wherever they stand.\<close>

definition b64Decode :: "string \<Rightarrow> bytes option" where
  "b64Decode s = b64Quanta (filter (\<lambda>c. c \<noteq> CHR 0x0D \<and> c \<noteq> CHR 0x0A) s)"

section \<open>The trust chain\<close>

record crypto =
  csha256 :: "bytes \<Rightarrow> bytes"
  cverify :: "bytes \<Rightarrow> bytes \<Rightarrow> bytes \<Rightarrow> bool"
  cfloats :: floats

datatype sigErr =
    GrantsMarshal
  | PublisherPrefix
  | PublisherBase64
  | PublisherLength nat
  | SignatureBase64
  | SignatureLength nat
  | VerificationFailed

datatype keyErr = InvalidBase64 | WrongKeyLength nat

datatype anchorErr =
    NotPinned string
  | AnchorPublisher keyErr
  | AnchorCatalogue string keyErr
  | AnchorMismatch string string

definition signingPayload :: "crypto \<Rightarrow> manifest \<Rightarrow> sigErr + bytes" where
  "signingPayload cr m =
     (case canonicalJSON (cfloats cr) False (Grants m) of
        None \<Rightarrow> Inl GrantsMarshal
      | Some grantsJSON \<Rightarrow>
          (let grantsHash = csha256 cr grantsJSON in
           Inr (Publisher (Store m) @ '':'' @ ID m @ '':'' @ showInt (ManifestVersion m) @ '':'' @
                SHA256 (Binary m) @ '':'' @ hexEncode grantsHash)))"

definition decodeEd25519Pub :: "string \<Rightarrow> keyErr + bytes" where
  "decodeEd25519Pub s =
     (let raw = trimPrefix (trimSpace s) ''ed25519:'' in
      case b64Decode raw of
        None \<Rightarrow> Inl InvalidBase64
      | Some key \<Rightarrow> if length key \<noteq> 32 then Inl (WrongKeyLength (length key)) else Inr key)"

definition VerifyTrustAnchor :: "manifest \<Rightarrow> string \<Rightarrow> anchorErr option" where
  "VerifyTrustAnchor m cataloguePublisher =
     (if trimSpace cataloguePublisher = [] then Some (NotPinned (ID m))
      else (case decodeEd25519Pub (Publisher (Store m)) of
        Inl e \<Rightarrow> Some (AnchorPublisher e)
      | Inr pubkey \<Rightarrow> (case decodeEd25519Pub cataloguePublisher of
          Inl e \<Rightarrow> Some (AnchorCatalogue (ID m) e)
        | Inr trustedKey \<Rightarrow>
            if pubkey \<noteq> trustedKey then Some (AnchorMismatch (Publisher (Store m)) (ID m))
            else None)))"

definition VerifySignature :: "crypto \<Rightarrow> manifest \<Rightarrow> sigErr option" where
  "VerifySignature cr m =
     (if \<not> hasPrefix (Publisher (Store m)) ''ed25519:'' then Some PublisherPrefix
      else (case b64Decode (drop (length ''ed25519:'') (Publisher (Store m))) of
        None \<Rightarrow> Some PublisherBase64
      | Some pubkey \<Rightarrow>
          if length pubkey \<noteq> 32 then Some (PublisherLength (length pubkey))
          else (let sigRaw = trimPrefix (Signature (Store m)) ''ed25519:'' in
            case b64Decode sigRaw of
              None \<Rightarrow> Some SignatureBase64
            | Some sig \<Rightarrow>
                if length sig \<noteq> 64 then Some (SignatureLength (length sig))
                else (case signingPayload cr m of
                  Inl e \<Rightarrow> Some e
                | Inr payload \<Rightarrow>
                    if \<not> cverify cr pubkey payload sig then Some VerificationFailed else None))))"

section \<open>The payload determines what it signs\<close>

lemma class_no_colon:
  "CHR '':'' \<notin> set base64Class" "CHR '':'' \<notin> set hookClass" "CHR '':'' \<notin> set hexLower"
  "CHR '':'' \<notin> set digits"
  by code_simp+

lemma idShape_no_colon: "idShape s \<Longrightarrow> CHR '':'' \<notin> set s"
proof -
  assume "idShape s"
  then have p: "\<forall>p \<in> set (splitOn CHR ''.'' s). CHR '':'' \<notin> set p"
    using class_no_colon by (auto simp: idShape_def Let_def list_all_iff idSegmentShape_def)
  have "set s \<subseteq> insert (CHR ''.'') (\<Union> (set ` set (splitOn CHR ''.'' s)))"
  proof (induction s)
    case (Cons x s)
    obtain q qs where "splitOn CHR ''.'' s = q # qs" by (meson neq_Nil_conv splitOn_not_Nil)
    with Cons show ?case by auto
  qed simp
  with p show ?thesis by auto
qed

lemma signingPayload_split:
  assumes "valid_manifest m" and "signingPayload cr m = Inr payload"
  shows "\<exists>k gj. Publisher (Store m) = ''ed25519:'' @ k \<and> canonicalJSON (cfloats cr) False (Grants m) = Some gj \<and>
    splitOn CHR '':'' payload =
      [''ed25519'', k, ID m, showInt (ManifestVersion m), SHA256 (Binary m), hexEncode (csha256 cr gj)]"
proof -
  obtain gj where gj: "canonicalJSON (cfloats cr) False (Grants m) = Some gj"
    and p: "payload = Publisher (Store m) @ '':'' @ ID m @ '':'' @ showInt (ManifestVersion m) @ '':'' @
        SHA256 (Binary m) @ '':'' @ hexEncode (csha256 cr gj)"
    using assms(2) by (auto simp: signingPayload_def Let_def split: option.splits)
  obtain k where k: "Publisher (Store m) = ''ed25519:'' @ k" "set k \<subseteq> set base64Class"
    using assms(1) by (auto simp: valid_manifest_def pubkeyPattern_iff)
  have nc: "CHR '':'' \<notin> set k" "CHR '':'' \<notin> set (ID m)" "CHR '':'' \<notin> set (showInt (ManifestVersion m))"
    "CHR '':'' \<notin> set (SHA256 (Binary m))" "CHR '':'' \<notin> set (hexEncode (csha256 cr gj))"
    using k assms(1) class_no_colon idShape_no_colon set_showInt[of "ManifestVersion m"]
      set_hexEncode[of "csha256 cr gj"]
    by (auto simp: valid_manifest_def)
  have "payload = ''ed25519'' @ CHR '':'' # k @ CHR '':'' # ID m @ CHR '':'' # showInt (ManifestVersion m)
      @ CHR '':'' # SHA256 (Binary m) @ CHR '':'' # hexEncode (csha256 cr gj)"
    by (simp add: p k)
  then have "splitOn CHR '':'' payload =
      [''ed25519'', k, ID m, showInt (ManifestVersion m), SHA256 (Binary m), hexEncode (csha256 cr gj)]"
    by (simp only:) (subst splitOn_append_sep, simp add: nc, simp add: splitOn_append_sep splitOn_plain nc)
  with k gj show ?thesis by blast
qed

lemma trimPrefix_append [simp]: "trimPrefix (p @ s) p = s"
  by (simp add: trimPrefix_def)

lemma VerifySignature_cong:
  assumes "Store m' = Store m" and "signingPayload cr m' = signingPayload cr m"
  shows "VerifySignature cr m' = VerifySignature cr m"
  unfolding VerifySignature_def assms ..

section \<open>Properties\<close>

text \<open>Two valid manifests with the same signing payload agree on the publisher, the id, the
  manifest version, the binary's hash and the hash of the grants: no byte can move from one field
  of the payload into another.\<close>

theorem signingPayload_injective:
  assumes "valid_manifest m" "valid_manifest m'"
    and "signingPayload cr m = Inr payload" "signingPayload cr m' = Inr payload"
  shows "Publisher (Store m) = Publisher (Store m') \<and> ID m = ID m'
    \<and> ManifestVersion m = ManifestVersion m' \<and> SHA256 (Binary m) = SHA256 (Binary m')
    \<and> csha256 cr (grantsText (cfloats cr) False (Grants m)) = csha256 cr (grantsText (cfloats cr) False (Grants m'))"
  using signingPayload_split[OF assms(1,3)] signingPayload_split[OF assms(2,4)] by (auto simp: canonicalJSON_def)

definition exampleCrypto :: crypto where
  "exampleCrypto = \<lparr> csha256 = (\<lambda>b. take 32 (b @ replicate 32 (CHR 0x00))),
     cverify = (\<lambda>pk msg sig. sig = replicate 64 (CHR 0x00)), cfloats = intFloats \<rparr>"

theorem signingPayload_injective_witness:
  "\<exists>payload. signingPayload exampleCrypto exampleSideload = Inr payload
    \<and> Publisher (Store exampleSideload) = Publisher (Store (exampleSideload\<lparr>Exposes := []\<rparr>))
    \<and> ID exampleSideload = ID (exampleSideload\<lparr>Exposes := []\<rparr>)"
proof -
  have "Validate exampleSideload = []" "Validate (exampleSideload\<lparr>Exposes := []\<rparr>) = []" by code_simp+
  then have v: "valid_manifest exampleSideload" "valid_manifest (exampleSideload\<lparr>Exposes := []\<rparr>)"
    by (simp_all only: Validate_iff)
  obtain p where p: "signingPayload exampleCrypto exampleSideload = Inr p"
    by (simp add: signingPayload_def canonicalJSON_def)
  then have "signingPayload exampleCrypto (exampleSideload\<lparr>Exposes := []\<rparr>) = Inr p"
    by (simp add: signingPayload_def split: option.splits)
  with signingPayload_injective[OF v p] p show ?thesis by blast
qed

lemma trust_chain_key:
  assumes "VerifySignature cr m = None" and "VerifyTrustAnchor m cataloguePublisher = None"
    and "valid_manifest m"
  shows "trimSpace cataloguePublisher \<noteq> [] \<and>
    (\<exists>key sig payload. decodeEd25519Pub cataloguePublisher = Inr key \<and> length key = 32
       \<and> b64Decode (trimPrefix (Signature (Store m)) ''ed25519:'') = Some sig \<and> length sig = 64
       \<and> signingPayload cr m = Inr payload \<and> cverify cr key payload sig)"
proof -
  obtain k where k: "Publisher (Store m) = ''ed25519:'' @ k" "40 \<le> length k" "set k \<subseteq> set base64Class"
    using assms(3) by (auto simp: valid_manifest_def pubkeyPattern_iff)
  have "plainEnds (''ed25519:'' @ k)"
  proof -
    have "list_all (\<lambda>c. \<forall>p \<in> set spaceEncodings. last p \<noteq> c) base64Class" by code_simp
    then have "\<forall>p \<in> set spaceEncodings. last p \<noteq> last k"
      using k last_in_set[of k] by (auto simp only: list_all_iff subset_iff length_0_conv[symmetric])
    moreover have "\<forall>p \<in> set spaceEncodings. hd p \<noteq> CHR ''e''" by code_simp
    moreover have "k \<noteq> []" using k(2) by auto
    ultimately show ?thesis by (simp add: plainEnds_def)
  qed
  then have tp: "trimPrefix (trimSpace (Publisher (Store m))) ''ed25519:'' = k"
    by (simp only: k trimSpace_plainEnds trimPrefix_append)
  have dk: "drop (length ''ed25519:'') (Publisher (Store m)) = k" by (simp add: k)
  from assms(1) obtain pubkey sig payload where s: "b64Decode k = Some pubkey" "length pubkey = 32"
    "b64Decode (trimPrefix (Signature (Store m)) ''ed25519:'') = Some sig" "length sig = 64"
    "signingPayload cr m = Inr payload" "cverify cr pubkey payload sig"
    unfolding VerifySignature_def Let_def dk by (auto split: if_splits option.splits sum.splits)
  then have "decodeEd25519Pub (Publisher (Store m)) = Inr pubkey"
    by (simp add: decodeEd25519Pub_def tp del: append.simps)
  with assms(2) have "trimSpace cataloguePublisher \<noteq> []" "decodeEd25519Pub cataloguePublisher = Inr pubkey"
    by (auto simp: VerifyTrustAnchor_def split: if_splits sum.splits)
  with s show ?thesis by blast
qed

text \<open>C14. A manifest that passes both checks of the catalogue path was signed with the key the
  catalogue pins for the app: the pinned text decodes to 32 bytes and the 64 byte signature verifies
  under exactly that key over the manifest's payload.\<close>

theorem trust_chain:
  assumes "VerifySignature cr m = None" and "VerifyTrustAnchor m cataloguePublisher = None"
    and "valid_manifest m"
  shows "trimSpace cataloguePublisher \<noteq> [] \<and>
    (\<exists>key sig payload. decodeEd25519Pub cataloguePublisher = Inr key \<and> length key = 32
       \<and> b64Decode (trimPrefix (Signature (Store m)) ''ed25519:'') = Some sig \<and> length sig = 64
       \<and> signingPayload cr m = Inr payload \<and> cverify cr key payload sig)"
  using assms by (rule trust_chain_key)

definition exampleCatalogue :: manifest where
  "exampleCatalogue = exampleSideload\<lparr>Store := \<lparr> Publisher = ''ed25519:'' @ replicate 43 (CHR ''A'') @ ''='',
     Signature = replicate 86 (CHR ''A'') @ ''=='' \<rparr>\<rparr>"

lemma exampleCatalogue_ok:
  "VerifySignature exampleCrypto exampleCatalogue = None
   \<and> VerifyTrustAnchor exampleCatalogue ('' '' @ replicate 43 (CHR ''A'') @ ''='') = None
   \<and> Validate exampleCatalogue = []"
  by code_simp

theorem trust_chain_witness:
  "\<exists>key sig payload. decodeEd25519Pub ('' '' @ replicate 43 (CHR ''A'') @ ''='') = Inr key \<and> length key = 32
     \<and> b64Decode (trimPrefix (Signature (Store exampleCatalogue)) ''ed25519:'') = Some sig \<and> length sig = 64
     \<and> signingPayload exampleCrypto exampleCatalogue = Inr payload \<and> cverify exampleCrypto key payload sig"
proof -
  have "valid_manifest exampleCatalogue" using exampleCatalogue_ok by (simp only: Validate_iff)
  with exampleCatalogue_ok show ?thesis
    by (elim conjE) (rule trust_chain[THEN conjunct2])
qed

text \<open>The signature covers nothing else: the check's result is the same for every app version,
  exposed method list, protection, runtime, binary path, affiliates, dependencies and hooks, so a
  signed manifest can be relabelled with another app version and still verify.\<close>

theorem VerifySignature_uncovered:
  "VerifySignature cr (m\<lparr>AppVersion := v, Exposes := ex, Protection := pr, Affiliates := af,
      Depends := de, Extends := xt, DynamicExtends := dx,
      Binary := (Binary m)\<lparr>Runtime := rt, Path := pt\<rparr>\<rparr>) = VerifySignature cr m"
  by (rule VerifySignature_cong) (simp_all add: signingPayload_def split: option.split)

end
