(* ===== verification/Paths.thy ===== *)
theory Paths
  imports Prelude
begin

text \<open>
  Lexical paths: \<^verbatim>\<open>filepath.Clean\<close>, \<^verbatim>\<open>Join\<close>, \<^verbatim>\<open>Abs\<close> and
  \<^verbatim>\<open>IsAbs\<close> as their documentation gives them for a slash-separated system, and
  \<^verbatim>\<open>resolveUnder\<close> of \<^verbatim>\<open>plugin/appstore/supervisor.go\<close>, which keeps a manifest's
  binary path below the app's directory. The working directory is an argument, \<open>None\<close> when it cannot
  be read.
\<close>

section \<open>The path functions\<close>

definition slash :: char where "slash = CHR ''/''"

text \<open>One component onto the stack of those kept so far, the last one on top.\<close>

definition cleanStep :: "bool \<Rightarrow> string list \<Rightarrow> string \<Rightarrow> string list" where
  "cleanStep rooted st c =
     (if c = [] \<or> c = ''.'' then st
      else if c = ''..'' then
        (if st \<noteq> [] \<and> hd st \<noteq> ''..'' then tl st else if rooted then st else c # st)
      else c # st)"

definition Clean :: "string \<Rightarrow> string" where
  "Clean path =
     (if path = [] then ''.''
      else let rooted = (hd path = slash);
               cs = rev (foldl (cleanStep rooted) [] (splitOn slash path));
               body = joinWith slash cs
           in if rooted then slash # body else if cs = [] then ''.'' else body)"

lemma Clean_nonempty: "Clean path \<noteq> []"
proof -
  have "[] \<notin> set (foldl (cleanStep rooted) st cs)" if "[] \<notin> set st" for rooted st cs
    using that
  proof (induction cs arbitrary: st)
    case (Cons c cs)
    have "set (cleanStep rooted st c) \<subseteq> insert c (set st)" by (cases st) (auto simp: cleanStep_def)
    moreover have "c = [] \<Longrightarrow> cleanStep rooted st c = st" by (simp add: cleanStep_def)
    ultimately have "[] \<notin> set (cleanStep rooted st c)" using Cons.prems by force
    then show ?case using Cons.IH by simp
  qed simp
  from this[of "[]" "hd path = slash" "splitOn slash path"]
  have "[] \<notin> set (rev (foldl (cleanStep (hd path = slash)) [] (splitOn slash path)))" by simp
  moreover have "joinWith slash cs \<noteq> []" if "[] \<notin> set cs" "cs \<noteq> []" for cs
    using that by (cases cs; cases "tl cs") (auto simp: joinWith_Cons)
  ultimately show ?thesis by (auto simp: Clean_def Let_def)
qed

definition Join :: "string list \<Rightarrow> string" where
  "Join elems = (case dropWhile (\<lambda>e. e = []) elems of [] \<Rightarrow> [] | es \<Rightarrow> Clean (joinWith slash es))"

definition IsAbs :: "string \<Rightarrow> bool" where
  "IsAbs path = hasPrefix path [slash]"

definition Abs :: "string option \<Rightarrow> string \<Rightarrow> string option" where
  "Abs cwd path = (if IsAbs path then Some (Clean path) else map_option (\<lambda>wd. Join [wd, path]) cwd)"

datatype pathErr = EmptyPath | AbsolutePath | AbsBase | PathEscapes string

definition resolveUnder :: "string option \<Rightarrow> string \<Rightarrow> string \<Rightarrow> pathErr + string" where
  "resolveUnder cwd base rel =
     (if rel = [] then Inl EmptyPath
      else if IsAbs rel then Inl AbsolutePath
      else (case Abs cwd base of
          None \<Rightarrow> Inl AbsBase
        | Some absBase \<Rightarrow>
            (let joined = Clean (Join [absBase, rel])
             in if joined \<noteq> absBase \<and> \<not> hasPrefix joined (absBase @ [slash]) then Inl (PathEscapes absBase)
                else Inr joined)))"

section \<open>Cleaned absolute paths\<close>

definition plainComp :: "string \<Rightarrow> bool" where
  "plainComp c \<longleftrightarrow> c \<noteq> [] \<and> c \<noteq> ''.'' \<and> c \<noteq> ''..'' \<and> slash \<notin> set c"

definition absPath :: "string list \<Rightarrow> string" where
  "absPath cs = slash # joinWith slash cs"

lemma cleanStep_plain: "plainComp c \<Longrightarrow> cleanStep r st c = c # st"
  by (simp add: cleanStep_def plainComp_def)

lemma cleanStep_keeps: "list_all plainComp st \<Longrightarrow> slash \<notin> set c \<Longrightarrow> list_all plainComp (cleanStep True st c)"
  by (cases st) (auto simp: cleanStep_def plainComp_def)

lemma foldl_cleanStep_keeps:
  "list_all plainComp st \<Longrightarrow> \<forall>c \<in> set cs. slash \<notin> set c \<Longrightarrow> list_all plainComp (foldl (cleanStep True) st cs)"
  by (induction cs arbitrary: st) (simp_all add: cleanStep_keeps)

lemma foldl_cleanStep_plain: "list_all plainComp cs \<Longrightarrow> foldl (cleanStep r) st cs = rev cs @ st"
  by (induction cs arbitrary: st) (simp_all add: cleanStep_plain)

lemma cleanStep_empty [simp]: "cleanStep r st [] = st"
  by (simp add: cleanStep_def)

lemma splitOn_all: "\<forall>c \<in> set (splitOn slash s). slash \<notin> set c"
  using splitOn_no_sep by blast

text \<open>A rooted path cleans to the kept components, starting from those of the part before it.\<close>

definition walk :: "string list \<Rightarrow> string \<Rightarrow> string list" where
  "walk bs rel = rev (foldl (cleanStep True) (rev bs) (splitOn slash rel))"

lemma walk_plain: "list_all plainComp bs \<Longrightarrow> list_all plainComp (walk bs rel)"
  using foldl_cleanStep_keeps[of "rev bs" "splitOn slash rel"] splitOn_all
  by (auto simp: walk_def list_all_iff)

lemma Clean_rooted: "Clean (slash # s) = absPath (walk [] s)"
  by (simp add: Clean_def absPath_def walk_def)

lemma splitOn_joinWith_append:
  assumes "list_all plainComp bs" "bs \<noteq> []"
  shows "splitOn slash (joinWith slash bs @ slash # s) = bs @ splitOn slash s"
  using assms
proof (induction bs)
  case (Cons b bs)
  then show ?case
    by (cases "bs = []") (simp_all add: joinWith_Cons splitOn_append_sep plainComp_def)
qed simp

lemma Clean_absPath_append:
  assumes "list_all plainComp bs"
  shows "Clean (absPath bs @ slash # rel) = absPath (walk bs rel)"
proof (cases "bs = []")
  case True
  then show ?thesis by (simp add: absPath_def Clean_rooted walk_def)
next
  case False
  have "Clean (absPath bs @ slash # rel) = absPath (walk [] (joinWith slash bs @ slash # rel))"
    by (simp add: absPath_def Clean_rooted)
  then show ?thesis
    using assms False
    by (simp add: walk_def splitOn_joinWith_append foldl_cleanStep_plain)
qed

lemma Clean_absPath [simp]:
  assumes "list_all plainComp cs"
  shows "Clean (absPath cs) = absPath cs"
proof (cases "cs = []")
  case True
  then show ?thesis by (simp add: absPath_def Clean_rooted walk_def)
next
  case False
  then have "splitOn slash (joinWith slash cs) = cs"
    using assms by (intro splitOn_joinWith) (auto simp: list_all_iff plainComp_def)
  then show ?thesis
    using assms Clean_rooted[of "joinWith slash cs"] by (simp add: absPath_def walk_def foldl_cleanStep_plain)
qed

lemma joinWith_inject:
  assumes "list_all plainComp as" "list_all plainComp bs" "joinWith slash as = joinWith slash bs"
  shows "as = bs"
proof -
  have ne: "joinWith slash cs = [] \<longleftrightarrow> cs = []" if "list_all plainComp cs" for cs
    using that by (cases cs; cases "tl cs") (auto simp: plainComp_def)
  have sp: "cs = [] \<or> splitOn slash (joinWith slash cs) = cs" if "list_all plainComp cs" for cs
    using that by (cases "cs = []") (auto intro!: splitOn_joinWith simp: list_all_iff plainComp_def)
  show ?thesis using ne[OF assms(1)] ne[OF assms(2)] sp[OF assms(1)] sp[OF assms(2)] assms(3) by metis
qed

text \<open>The prefix test of \<^verbatim>\<open>resolveUnder\<close> on cleaned paths is a prefix test on components, but for the
  root directory, below which it finds nothing.\<close>

lemma hasPrefix_absPath:
  assumes "list_all plainComp js" "list_all plainComp bs"
  shows "hasPrefix (absPath js) (absPath bs @ [slash]) \<longleftrightarrow> bs \<noteq> [] \<and> (\<exists>c cs. js = bs @ c # cs)"
proof
  assume "hasPrefix (absPath js) (absPath bs @ [slash])"
  then obtain rest where r: "joinWith slash js = joinWith slash bs @ slash # rest"
    by (auto simp: hasPrefix_def prefix_def absPath_def)
  have js: "js \<noteq> []" using r by auto
  then have spl: "splitOn slash (joinWith slash js) = js"
    using assms(1) by (intro splitOn_joinWith) (auto simp: list_all_iff plainComp_def)
  have bs: "bs \<noteq> []"
  proof
    assume "bs = []"
    then have "js = [] # splitOn slash rest" using r spl by simp
    with assms(1) show False by (simp add: plainComp_def)
  qed
  have "js = bs @ splitOn slash rest" using spl r splitOn_joinWith_append[OF assms(2) bs] by metis
  with bs show "bs \<noteq> [] \<and> (\<exists>c cs. js = bs @ c # cs)" by (metis neq_Nil_conv splitOn_not_Nil)
next
  assume "bs \<noteq> [] \<and> (\<exists>c cs. js = bs @ c # cs)"
  then obtain c cs where bs: "bs \<noteq> []" and js: "js = bs @ c # cs" by blast
  have "joinWith slash (bs @ c # cs) = joinWith slash bs @ slash # joinWith slash (c # cs)"
    using bs
  proof (induction bs)
    case (Cons b bs)
    then show ?case by (cases "bs = []") (simp_all add: joinWith_Cons)
  qed simp
  then show "hasPrefix (absPath js) (absPath bs @ [slash])"
    by (simp add: js hasPrefix_def absPath_def prefix_def)
qed

lemma absPath_inject: "list_all plainComp as \<Longrightarrow> list_all plainComp bs \<Longrightarrow> absPath as = absPath bs \<longleftrightarrow> as = bs"
  by (auto simp: absPath_def joinWith_inject)

lemma Abs_absPath:
  assumes "Abs cwd base = Some b" and "\<And>wd. cwd = Some wd \<Longrightarrow> IsAbs wd"
  obtains bs where "b = absPath bs" "list_all plainComp bs"
proof -
  have cl: "\<exists>bs. Clean p = absPath bs \<and> list_all plainComp bs" if "IsAbs p" for p
    using that walk_plain[of "[]"] by (auto simp: IsAbs_def hasPrefix_def prefix_def Clean_rooted)
  show thesis
  proof (cases "IsAbs base")
    case True
    then show thesis using assms(1) cl that by (auto simp: Abs_def)
  next
    case False
    then obtain wd where wd: "cwd = Some wd" "IsAbs wd" "b = Join [wd, base]"
      using assms by (auto simp: Abs_def)
    have "wd \<noteq> []" using wd(2) by (auto simp: IsAbs_def hasPrefix_def)
    then have "b = Clean (wd @ slash # base)" using wd(3) by (simp add: Join_def)
    moreover have "IsAbs (wd @ slash # base)" using wd(2) by (auto simp: IsAbs_def hasPrefix_def prefix_def)
    ultimately show thesis using cl that by blast
  qed
qed

lemma resolveUnder_eq:
  assumes "Abs cwd base = Some (absPath bs)" and "list_all plainComp bs"
  shows "resolveUnder cwd base rel =
    (if rel = [] then Inl EmptyPath else if IsAbs rel then Inl AbsolutePath
     else if walk bs rel = bs \<or> bs \<noteq> [] \<and> (\<exists>c cs. walk bs rel = bs @ c # cs) then Inr (absPath (walk bs rel))
     else Inl (PathEscapes (absPath bs)))"
proof -
  have "Clean (Join [absPath bs, rel]) = absPath (walk bs rel)"
    using Clean_absPath_append[OF assms(2), of rel] walk_plain[OF assms(2), of rel]
    by (simp add: Join_def absPath_def[of bs])
  then show ?thesis
    using assms walk_plain[OF assms(2), of rel]
    by (auto simp: resolveUnder_def Let_def hasPrefix_absPath absPath_inject)
qed

lemma resolveUnder_inside:
  assumes "resolveUnder cwd base rel = Inr p" and "\<And>wd. cwd = Some wd \<Longrightarrow> IsAbs wd"
  shows "\<exists>bs cs. Abs cwd base = Some (absPath bs) \<and> p = absPath (bs @ cs) \<and> list_all plainComp (bs @ cs)"
proof -
  obtain b where b: "Abs cwd base = Some b"
    using assms(1) by (auto simp: resolveUnder_def split: if_splits option.splits)
  obtain bs where bs: "b = absPath bs" "list_all plainComp bs" using Abs_absPath[OF b assms(2)] by blast
  have "p = absPath (walk bs rel) \<and> (\<exists>cs. walk bs rel = bs @ cs)"
    using assms(1) resolveUnder_eq[of cwd base bs rel] b bs by (auto split: if_splits)
  then obtain cs where "p = absPath (bs @ cs)" "walk bs rel = bs @ cs" by auto
  then show ?thesis using b bs walk_plain[OF bs(2), of rel] by (intro exI[of _ bs] exI[of _ cs]) simp
qed

text \<open>C31. A binary path that resolves stays below the app's directory: the result is the directory's
  absolute path followed by components none of which is empty, dot, dot-dot or contains a slash,
  whatever the manifest says.\<close>

theorem resolveUnder_contained:
  assumes "resolveUnder cwd base rel = Inr p" and "\<And>wd. cwd = Some wd \<Longrightarrow> IsAbs wd"
  shows "\<exists>bs cs. Abs cwd base = Some (absPath bs) \<and> p = absPath (bs @ cs) \<and> list_all plainComp (bs @ cs)"
  using assms by (rule resolveUnder_inside)

theorem resolveUnder_contained_witness:
  "\<exists>bs cs. Abs None ''/apps/io.a'' = Some (absPath bs) \<and> ''/apps/io.a/bin/x'' = absPath (bs @ cs) \<and> list_all plainComp (bs @ cs)"
  by (rule resolveUnder_contained[where rel = "''lib/.././bin//x''"]) code_simp+

text \<open>Every ordinary relative path is accepted as it stands: below a directory other than the root,
  a path of plain components resolves to the directory followed by them.\<close>

lemma resolveUnder_plain:
  assumes "Abs cwd base = Some (absPath bs)" and "list_all plainComp bs" and "bs \<noteq> []"
    and "list_all plainComp cs" and "cs \<noteq> []"
  shows "resolveUnder cwd base (joinWith slash cs) = Inr (absPath (bs @ cs))"
proof -
  have spl: "splitOn slash (joinWith slash cs) = cs"
    using assms(4,5) by (intro splitOn_joinWith) (auto simp: list_all_iff plainComp_def)
  obtain c cs' where cs: "cs = c # cs'" using assms(5) by (cases cs) auto
  have "joinWith slash cs \<noteq> []" "\<not> IsAbs (joinWith slash cs)"
    using assms(4) cs by (cases c; cases cs'; auto simp: plainComp_def IsAbs_def hasPrefix_def)+
  moreover have "walk bs (joinWith slash cs) = bs @ cs"
    using assms(4) by (simp add: walk_def spl foldl_cleanStep_plain)
  ultimately show ?thesis using resolveUnder_eq[OF assms(1,2)] assms(3) cs by auto
qed

end
