(* ===== verification/Files.thy ===== *)
theory Files
  imports Paths "HOL-Library.AList"
begin

text \<open>
  The part of the file system the supervisor uses: what is at each lexical path, and the paths on
  which calls fail for a reason other than absence. Only the last component of a path can be a
  symbolic link. The operations are the \<^verbatim>\<open>os\<close> functions of the same names.
\<close>

datatype node = Regular bytes | Directory | Symlink string

record files =
  entries :: "(string \<times> node) list"
  denied :: "string list"

datatype fsErr = NotExist | FsError string

definition nodeAt :: "files \<Rightarrow> string \<Rightarrow> node option" where
  "nodeAt f p = map_of (entries f) p"

definition setNode :: "files \<Rightarrow> string \<Rightarrow> node \<Rightarrow> files" where
  "setNode f p n = f\<lparr>entries := AList.update p n (entries f)\<rparr>"

definition dropNode :: "files \<Rightarrow> string \<Rightarrow> files" where
  "dropNode f p = f\<lparr>entries := AList.delete p (entries f)\<rparr>"

definition Lstat :: "files \<Rightarrow> string \<Rightarrow> fsErr + node" where
  "Lstat f p =
     (if p \<in> set (denied f) then Inl (FsError p)
      else case nodeAt f p of None \<Rightarrow> Inl NotExist | Some n \<Rightarrow> Inr n)"

text \<open>The kernel gives up after forty links.\<close>

fun followLinks :: "nat \<Rightarrow> files \<Rightarrow> string \<Rightarrow> fsErr + (string \<times> node)" where
  "followLinks 0 f p = Inl (FsError p)"
| "followLinks (Suc k) f p =
     (case Lstat f p of
        Inl e \<Rightarrow> Inl e
      | Inr (Symlink t) \<Rightarrow> followLinks k f t
      | Inr n \<Rightarrow> Inr (p, n))"

definition maxLinks :: nat where "maxLinks = 40"

definition Stat :: "files \<Rightarrow> string \<Rightarrow> fsErr + node" where
  "Stat f p = (case followLinks maxLinks f p of Inl e \<Rightarrow> Inl e | Inr (q, n) \<Rightarrow> Inr n)"

definition ReadFile :: "files \<Rightarrow> string \<Rightarrow> fsErr + bytes" where
  "ReadFile f p =
     (case Stat f p of
        Inl e \<Rightarrow> Inl e
      | Inr (Regular b) \<Rightarrow> Inr b
      | Inr _ \<Rightarrow> Inl (FsError p))"

definition dirEmpty :: "files \<Rightarrow> string \<Rightarrow> bool" where
  "dirEmpty f p = list_all (\<lambda>(q, n). \<not> hasPrefix q (p @ [slash])) (entries f)"

definition Remove :: "files \<Rightarrow> string \<Rightarrow> files \<times> fsErr option" where
  "Remove f p =
     (case Lstat f p of
        Inl e \<Rightarrow> (f, Some e)
      | Inr n \<Rightarrow> if n = Directory \<and> \<not> dirEmpty f p then (f, Some (FsError p)) else (dropNode f p, None))"

definition Rename :: "files \<Rightarrow> string \<Rightarrow> string \<Rightarrow> files \<times> fsErr option" where
  "Rename f src dst =
     (case Lstat f src of
        Inl e \<Rightarrow> (f, Some e)
      | Inr n \<Rightarrow>
          if dst \<in> set (denied f) \<or> n = Directory \<or> nodeAt f dst = Some Directory then (f, Some (FsError src))
          else (setNode (dropNode f src) dst n, None))"

text \<open>The directory part of a path: everything before its last slash.\<close>

definition parentDir :: "string \<Rightarrow> string" where
  "parentDir p = rev (drop 1 (dropWhile (\<lambda>c. c \<noteq> slash) (rev p)))"

text \<open>Opening with \<^verbatim>\<open>O_APPEND|O_CREATE|O_WRONLY\<close> and writing: the path written to, or the error.\<close>

definition openCreate :: "files \<Rightarrow> string \<Rightarrow> fsErr + string" where
  "openCreate f p =
     (case followLinks maxLinks f p of
        Inr (q, Regular b) \<Rightarrow> Inr q
      | Inr (q, _) \<Rightarrow> Inl (FsError p)
      | Inl NotExist \<Rightarrow>
          if nodeAt f p = None \<and> nodeAt f (parentDir p) = Some Directory then Inr p else Inl NotExist
      | Inl e \<Rightarrow> Inl e)"

definition contentAt :: "files \<Rightarrow> string \<Rightarrow> bytes" where
  "contentAt f p = (case nodeAt f p of Some (Regular b) \<Rightarrow> b | _ \<Rightarrow> [])"

definition AppendFile :: "files \<Rightarrow> string \<Rightarrow> bytes \<Rightarrow> files \<times> fsErr option" where
  "AppendFile f p b =
     (case openCreate f p of
        Inl e \<Rightarrow> (f, Some e)
      | Inr q \<Rightarrow> (setNode f q (Regular (contentAt f q @ b)), None))"

definition WriteFile :: "files \<Rightarrow> string \<Rightarrow> bytes \<Rightarrow> files \<times> fsErr option" where
  "WriteFile f p b =
     (case openCreate f p of
        Inl e \<Rightarrow> (f, Some e)
      | Inr q \<Rightarrow> (setNode f q (Regular b), None))"

text \<open>\<^verbatim>\<open>os.ReadDir\<close>: the names in a directory, sorted, and whether each is a directory itself.\<close>

definition baseName :: "string \<Rightarrow> string" where
  "baseName p = rev (takeWhile (\<lambda>c. c \<noteq> slash) (rev p))"

definition ReadDir :: "files \<Rightarrow> string \<Rightarrow> fsErr + (string \<times> bool) list" where
  "ReadDir f dirPath =
     (case Stat f dirPath of
        Inl e \<Rightarrow> Inl e
      | Inr Directory \<Rightarrow>
          Inr (map (\<lambda>p. (baseName p, nodeAt f p = Some Directory))
            (sort_key baseName (filter (\<lambda>p. parentDir p = Clean dirPath \<and> baseName p \<noteq> []) (remdups (map fst (entries f))))))
      | Inr _ \<Rightarrow> Inl (FsError dirPath))"

section \<open>Lemmas\<close>

lemma nodeAt_setNode [simp]: "nodeAt (setNode f p n) q = (if q = p then Some n else nodeAt f q)"
  by (simp add: nodeAt_def setNode_def update_conv')

lemma nodeAt_dropNode [simp]: "nodeAt (dropNode f p) q = (if q = p then None else nodeAt f q)"
  by (simp add: nodeAt_def dropNode_def delete_conv')

lemma denied_simps [simp]: "denied (setNode f p n) = denied f" "denied (dropNode f p) = denied f"
  by (simp_all add: setNode_def dropNode_def)

lemma denied_Remove [simp]: "denied (fst (Remove f p)) = denied f"
  by (simp add: Remove_def split: sum.splits)

lemma denied_Rename [simp]: "denied (fst (Rename f p q)) = denied f"
  by (simp add: Rename_def split: sum.splits)

lemma Remove_nodes:
  assumes "p \<notin> set (denied f)" and "nodeAt f p \<noteq> Some Directory"
  shows "nodeAt (fst (Remove f p)) q = (if q = p then None else nodeAt f q)"
  using assms by (auto simp: Remove_def Lstat_def split: option.splits)

lemma Rename_nodes:
  assumes "src \<notin> set (denied f)" "dst \<notin> set (denied f)" "nodeAt f src = Some n" "n \<noteq> Directory" "nodeAt f dst = None"
  shows "nodeAt (fst (Rename f src dst)) q = (if q = dst then Some n else if q = src then None else nodeAt f q)"
  using assms by (auto simp: Rename_def Lstat_def)

lemma AppendFile_regular:
  assumes "p \<notin> set (denied f)" "nodeAt f p = Some (Regular b) \<or> nodeAt f p = None \<and> b = [] \<and> nodeAt f (parentDir p) = Some Directory"
  shows "AppendFile f p c = (setNode f p (Regular (b @ c)), None)"
  using assms by (auto simp: AppendFile_def openCreate_def contentAt_def maxLinks_def numeral_eq_Suc Lstat_def)

lemma baseName_parent: "p = parentDir p @ slash # baseName p \<or> p = baseName p"
proof (cases "slash \<in> set p")
  case True
  let ?t = "takeWhile (\<lambda>c. c \<noteq> slash) (rev p)" and ?d = "dropWhile (\<lambda>c. c \<noteq> slash) (rev p)"
  have "?d \<noteq> []" using True by (auto simp: dropWhile_eq_Nil_conv)
  then obtain xs where xs: "?d = slash # xs"
    by (metis (mono_tags, lifting) hd_dropWhile list.collapse)
  have "rev p = ?t @ slash # xs" using takeWhile_dropWhile_id[of "\<lambda>c. c \<noteq> slash" "rev p"] xs by simp
  then have "p = rev xs @ slash # rev ?t" by (metis (no_types, lifting) append.assoc append_Cons append_Nil rev.simps(2) rev_append rev_rev_ident)
  then show ?thesis using xs by (simp add: parentDir_def baseName_def)
next
  case False
  then have "takeWhile (\<lambda>c. c \<noteq> slash) (rev p) = rev p" by (auto simp: takeWhile_eq_all_conv)
  then have "baseName p = p" by (simp only: baseName_def rev_rev_ident)
  then show ?thesis by simp
qed

lemma ReadDir_distinct:
  assumes "ReadDir f dirPath = Inr es"
  shows "distinct (map fst es)"
proof -
  let ?ps = "filter (\<lambda>p. parentDir p = Clean dirPath \<and> baseName p \<noteq> []) (remdups (map fst (entries f)))"
  have "inj_on baseName (set ?ps)"
  proof (rule inj_onI)
    fix p q assume "p \<in> set ?ps" "q \<in> set ?ps" "baseName p = baseName q"
    moreover have "parentDir x = []" if "x = baseName x" for x
    proof -
      have "slash \<notin> set (baseName x)" by (auto simp: baseName_def dest: set_takeWhileD)
      then have "slash \<notin> set x" using that by simp
      then have "dropWhile (\<lambda>c. c \<noteq> slash) (rev x) = []" by (auto simp: dropWhile_eq_Nil_conv)
      then show ?thesis by (simp only: parentDir_def drop_Nil rev.simps(1))
    qed
    ultimately show "p = q" using baseName_parent[of p] baseName_parent[of q] Clean_nonempty[of dirPath] by auto
  qed
  then have "distinct (map baseName (sort_key baseName ?ps))"
    by (simp add: distinct_map)
  moreover have "map fst es = map baseName (sort_key baseName ?ps)"
    using assms by (auto simp: ReadDir_def split: sum.splits node.splits)
  ultimately show ?thesis by simp
qed

end
