(* ===== verification/Clock.thy ===== *)
theory Clock
  imports Json
begin

text \<open>
  The text of an instant in a log line: Go's \<^verbatim>\<open>time.Time\<close> in UTC as the encoder prints it
  (RFC 3339 with as many digits of the nanoseconds as needed), and the reading back of such a text.
\<close>

section \<open>The calendar\<close>

definition leapYear :: "nat \<Rightarrow> bool" where
  "leapYear y = (y mod 4 = 0 \<and> (y mod 100 \<noteq> 0 \<or> y mod 400 = 0))"

text \<open>Days between the first of January of year 0 and that of year \<open>y\<close>.\<close>

definition daysBefore :: "nat \<Rightarrow> nat" where
  "daysBefore y = 365 * y + (y + 3) div 4 - (y + 99) div 100 + (y + 399) div 400"

lemma daysBefore_Suc: "daysBefore (Suc y) = daysBefore y + (if leapYear y then 366 else 365)"
proof -
  have c: "(Suc y + k) div Suc k = (y + k) div Suc k + (if y mod Suc k = 0 then 1 else 0)" for k
    using div_Suc[of "y + k" "Suc k"] mod_add_self2[of y "Suc k"] by simp
  have d: "(Suc y + 3) div 4 = (y + 3) div 4 + (if y mod 4 = 0 then 1 else 0)"
    "(Suc y + 99) div 100 = (y + 99) div 100 + (if y mod 100 = 0 then 1 else 0)"
    "(Suc y + 399) div 400 = (y + 399) div 400 + (if y mod 400 = 0 then 1 else 0)"
    using c[of 3] c[of 99] c[of 399] by simp_all
  have "(y + 99) div 100 \<le> (y + 3) div 4" by (cases "y = 0") (auto simp: div_le_mono less_mult_imp_div_less)
  moreover have "y mod 100 = 0 \<Longrightarrow> y mod 4 = 0" "y mod 400 = 0 \<Longrightarrow> y mod 100 = 0"
    using mod_mod_cancel[of 4 100 y] mod_mod_cancel[of 100 400 y] by simp_all
  ultimately show ?thesis
    unfolding daysBefore_def leapYear_def d by (auto simp: add_ac)
qed

lemma daysBefore_0: "daysBefore 0 = 0"
  by (simp add: daysBefore_def)

lemma daysBefore_grows: "365 * y \<le> daysBefore y \<and> daysBefore y \<le> 366 * y"
  by (induction y) (simp_all add: daysBefore_0 daysBefore_Suc)

text \<open>The year of a day, searched from a year that is not after it.\<close>

function yearFrom :: "nat \<Rightarrow> nat \<Rightarrow> nat" where
  "yearFrom y d = (if d < daysBefore (Suc y) then y else yearFrom (Suc y) d)"
  by pat_completeness auto

termination
proof (relation "measure (\<lambda>(y, d). Suc d - y)")
  fix y d :: nat
  assume "\<not> d < daysBefore (Suc y)"
  moreover have "Suc y \<le> daysBefore (Suc y)" using daysBefore_grows[of "Suc y"] by simp
  ultimately show "((Suc y, d), y, d) \<in> measure (\<lambda>(y, d). Suc d - y)" by simp
qed simp

declare yearFrom.simps [simp del]

definition yearOf :: "nat \<Rightarrow> nat" where
  "yearOf d = yearFrom (d div 366) d"

lemma yearFrom_bounds:
  "daysBefore y \<le> d \<Longrightarrow> daysBefore (yearFrom y d) \<le> d \<and> d < daysBefore (Suc (yearFrom y d))"
proof (induction y d rule: yearFrom.induct)
  case (1 y d)
  then show ?case by (cases "d < daysBefore (Suc y)") (simp_all add: yearFrom.simps[of y d])
qed

lemma yearOf_bounds: "daysBefore (yearOf d) \<le> d" "d < daysBefore (Suc (yearOf d))"
proof -
  have "daysBefore (d div 366) \<le> d"
    using daysBefore_grows[of "d div 366"] div_times_less_eq_dividend[of d 366] by linarith
  then show "daysBefore (yearOf d) \<le> d" "d < daysBefore (Suc (yearOf d))"
    using yearFrom_bounds by (simp_all add: yearOf_def)
qed

lemma daysBefore_mono: "x \<le> y \<Longrightarrow> daysBefore x \<le> daysBefore y"
  by (rule lift_Suc_mono_le) (simp_all add: daysBefore_Suc)

lemma yearOf_less: "d < daysBefore y \<Longrightarrow> yearOf d < y"
  using yearOf_bounds(1)[of d] daysBefore_mono[of y "yearOf d"] by linarith

definition monthLens :: "nat \<Rightarrow> nat list" where
  "monthLens y = [31, if leapYear y then 29 else 28, 31, 30, 31, 30, 31, 31, 30, 31, 30, 31]"

text \<open>The month a day of the year falls into and the day of that month, both from 0.\<close>

fun splitMonth :: "nat list \<Rightarrow> nat \<Rightarrow> nat \<times> nat" where
  "splitMonth [] d = (0, d)"
| "splitMonth (l # ls) d = (if d < l then (0, d) else apfst Suc (splitMonth ls (d - l)))"

lemma splitMonth_sum:
  "splitMonth ls d = (m, r) \<Longrightarrow> d < sum_list ls \<Longrightarrow> m < length ls \<and> r < ls ! m \<and> sum_list (take m ls) + r = d"
proof (induction ls d arbitrary: m r rule: splitMonth.induct)
  case (2 l ls d)
  show ?case
  proof (cases "d < l")
    case False
    obtain m' r' where "splitMonth ls (d - l) = (m', r')" by fastforce
    moreover have "d - l < sum_list ls" using "2.prems"(2) False by simp
    ultimately show ?thesis using "2.IH"[of m' r'] "2.prems" False by auto
  qed (use "2.prems" in auto)
qed simp

lemma sum_monthLens: "daysBefore (Suc y) = daysBefore y + sum_list (monthLens y)"
  by (simp add: daysBefore_Suc monthLens_def)

section \<open>Numbers of fixed width\<close>

definition pad :: "nat \<Rightarrow> nat \<Rightarrow> string" where
  "pad k n = replicate (k - length (showNat n)) (CHR ''0'') @ showNat n"

lemma length_pad: "n < 10 ^ k \<Longrightarrow> 0 < k \<Longrightarrow> length (pad k n) = k"
  using length_showNat[of n k] by (simp add: pad_def)

lemma readNat_zeros: "readNat (replicate j (CHR ''0'') @ s) = readNat s"
  by (induction j) (simp_all add: readNat_def)

lemma readNat_pad [simp]: "readNat (pad k n) = n"
  by (simp add: pad_def readNat_zeros)

lemma pad_digits: "set (pad k n) \<subseteq> set digits"
  using set_showNat[of n] by (auto simp: pad_def digits_def)

text \<open>The fraction of a second: nine digits less the zeros at the end, nothing if all are zero.\<close>

definition fracDigits :: "nat \<Rightarrow> string" where
  "fracDigits ns = rev (dropWhile (\<lambda>c. c = CHR ''0'') (rev (pad 9 ns)))"

lemma fracDigits_pad:
  assumes "ns < 10 ^ 9"
  shows "take 9 (fracDigits ns @ replicate 9 (CHR ''0'')) = pad 9 ns"
proof -
  let ?z = "takeWhile (\<lambda>c. c = CHR ''0'') (rev (pad 9 ns))"
  have "rev ?z = replicate (length ?z) (CHR ''0'')"
    by (rule replicate_eqI) (auto dest: set_takeWhileD)
  moreover have "rev (pad 9 ns) = ?z @ rev (fracDigits ns)" by (simp add: fracDigits_def)
  ultimately have p: "pad 9 ns = fracDigits ns @ replicate (length ?z) (CHR ''0'')"
    by (metis rev_append rev_rev_ident)
  then have "length (fracDigits ns) + length ?z = 9"
    using length_pad[OF assms] by (metis length_append length_replicate zero_less_numeral)
  then have "replicate 9 (CHR ''0'') = replicate (length ?z) (CHR ''0'') @ replicate (length (fracDigits ns)) (CHR ''0'')"
    by (simp flip: replicate_add add: add.commute)
  then show ?thesis
    using p \<open>length (fracDigits ns) + length ?z = 9\<close> by (simp add: min_def) (metis add_diff_cancel_left')
qed

section \<open>Instants\<close>

text \<open>Nanoseconds from the start of year 0 to the Unix epoch.\<close>

definition epoch :: int where
  "epoch = 719528 * 86400 * 1000000000"

text \<open>The years the encoder accepts: 0 to 9999.\<close>

definition encodable :: "gotime \<Rightarrow> bool" where
  "encodable t = (0 \<le> t + epoch \<and> t + epoch < int (daysBefore 10000) * (86400 * 1000000000))"

definition dateText :: "nat \<Rightarrow> string" where
  "dateText day =
     (let y = yearOf day; (m, d) = splitMonth (monthLens y) (day - daysBefore y)
      in pad 4 y @ ''-'' @ pad 2 (Suc m) @ ''-'' @ pad 2 (Suc d))"

definition clockText :: "nat \<Rightarrow> string" where
  "clockText sec = pad 2 (sec div 3600) @ '':'' @ pad 2 (sec div 60 mod 60) @ '':'' @ pad 2 (sec mod 60)"

definition fracText :: "nat \<Rightarrow> string" where
  "fracText ns = (if fracDigits ns = [] then [] else ''.'' @ fracDigits ns)"

definition timeText :: "gotime \<Rightarrow> string" where
  "timeText t =
     (let n = nat (t + epoch); s = n div 1000000000
      in dateText (s div 86400) @ ''T'' @ clockText (s mod 86400) @ fracText (n mod 1000000000) @ ''Z'')"

definition readDate :: "string \<Rightarrow> nat" where
  "readDate s =
     (let y = readNat (take 4 s); m = readNat (take 2 (drop 5 s)); d = readNat (take 2 (drop 8 s))
      in daysBefore y + sum_list (take (m - 1) (monthLens y)) + (d - 1))"

definition readClock :: "string \<Rightarrow> nat" where
  "readClock s = readNat (take 2 s) * 3600 + readNat (take 2 (drop 3 s)) * 60 + readNat (take 2 (drop 6 s))"

definition readFrac :: "string \<Rightarrow> nat" where
  "readFrac s = readNat (take 9 (drop 1 s @ replicate 9 (CHR ''0'')))"

definition readTime :: "string \<Rightarrow> gotime" where
  "readTime s =
     int ((readDate (take 10 s) * 86400 + readClock (take 8 (drop 11 s))) * 1000000000
       + readFrac (butlast (drop 19 s))) - epoch"

lemma date_reads:
  assumes "day < daysBefore 10000"
  shows "length (dateText day) = 10" and "readDate (dateText day) = day"
proof -
  let ?y = "yearOf day"
  obtain m d where md: "splitMonth (monthLens ?y) (day - daysBefore ?y) = (m, d)" by fastforce
  have "day - daysBefore ?y < sum_list (monthLens ?y)"
    using yearOf_bounds[of day] sum_monthLens[of ?y] by linarith
  note sp = splitMonth_sum[OF md this]
  have y: "?y < 10 ^ 4" using yearOf_less[OF assms] by simp
  have m: "m < 12" using sp by (simp add: monthLens_def)
  have "list_all (\<lambda>l. l \<le> 31) (monthLens ?y)" by (simp add: monthLens_def)
  then have d: "d < 31" using sp by (fastforce simp: list_all_length)
  have t: "dateText day = pad 4 ?y @ ''-'' @ pad 2 (Suc m) @ ''-'' @ pad 2 (Suc d)"
    by (simp add: dateText_def md)
  have l: "length (pad 4 ?y) = 4" "length (pad 2 (Suc m)) = 2" "length (pad 2 (Suc d)) = 2"
    using y m d by (simp_all add: length_pad)
  then show "length (dateText day) = 10" by (simp add: t)
  show "readDate (dateText day) = day"
    using l sp le_add_diff_inverse[OF yearOf_bounds(1)[of day]] by (simp add: t readDate_def Let_def)
qed

lemma clock_reads:
  assumes "sec < 86400"
  shows "length (clockText sec) = 8" and "readClock (clockText sec) = sec"
proof -
  have l: "length (pad 2 (sec div 3600)) = 2" "length (pad 2 (sec div 60 mod 60)) = 2" "length (pad 2 (sec mod 60)) = 2"
    using assms by (simp_all add: length_pad)
  then show "length (clockText sec) = 8" by (simp add: clockText_def)
  have "sec div 60 = sec div 3600 * 60 + sec div 60 mod 60"
    using div_mult_mod_eq[of "sec div 60" 60] by (simp add: div_mult2_eq[of sec 60 60, simplified])
  then have "sec div 3600 * 3600 + sec div 60 mod 60 * 60 + sec mod 60 = sec"
    using div_mult_mod_eq[of sec 60] by linarith
  then show "readClock (clockText sec) = sec" using l by (simp add: clockText_def readClock_def)
qed

lemma frac_reads: "ns < 10 ^ 9 \<Longrightarrow> readFrac (fracText ns) = ns"
proof -
  assume ns: "ns < 10 ^ 9"
  have "fracDigits ns = [] \<Longrightarrow> readNat (replicate 9 (CHR ''0'')) = ns"
    using fracDigits_pad[OF ns] readNat_pad[of 9 ns] by simp
  then show ?thesis
    using fracDigits_pad[OF ns] by (simp add: fracText_def readFrac_def)
qed

lemma readTime_timeText [simp]: "encodable t \<Longrightarrow> readTime (timeText t) = t"
proof -
  assume t: "encodable t"
  define n where "n = nat (t + epoch)"
  define s where "s = n div 1000000000"
  define day where "day = s div 86400"
  define sec where "sec = s mod 86400"
  define ns where "ns = n mod 1000000000"
  have n: "int n = t + epoch" using t by (simp add: n_def encodable_def)
  have "int n < int (daysBefore 10000 * (86400 * 1000000000))" using t n by (simp add: encodable_def)
  then have "n < daysBefore 10000 * (86400 * 1000000000)" by (simp only: of_nat_less_iff)
  then have "n div (86400 * 1000000000) < daysBefore 10000" by (simp add: less_mult_imp_div_less)
  moreover have "day = n div (86400 * 1000000000)" by (simp add: day_def s_def flip: div_mult2_eq)
  ultimately have day: "day < daysBefore 10000" by simp
  have sec: "sec < 86400" and ns: "ns < 10 ^ 9" by (simp_all add: sec_def ns_def)
  have tx: "timeText t = dateText day @ ''T'' @ clockText sec @ fracText ns @ ''Z''"
    by (simp add: timeText_def Let_def n_def s_def day_def sec_def ns_def)
  have whole: "(day * 86400 + sec) * 1000000000 + ns = n" by (simp add: day_def sec_def s_def ns_def)
  show ?thesis
    using date_reads[OF day] clock_reads[OF sec] frac_reads[OF ns] whole n
    by (simp add: tx readTime_def)
qed

text \<open>Only digits and four signs occur in it.\<close>

definition timeChars :: string where "timeChars = digits @ ''-T:.Z''"

lemma timeText_chars: "set (timeText t) \<subseteq> set timeChars"
proof -
  have p: "set (pad k n) \<subseteq> set timeChars" for k n
    using pad_digits[of k n] by (auto simp: timeChars_def)
  have "set (fracDigits ns) \<subseteq> set (pad 9 ns)" for ns
    by (auto simp: fracDigits_def dest: set_dropWhileD)
  then have "set (fracDigits ns) \<subseteq> set timeChars" for ns using p by blast
  moreover have "set (dateText day) \<subseteq> set timeChars" for day
  proof -
    obtain m d where "splitMonth (monthLens (yearOf day)) (day - daysBefore (yearOf day)) = (m, d)" by fastforce
    then show ?thesis using p by (simp add: dateText_def timeChars_def)
  qed
  ultimately show ?thesis
    using p by (simp add: timeText_def clockText_def fracText_def Let_def) (simp add: timeChars_def)
qed

text \<open>As a JSON string.\<close>

definition timeJSON :: "gotime \<Rightarrow> bytes" where
  "timeJSON t = dquote # timeText t @ [dquote]"

lemma escapeBody_plain: "list_all (\<lambda>c. code c < 128 \<and> escASCII c = [c]) s \<Longrightarrow> escapeBody s = s"
  by (induction s) (simp_all add: escapeBody.simps(2))

lemma timeChars_plain: "list_all (\<lambda>c. code c < 128 \<and> escASCII c = [c]) timeChars"
  by code_simp

lemma timeJSON_quote: "timeJSON t = jsonQuote (timeText t)" and validUTF8_timeText: "validUTF8 (timeText t)"
proof -
  have p: "list_all (\<lambda>c. code c < 128 \<and> escASCII c = [c]) (timeText t)"
    using timeText_chars[of t] timeChars_plain by (auto simp: list_all_iff)
  then show "timeJSON t = jsonQuote (timeText t)" by (simp add: timeJSON_def jsonQuote_def escapeBody_plain)
  show "validUTF8 (timeText t)" using p by (intro validUTF8_ascii) (simp add: list_all_iff)
qed

end
