(* ===== verification/Supervisor.thy ===== *)
theory Supervisor
  imports Semver Signing Sideload Files Clock
begin

text \<open>
  The state of \<^verbatim>\<open>plugin/appstore/supervisor.go\<close> and its bookkeeping: the audit log and its
  rotation, the crash-loop record, the signature back-off, the notes that log a condition once, the
  ready and reinstalled bits. The clock reading each operation makes is the argument \<open>t\<close>. A log
  message is kept as its parts instead of its formatted text. The cancel function of a supervise
  goroutine is the goroutine's number; calling it adds the number to \<open>cancelled\<close>.
\<close>

section \<open>State\<close>

record installedApp =
  Mf :: manifest
  Dir :: string
  BinaryPath :: string
  SocketPath :: string
  DBPath :: string
  IDPath :: string
  Sideloaded :: bool

record config =
  InstallRoot :: string
  CataloguePublisher :: "(string \<Rightarrow> string \<times> bool) option"
  RescanInterval :: duration
  AuditLogMaxBytes :: int
  AuditLogMaxBackups :: int
  ChildMemoryLimitBytes :: "64 word"

record crashRecord =
  times :: "gotime list"
  suspended :: bool

record sigFailRecord =
  sfHash :: string
  sfFails :: int
  sfBackoff :: duration
  sfNextRetry :: gotime
  sfLogged :: bool
  sfQuarantined :: bool

text \<open>Why a scan skipped a directory.\<close>

datatype skipMsg =
    NoManifest string
  | ReadManifest string fsErr
  | ParseManifest string string
  | InvalidManifest string valerr
  | SideloadViolation string sideloadErr
  | BinaryEscapes string string pathErr
  | BinarySymlink string string
  | PreviousInstall string string
  | NotItsID string string

record skipNote =
  msg :: skipMsg
  warn :: bool

text \<open>Which check of the trust chain failed.\<close>

datatype trustErr = BadSignature sigErr | BadAnchor anchorErr

datatype warnMsg = RescanErr fsErr | DowngradeRefused string string string string | ResumeMarker string fsErr

text \<open>Why a binary is not run.\<close>

datatype verifyErr =
    OpenBinary fsErr
  | HashBinary fsErr
  | HashMismatch string string
  | LstatBinary fsErr
  | BinaryIsSymlink string

datatype logLine =
    AuditOpen string fsErr
  | AuditRemove string fsErr
  | AuditRotate string string fsErr
  | SigFailed string string trustErr
  | Quarantined string string int string
  | SigRecovered string string
  | Skipped bool skipMsg
  | Warned warnMsg
  | DowngradeAtStart string string string
  | RebuiltBundle string string string string
  | VersionUpgrade string string string
  | NewApp string string
  | AppGone string
  | AppResumed string
  | SuspendedMarkerErr string fsErr
  | TelemetryPanicked
  | ReapingStale string int
  | StaleMarkerErr string fsErr
  | MarkerWriteErr string fsErr
  | VerifyFailed string verifyErr nat
  | VerifyCap string
  | ExitSuspended string int
  | RestartIn string int duration
  | SpawnVerifyFailed string verifyErr
  | SpawnLine string string string bool
  | StartFailed string string
  | StartedPid string int
  | StoppedByUs string int
  | WaitFailed string string
  | NoSocket string duration
  | ReinstalledRunning string int
  | SocketVanished string string int
  | PrlimitErr int string "64 word" string
  | PrlimitOk int string "64 word"

datatype auditKind =
    DowngradeRefusedEv | RebuildApplied | UpgradeApplied | ResumeEv | SuperviseStart | SuperviseStop
  | VerifyFail | SuspendEv | SpawnEv | SpawnFail | ExitEv | ReapOrphan | ReinstalledEv | SocketLost

record auditEvent =
  AtTime :: gotime
  EvApp :: string
  Event :: auditKind
  PID :: int
  ExitCode :: int
  Reason :: string
  EvSHA :: string
  BinaryAt :: string

fun eventName :: "auditKind \<Rightarrow> string" where
  "eventName DowngradeRefusedEv = ''downgrade-refused''"
| "eventName RebuildApplied = ''rebuild-applied''"
| "eventName UpgradeApplied = ''upgrade-applied''"
| "eventName ResumeEv = ''resume''"
| "eventName SuperviseStart = ''supervise-start''"
| "eventName SuperviseStop = ''supervise-stop''"
| "eventName VerifyFail = ''verify-fail''"
| "eventName SuspendEv = ''suspend''"
| "eventName SpawnEv = ''spawn''"
| "eventName SpawnFail = ''spawn-fail''"
| "eventName ExitEv = ''exit''"
| "eventName ReapOrphan = ''reap-orphan''"
| "eventName ReinstalledEv = ''reinstalled''"
| "eventName SocketLost = ''socket-lost''"

definition eventMembers :: "auditEvent \<Rightarrow> (string \<times> bytes) list" where
  "eventMembers ev =
     [(''at'', timeJSON (AtTime ev)), (''app'', jsonQuote (EvApp ev)), (''event'', jsonQuote (eventName (Event ev)))] @
     omitIf (PID ev = 0) (''pid'', showInt (PID ev)) @
     omitIf (ExitCode ev = 0) (''exit_code'', showInt (ExitCode ev)) @
     omitIf (Reason ev = []) (''reason'', jsonQuote (Reason ev)) @
     omitIf (EvSHA ev = []) (''sha256'', jsonQuote (EvSHA ev)) @
     omitIf (BinaryAt ev = []) (''binary_path'', jsonQuote (BinaryAt ev))"

text \<open>\<^verbatim>\<open>json.Marshal\<close> with its error ignored: a year outside 0 to 9999 leaves an empty body.\<close>

definition marshalEvent :: "auditEvent \<Rightarrow> bytes" where
  "marshalEvent ev = (if encodable (AtTime ev) then jsonObj (eventMembers ev) else [])"

record supervisor =
  cfg :: config
  installed :: "string \<rightharpoonup> installedApp"
  ready :: "string \<rightharpoonup> bool"
  crashes :: "string \<rightharpoonup> crashRecord"
  appCancel :: "string \<rightharpoonup> nat"
  sigFails :: "string \<rightharpoonup> sigFailRecord"
  skipLogged :: "string \<rightharpoonup> skipMsg"
  warned :: "string \<rightharpoonup> warnMsg"
  reinstalled :: "string \<rightharpoonup> bool"
  disk :: files
  logs :: "logLine list"
  cancelled :: "nat list"

definition newSupervisor :: "config \<Rightarrow> files \<Rightarrow> supervisor" where
  "newSupervisor c f = \<lparr> cfg = c, installed = Map.empty, ready = Map.empty,
     crashes = Map.empty, appCancel = Map.empty, sigFails = Map.empty, skipLogged = Map.empty,
     warned = Map.empty, reinstalled = Map.empty, disk = f, logs = [], cancelled = [] \<rparr>"

definition logs_add :: "logLine \<Rightarrow> supervisor \<Rightarrow> supervisor" where
  "logs_add l s = s\<lparr>logs := logs s @ [l]\<rparr>"

section \<open>The audit log\<close>

definition supervisorLogName :: string where "supervisorLogName = ''supervisor.log''"
definition defaultAuditLogBackups :: int where "defaultAuditLogBackups = 3"
definition maxAuditLogSize :: int where "maxAuditLogSize = 10 * 1024 * 1024"

definition gen :: "string \<Rightarrow> nat \<Rightarrow> string" where
  "gen appDir i =
     (if i = 0 then Join [appDir, supervisorLogName]
      else Join [appDir, supervisorLogName @ ''.'' @ showNat i])"

text \<open>The loop of \<^verbatim>\<open>rotateGenerations\<close>: slots \<open>i - 1\<close> down to 0 move up by one.\<close>

fun shiftGens :: "string \<Rightarrow> nat \<Rightarrow> files \<times> logLine list \<Rightarrow> files \<times> logLine list" where
  "shiftGens appDir 0 (f, l) = (f, l)"
| "shiftGens appDir (Suc i) (f, l) =
     (if Stat f (gen appDir i) = Inl NotExist then shiftGens appDir i (f, l)
      else (case Rename f (gen appDir i) (gen appDir (Suc i)) of
          (f', None) \<Rightarrow> shiftGens appDir i (f', l)
        | (f', Some e) \<Rightarrow> shiftGens appDir i (f', l @ [AuditRotate (gen appDir i) (gen appDir (Suc i)) e])))"

definition rotateGenerations :: "supervisor \<Rightarrow> string \<Rightarrow> int \<Rightarrow> supervisor" where
  "rotateGenerations s appDir keep0 =
     (let keep = nat (if keep0 < 1 then 1 else keep0) in
      case Remove (disk s) (gen appDir keep) of
        (f, e) \<Rightarrow>
          (let l = (case e of Some (FsError p) \<Rightarrow> [AuditRemove (gen appDir keep) (FsError p)] | _ \<Rightarrow> []) in
           case shiftGens appDir keep (f, l) of (f', l') \<Rightarrow> s\<lparr>disk := f', logs := logs s @ l'\<rparr>))"

text \<open>The size of what a path leads to; a directory's size is left open and counted as zero.\<close>

definition fileSize :: "node \<Rightarrow> int" where
  "fileSize n = (case n of Regular b \<Rightarrow> int (length b) | _ \<Rightarrow> 0)"

definition auditMax :: "supervisor \<Rightarrow> int" where
  "auditMax s = (if AuditLogMaxBytes (cfg s) > 0 then AuditLogMaxBytes (cfg s) else maxAuditLogSize)"

definition auditKeep :: "supervisor \<Rightarrow> int" where
  "auditKeep s = (if AuditLogMaxBackups (cfg s) > 0 then AuditLogMaxBackups (cfg s) else defaultAuditLogBackups)"

definition rotateAuditIfLarge :: "supervisor \<Rightarrow> string \<Rightarrow> supervisor" where
  "rotateAuditIfLarge s appDir =
     (case Stat (disk s) (Join [appDir, supervisorLogName]) of
        Inl _ \<Rightarrow> s
      | Inr n \<Rightarrow> if fileSize n < auditMax s then s else rotateGenerations s appDir (auditKeep s))"

definition writeAuditLine :: "gotime \<Rightarrow> supervisor \<Rightarrow> installedApp \<Rightarrow> auditEvent \<Rightarrow> supervisor" where
  "writeAuditLine t s a ev =
     (let ev = ev\<lparr>EvApp := ID (Mf a)\<rparr>;
          ev = (if AtTime ev = zeroTime then ev\<lparr>AtTime := t\<rparr> else ev);
          body = marshalEvent ev @ [CHR 0x0A];
          path = Join [Dir a, supervisorLogName];
          s = rotateAuditIfLarge s (Dir a)
      in case AppendFile (disk s) path body of
           (f, None) \<Rightarrow> s\<lparr>disk := f\<rparr>
         | (f, Some NotExist) \<Rightarrow> s
         | (f, Some e) \<Rightarrow> logs_add (AuditOpen path e) s)"

definition audit :: "auditKind \<Rightarrow> auditEvent" where
  "audit k = \<lparr> AtTime = zeroTime, EvApp = [], Event = k, PID = 0, ExitCode = 0, Reason = [], EvSHA = [], BinaryAt = [] \<rparr>"

section \<open>Crash loops\<close>

definition crashLoopWindow :: duration where "crashLoopWindow = 60 * second_ns"
definition maxCrashesInWindow :: nat where "maxCrashesInWindow = 5"
definition maxVerifyFails :: nat where "maxVerifyFails = 10"

definition emptyCrash :: crashRecord where "emptyCrash = \<lparr> times = [], suspended = False \<rparr>"

definition crashOf :: "supervisor \<Rightarrow> string \<Rightarrow> crashRecord" where
  "crashOf s appID = (case crashes s appID of None \<Rightarrow> emptyCrash | Some r \<Rightarrow> r)"

definition recordCrash :: "gotime \<Rightarrow> supervisor \<Rightarrow> string \<Rightarrow> supervisor \<times> bool" where
  "recordCrash now s appID =
     (let rec = crashOf s appID;
          keep = filter (\<lambda>t. now - crashLoopWindow < t) (times rec);
          rec = rec\<lparr>times := keep @ [now]\<rparr>;
          rec = (if length (times rec) > maxCrashesInWindow then rec\<lparr>suspended := True\<rparr> else rec)
      in (s\<lparr>crashes := (crashes s)(appID \<mapsto> rec)\<rparr>, suspended rec))"

definition markSuspended :: "supervisor \<Rightarrow> string \<Rightarrow> supervisor" where
  "markSuspended s appID = s\<lparr>crashes := (crashes s)(appID \<mapsto> (crashOf s appID)\<lparr>suspended := True\<rparr>)\<rparr>"

definition isSuspended :: "supervisor \<Rightarrow> string \<Rightarrow> bool" where
  "isSuspended s appID = (case crashes s appID of None \<Rightarrow> False | Some r \<Rightarrow> suspended r)"

definition nextBackoff :: "duration \<Rightarrow> duration \<Rightarrow> duration" where
  "nextBackoff cur mx = (let nxt = cur * 2 in if nxt > mx then mx else nxt)"

section \<open>Signature back-off\<close>

definition sigBackoffStart :: duration where "sigBackoffStart = 2 * second_ns"
definition sigBackoffMax :: duration where "sigBackoffMax = 300 * second_ns"
definition sigQuarantineAfter :: int where "sigQuarantineAfter = 5"

definition shouldAttemptSignature :: "gotime \<Rightarrow> supervisor \<Rightarrow> string \<Rightarrow> string \<Rightarrow> bool" where
  "shouldAttemptSignature now s dirName hash =
     (case sigFails s dirName of
        None \<Rightarrow> True
      | Some rec \<Rightarrow> if sfHash rec \<noteq> hash then True else \<not> now < sfNextRetry rec)"

definition noteSignatureFailure :: "gotime \<Rightarrow> supervisor \<Rightarrow> string \<Rightarrow> string \<Rightarrow> string \<Rightarrow> trustErr \<Rightarrow> supervisor" where
  "noteSignatureFailure now s dirName appID hash verr =
     (let fresh = \<lparr> sfHash = hash, sfFails = 0, sfBackoff = sigBackoffStart, sfNextRetry = zeroTime,
                    sfLogged = False, sfQuarantined = False \<rparr>;
          rec = (case sigFails s dirName of
                   None \<Rightarrow> fresh
                 | Some r \<Rightarrow> if sfHash r \<noteq> hash then fresh else r\<lparr>sfBackoff := nextBackoff (sfBackoff r) sigBackoffMax\<rparr>);
          rec = rec\<lparr>sfFails := sfFails rec + 1, sfNextRetry := now + sfBackoff rec\<rparr>;
          firstForHash = (\<not> sfLogged rec);
          rec = rec\<lparr>sfLogged := True\<rparr>;
          emitQuarantine = (sfFails rec \<ge> sigQuarantineAfter \<and> \<not> sfQuarantined rec);
          rec = (if emitQuarantine then rec\<lparr>sfQuarantined := True\<rparr> else rec)
      in s\<lparr>sigFails := (sigFails s)(dirName \<mapsto> rec),
           logs := logs s @ (if firstForHash then [SigFailed appID dirName verr] else [])
             @ (if emitQuarantine then [Quarantined appID dirName (sfFails rec) (take 12 hash)] else [])\<rparr>)"

definition clearSignatureFailure :: "supervisor \<Rightarrow> string \<Rightarrow> string \<Rightarrow> supervisor" where
  "clearSignatureFailure s dirName appID =
     s\<lparr>sigFails := (sigFails s)(dirName := None),
       logs := logs s @ (if sigFails s dirName \<noteq> None then [SigRecovered appID dirName] else [])\<rparr>"

section \<open>Notes that are logged once\<close>

text \<open>\<open>skipped\<close> has the notes of one scan, one per directory; the fresh ones are logged in the order of
  their names.\<close>

definition noteSkipped :: "supervisor \<Rightarrow> (string \<times> skipNote) list \<Rightarrow> supervisor" where
  "noteSkipped s skipped =
     (let fresh = sort (map fst (filter (\<lambda>(name, n). skipLogged s name \<noteq> Some (msg n)) skipped)) in
      s\<lparr>skipLogged := map_option msg \<circ> map_of skipped,
        logs := logs s @ map (\<lambda>name. let n = the (map_of skipped name) in Skipped (warn n) (msg n)) fresh\<rparr>)"

definition misnamedNote :: "string \<Rightarrow> string \<Rightarrow> string set \<Rightarrow> skipNote" where
  "misnamedNote name i present =
     (if hasPrefix name (i @ ''.previous'') \<and> i \<notin> present then \<lparr> msg = PreviousInstall name i, warn = True \<rparr>
      else \<lparr> msg = NotItsID name i, warn = False \<rparr>)"

definition warnOnce :: "supervisor \<Rightarrow> string \<Rightarrow> warnMsg \<Rightarrow> supervisor \<times> bool" where
  "warnOnce s key m =
     (if warned s key = Some m then (s, False)
      else (s\<lparr>warned := (warned s)(key \<mapsto> m), logs := logs s @ [Warned m]\<rparr>, True))"

definition clearWarned :: "supervisor \<Rightarrow> string \<Rightarrow> supervisor" where
  "clearWarned s key = s\<lparr>warned := (warned s)(key := None)\<rparr>"

section \<open>Small bits\<close>

definition markReady :: "supervisor \<Rightarrow> string \<Rightarrow> supervisor" where
  "markReady s i = s\<lparr>ready := (ready s)(i \<mapsto> True)\<rparr>"

definition markNotReady :: "supervisor \<Rightarrow> string \<Rightarrow> supervisor" where
  "markNotReady s i = s\<lparr>ready := (ready s)(i := None)\<rparr>"

definition markReinstalled :: "supervisor \<Rightarrow> string \<Rightarrow> supervisor" where
  "markReinstalled s i = s\<lparr>reinstalled := (reinstalled s)(i \<mapsto> True)\<rparr>"

definition takeReinstalled :: "supervisor \<Rightarrow> string \<Rightarrow> supervisor \<times> bool" where
  "takeReinstalled s i = (s\<lparr>reinstalled := (reinstalled s)(i := None)\<rparr>, reinstalled s i = Some True)"

definition defaultRescanInterval :: duration where "defaultRescanInterval = 30 * second_ns"

definition rescanInterval :: "supervisor \<Rightarrow> duration" where
  "rescanInterval s = (if RescanInterval (cfg s) > 0 then RescanInterval (cfg s) else defaultRescanInterval)"

definition childAddressSpaceLimit :: "supervisor \<Rightarrow> 64 word" where
  "childAddressSpaceLimit s = (if ChildMemoryLimitBytes (cfg s) > 0 then ChildMemoryLimitBytes (cfg s) else 4294967296)"

definition shortSHA :: "string \<Rightarrow> string" where
  "shortSHA h = (if length h > 12 then take 12 h else h)"

end
