(* ===== verification/Bookkeeping.thy ===== *)
theory Bookkeeping
  imports Supervisor
begin

text \<open>What the supervisor's bookkeeping guarantees: audit log rotation, crash-loop detection and the
  back-off on bad signatures.\<close>

section \<open>Rotation\<close>

lemma Join_plain:
  assumes "list_all plainComp bs" "plainComp n"
  shows "Join [absPath bs, n] = absPath (bs @ [n])"
proof -
  have "splitOn slash n = [n]" using assms(2) by (simp add: splitOn_plain plainComp_def)
  then have "walk bs n = bs @ [n]" using assms(2) by (simp add: walk_def cleanStep_plain)
  then show ?thesis using Clean_absPath_append[OF assms(1), of n] by (simp add: Join_def absPath_def[of bs])
qed

definition genName :: "nat \<Rightarrow> string" where
  "genName i = (if i = 0 then supervisorLogName else supervisorLogName @ ''.'' @ showNat i)"

lemma genName_plain: "plainComp (genName i)"
proof -
  have "slash \<notin> set (showNat i)" using set_showNat[of i] by (auto simp: slash_def digits_def)
  then show ?thesis by (auto simp: genName_def plainComp_def supervisorLogName_def slash_def)
qed

lemma genName_inject: "genName i = genName j \<longleftrightarrow> i = j"
  by (auto simp: genName_def supervisorLogName_def)

lemma gen_eq: "list_all plainComp bs \<Longrightarrow> gen (absPath bs) i = absPath (bs @ [genName i])"
proof -
  assume "list_all plainComp bs"
  moreover have "gen (absPath bs) i = Join [absPath bs, genName i]" by (simp add: gen_def genName_def)
  ultimately show ?thesis using Join_plain genName_plain by simp
qed

lemma gen_inject: "list_all plainComp bs \<Longrightarrow> gen (absPath bs) i = gen (absPath bs) j \<longleftrightarrow> i = j"
  by (simp add: gen_eq absPath_inject genName_plain genName_inject)

text \<open>No generation up to \<open>n\<close> is denied, a directory or a link.\<close>

definition plainGens :: "files \<Rightarrow> string \<Rightarrow> nat \<Rightarrow> bool" where
  "plainGens f d n \<longleftrightarrow> (\<forall>i \<le> n. gen d i \<notin> set (denied f) \<and>
     (nodeAt f (gen d i) = None \<or> (\<exists>b. nodeAt f (gen d i) = Some (Regular b))))"

lemma Stat_plain:
  "p \<notin> set (denied f) \<Longrightarrow> nodeAt f p = None \<or> (\<exists>b. nodeAt f p = Some (Regular b)) \<Longrightarrow>
     Stat f p = (case nodeAt f p of None \<Rightarrow> Inl NotExist | Some n \<Rightarrow> Inr n)"
  by (auto simp: Stat_def maxLinks_def numeral_eq_Suc Lstat_def)

lemma shiftGens_nodes:
  assumes inj: "\<And>i j. gen d i = gen d j \<longleftrightarrow> i = j"
    and "plainGens f d n" and "nodeAt f (gen d n) = None"
  shows "snd (shiftGens d n (f, l)) = l
    \<and> nodeAt (fst (shiftGens d n (f, l))) (gen d 0) = None
    \<and> (\<forall>i < n. nodeAt (fst (shiftGens d n (f, l))) (gen d (Suc i)) = nodeAt f (gen d i))
    \<and> (\<forall>p. (\<forall>i \<le> n. p \<noteq> gen d i) \<longrightarrow> nodeAt (fst (shiftGens d n (f, l))) p = nodeAt f p)"
  using assms(2,3)
proof (induction n arbitrary: f)
  case 0
  then show ?case by simp
next
  case (Suc n)
  have st: "Stat f (gen d n) = (case nodeAt f (gen d n) of None \<Rightarrow> Inl NotExist | Some x \<Rightarrow> Inr x)"
    using Suc.prems(1) by (intro Stat_plain) (auto simp: plainGens_def)
  obtain f' where f': "shiftGens d (Suc n) (f, l) = shiftGens d n (f', l)" "plainGens f' d n"
    "nodeAt f' (gen d n) = None" "nodeAt f' (gen d (Suc n)) = nodeAt f (gen d n)"
    "\<And>q. q \<noteq> gen d n \<Longrightarrow> q \<noteq> gen d (Suc n) \<Longrightarrow> nodeAt f' q = nodeAt f q"
  proof (cases "nodeAt f (gen d n)")
    case None
    have "plainGens f d n" using Suc.prems(1) by (simp add: plainGens_def)
    then show thesis using that[of f] None Suc.prems(2) st by simp
  next
    case (Some x)
    let ?f = "fst (Rename f (gen d n) (gen d (Suc n)))"
    have dn: "gen d n \<notin> set (denied f)" "gen d (Suc n) \<notin> set (denied f)" "\<exists>b. x = Regular b"
      using Suc.prems(1)[unfolded plainGens_def, rule_format, of n]
        Suc.prems(1)[unfolded plainGens_def, rule_format, of "Suc n"] Some by auto
    then have x: "x \<noteq> Directory" by auto
    have nd: "nodeAt ?f q = (if q = gen d (Suc n) then Some x else if q = gen d n then None else nodeAt f q)" for q
      using Rename_nodes[OF dn(1,2) Some x Suc.prems(2)] .
    have "snd (Rename f (gen d n) (gen d (Suc n))) = None"
      using dn x Some Suc.prems(2) by (simp add: Rename_def Lstat_def)
    then have "shiftGens d (Suc n) (f, l) = shiftGens d n (?f, l)"
      using st Some by (cases "Rename f (gen d n) (gen d (Suc n))") simp
    moreover have "plainGens ?f d n"
      using Suc.prems(1) by (simp add: plainGens_def nd inj)
    ultimately show thesis using that[of ?f] nd Some inj by simp
  qed
  note ih = Suc.IH[OF f'(2,3)]
  have new: "nodeAt (fst (shiftGens d n (f', l))) (gen d (Suc n)) = nodeAt f (gen d n)"
    using ih f'(4) inj by auto
  have "nodeAt f' (gen d i) = nodeAt f (gen d i)" if "i < n" for i
    using f'(5)[of "gen d i"] inj that by auto
  then show ?case using ih f' new by (auto simp: less_Suc_eq)
qed

lemma rotateGenerations_nodes:
  assumes "list_all plainComp bs" and "plainGens (disk s) (absPath bs) (nat (max 1 keep))"
  shows "let d = absPath bs; n = nat (max 1 keep); f = disk (rotateGenerations s d keep) in
     nodeAt f (gen d 0) = None
     \<and> (\<forall>i < n. nodeAt f (gen d (Suc i)) = nodeAt (disk s) (gen d i))
     \<and> (\<forall>p. (\<forall>i \<le> n. p \<noteq> gen d i) \<longrightarrow> nodeAt f p = nodeAt (disk s) p)
     \<and> logs (rotateGenerations s d keep) = logs s"
proof -
  let ?d = "absPath bs" and ?n = "nat (max 1 keep)"
  obtain f e where rm: "Remove (disk s) (gen ?d ?n) = (f, e)" by fastforce
  have inj: "gen ?d i = gen ?d j \<longleftrightarrow> i = j" for i j using assms(1) by (rule gen_inject)
  have pn: "gen ?d ?n \<notin> set (denied (disk s))" "nodeAt (disk s) (gen ?d ?n) \<noteq> Some Directory"
    using assms(2)[unfolded plainGens_def, rule_format, of ?n] by auto
  have nd: "nodeAt f q = (if q = gen ?d ?n then None else nodeAt (disk s) q)" for q
    using Remove_nodes[OF pn, of q] rm by simp
  have "denied f = denied (disk s)" using denied_Remove[of "disk s" "gen ?d ?n"] rm by simp
  then have pg: "plainGens f ?d ?n" using assms(2) by (simp add: plainGens_def nd inj)
  note sg = shiftGens_nodes[OF inj pg, of "[]"]
  have e: "(case e of Some (FsError p) \<Rightarrow> [AuditRemove (gen ?d ?n) (FsError p)] | _ \<Rightarrow> []) = []"
    using rm pn by (auto simp: Remove_def Lstat_def split: option.splits)
  have k: "nat (if keep < 1 then 1 else keep) = ?n" by (simp add: max_def)
  have rot: "rotateGenerations s ?d keep = s\<lparr>disk := fst (shiftGens ?d ?n (f, [])), logs := logs s @ snd (shiftGens ?d ?n (f, []))\<rparr>"
    unfolding rotateGenerations_def Let_def k rm prod.case e by (simp add: case_prod_beta)
  have old: "nodeAt f (gen ?d i) = nodeAt (disk s) (gen ?d i)" if "i < ?n" for i
    using that inj by (simp add: nd)
  have none: "nodeAt f (gen ?d ?n) = None" by (simp add: nd)
  have keepn: "nodeAt f p = nodeAt (disk s) p" if "\<forall>i \<le> ?n. p \<noteq> gen ?d i" for p
    using that by (simp add: nd)
  show ?thesis using sg[OF none] old keepn by (simp add: rot Let_def)
qed

text \<open>Everything kept of an app's audit log, oldest generation first.\<close>

definition history :: "files \<Rightarrow> string \<Rightarrow> nat \<Rightarrow> bytes" where
  "history f d n = concat (map (\<lambda>i. contentAt f (gen d i)) (rev [0..<Suc n]))"

definition auditLine :: "installedApp \<Rightarrow> gotime \<times> auditEvent \<Rightarrow> bytes" where
  "auditLine a tev =
     (case tev of (t, ev) \<Rightarrow>
        marshalEvent (ev\<lparr>EvApp := ID (Mf a), AtTime := (if AtTime ev = zeroTime then t else AtTime ev)\<rparr>) @ [CHR 0x0A])"

definition keepN :: "supervisor \<Rightarrow> nat" where
  "keepN s = nat (max 1 (auditKeep s))"

definition auditable :: "supervisor \<Rightarrow> installedApp \<Rightarrow> bool" where
  "auditable s a \<longleftrightarrow> (\<exists>bs. Dir a = absPath bs \<and> list_all plainComp bs) \<and> plainGens (disk s) (Dir a) (keepN s)
     \<and> nodeAt (disk s) (parentDir (gen (Dir a) 0)) = Some Directory"

lemma rotateGenerations_frame [simp]:
  "cfg (rotateGenerations s d k) = cfg s"
  by (simp_all add: rotateGenerations_def Let_def split: prod.splits)

lemma denied_shiftGens [simp]: "denied (fst (shiftGens d n (f, l))) = denied f"
proof (induction d n "(f, l)" arbitrary: f l rule: shiftGens.induct)
  case (2 d i f l)
  then show ?case
    using denied_Rename[of f "gen d i" "gen d (Suc i)"]
    by (auto split: prod.splits option.splits simp del: denied_Rename)
qed simp

lemma denied_rotate [simp]: "denied (disk (rotateGenerations s d k)) = denied (disk s)"
proof -
  obtain f e where rm: "Remove (disk s) (gen d (nat (if k < 1 then 1 else k))) = (f, e)" by fastforce
  have "denied f = denied (disk s)" using denied_Remove[of "disk s"] rm by (metis fst_conv)
  moreover have "denied (fst (shiftGens d n (f, l))) = denied f" for n l by simp
  ultimately show ?thesis
    unfolding rotateGenerations_def Let_def rm prod.case
    by (simp add: case_prod_beta)
qed

text \<open>The log as a list of generations, the active one first: a write starts a new generation when the
  active one has reached the limit, dropping the oldest, and appends its line.\<close>

definition gens :: "files \<Rightarrow> string \<Rightarrow> nat \<Rightarrow> bytes list" where
  "gens f d n = map (\<lambda>i. contentAt f (gen d i)) [0..<Suc n]"

definition logShift :: "int \<Rightarrow> bytes list \<Rightarrow> bytes list" where
  "logShift mx gs = (if int (length (hd gs)) < mx then gs else [] # butlast gs)"

definition logWrite :: "int \<Rightarrow> bytes list \<Rightarrow> bytes \<Rightarrow> bytes list" where
  "logWrite mx gs line = (hd (logShift mx gs) @ line) # tl (logShift mx gs)"

lemma history_gens: "history f d n = concat (rev (gens f d n))"
  by (simp add: history_def gens_def rev_map)

lemma gens_split: "gens f d n = contentAt f (gen d 0) # map (\<lambda>i. contentAt f (gen d (Suc i))) [0..<n]"
  by (simp add: gens_def upt_conv_Cons map_Suc_upt[symmetric] comp_def del: upt_Suc)

lemma gens_snoc: "gens f d n = map (\<lambda>i. contentAt f (gen d i)) [0..<n] @ [contentAt f (gen d n)]"
  by (simp add: gens_def)

lemma length_gens [simp]: "length (gens f d n) = Suc n" and gens_not_Nil [simp]: "gens f d n \<noteq> []"
  by (simp_all add: gens_def)

lemma auditMax_pos: "0 < auditMax s"
  by (simp add: auditMax_def maxAuditLogSize_def)

lemma auditKeep_pos: "1 \<le> auditKeep s"
  by (simp add: auditKeep_def defaultAuditLogBackups_def)

lemma rotate_gens:
  assumes "auditable s a"
  shows "gens (disk (rotateAuditIfLarge s (Dir a))) (Dir a) (keepN s) = logShift (auditMax s) (gens (disk s) (Dir a) (keepN s))"
    and "auditable (rotateAuditIfLarge s (Dir a)) a"
    and "cfg (rotateAuditIfLarge s (Dir a)) = cfg s"
proof -
  let ?d = "Dir a" and ?f = "disk s" and ?r = "rotateAuditIfLarge s (Dir a)"
  obtain bs where bs: "?d = absPath bs" "list_all plainComp bs" using assms by (auto simp: auditable_def)
  have pg: "plainGens ?f ?d (keepN s)" using assms by (simp add: auditable_def)
  have g0: "gen ?d 0 \<notin> set (denied ?f)" "nodeAt ?f (gen ?d 0) = None \<or> (\<exists>b. nodeAt ?f (gen ?d 0) = Some (Regular b))"
    using pg[unfolded plainGens_def, rule_format, of 0] by auto
  have st: "Stat ?f (Join [?d, supervisorLogName]) =
      (case nodeAt ?f (gen ?d 0) of None \<Rightarrow> Inl NotExist | Some n \<Rightarrow> Inr n)"
    using Stat_plain[OF g0] by (simp add: gen_def)
  have large: "(\<exists>b. nodeAt ?f (gen ?d 0) = Some (Regular b) \<and> \<not> int (length b) < auditMax s) \<longleftrightarrow>
      \<not> int (length (contentAt ?f (gen ?d 0))) < auditMax s"
    using g0(2) auditMax_pos[of s] by (auto simp: contentAt_def)
  have "gens (disk ?r) ?d (keepN s) = logShift (auditMax s) (gens ?f ?d (keepN s))
    \<and> auditable ?r a \<and> cfg ?r = cfg s"
  proof (cases "\<exists>b. nodeAt ?f (gen ?d 0) = Some (Regular b) \<and> \<not> int (length b) < auditMax s")
    case False
    then have "?r = s" using st g0(2) by (auto simp: rotateAuditIfLarge_def fileSize_def)
    then show ?thesis using False large assms by (simp add: logShift_def gens_split)
  next
    case True
    let ?s = "rotateGenerations s ?d (auditKeep s)"
    have r: "?r = ?s" using st True by (auto simp: rotateAuditIfLarge_def fileSize_def)
    have n: "nat (max 1 (auditKeep s)) = keepN s" by (simp add: keepN_def)
    note rn = rotateGenerations_nodes[OF bs(2), of s "auditKeep s", unfolded n Let_def, folded bs(1), OF pg]
    have kN: "keepN ?s = keepN s" by (simp add: keepN_def auditKeep_def)
    have c: "contentAt (disk ?s) (gen ?d (Suc i)) = contentAt ?f (gen ?d i)" if "i < keepN s" for i
      using rn that by (simp add: contentAt_def)
    have c0: "contentAt (disk ?s) (gen ?d 0) = []" using rn by (simp add: contentAt_def)
    have "gens (disk ?s) ?d (keepN s) = [] # butlast (gens ?f ?d (keepN s))"
      using c c0 unfolding gens_split[of "disk ?s"] gens_snoc[of ?f] by simp
    moreover have "plainGens (disk ?s) ?d (keepN s)"
      unfolding plainGens_def
    proof (intro allI impI)
      fix i assume "i \<le> keepN s"
      then show "gen ?d i \<notin> set (denied (disk ?s)) \<and>
          (nodeAt (disk ?s) (gen ?d i) = None \<or> (\<exists>b. nodeAt (disk ?s) (gen ?d i) = Some (Regular b)))"
        using rn pg by (cases i) (auto simp: plainGens_def)
    qed
    moreover have "\<forall>i \<le> keepN s. parentDir (gen ?d 0) \<noteq> gen ?d i"
      using assms by (auto simp: auditable_def plainGens_def)
    ultimately show ?thesis
      using True large assms rn by (auto simp: r auditable_def kN logShift_def gens_split[of ?f])
  qed
  then show "gens (disk ?r) ?d (keepN s) = logShift (auditMax s) (gens ?f ?d (keepN s))"
    "auditable ?r a" "cfg ?r = cfg s" by simp_all
qed

lemma write_gens:
  assumes "auditable s a"
  shows "gens (disk (writeAuditLine t s a ev)) (Dir a) (keepN s) =
      logWrite (auditMax s) (gens (disk s) (Dir a) (keepN s)) (auditLine a (t, ev))"
    and "auditable (writeAuditLine t s a ev) a"
    and "cfg (writeAuditLine t s a ev) = cfg s"
proof -
  let ?d = "Dir a" and ?s = "rotateAuditIfLarge s (Dir a)" and ?w = "writeAuditLine t s a ev"
  note r = rotate_gens[OF assms]
  have inj: "gen ?d i = gen ?d j \<longleftrightarrow> i = j" for i j using assms gen_inject by (auto simp: auditable_def)
  have kN: "keepN ?s = keepN s" using r(3) by (simp add: keepN_def auditKeep_def)
  have pg: "plainGens (disk ?s) ?d (keepN s)" using r(2) kN by (simp add: auditable_def)
  have g0: "gen ?d 0 \<notin> set (denied (disk ?s))"
    "nodeAt (disk ?s) (gen ?d 0) = None \<or> (\<exists>b. nodeAt (disk ?s) (gen ?d 0) = Some (Regular b))"
    using pg[unfolded plainGens_def, rule_format, of 0] by auto
  let ?line = "auditLine a (t, ev)"
  let ?f = "setNode (disk ?s) (gen ?d 0) (Regular (contentAt (disk ?s) (gen ?d 0) @ ?line))"
  have ap: "AppendFile (disk ?s) (gen ?d 0) ?line = (?f, None)"
    using g0 r(2) by (intro AppendFile_regular) (auto simp: contentAt_def auditable_def)
  have pth: "Join [?d, supervisorLogName] = gen ?d 0" by (simp add: gen_def)
  have w: "?w = ?s\<lparr>disk := ?f\<rparr>"
    using ap unfolding writeAuditLine_def Let_def pth
    by (cases "AtTime ev = zeroTime") (simp_all add: auditLine_def)
  have "parentDir (gen ?d 0) \<noteq> gen ?d 0" using r(2) g0(2) by (auto simp: auditable_def)
  then show "auditable ?w a"
    using r(2) by (auto simp: w auditable_def plainGens_def keepN_def auditKeep_def)
  have "gens ?f ?d n = (hd (gens (disk ?s) ?d n) @ ?line) # tl (gens (disk ?s) ?d n)" for n
    by (simp add: gens_split contentAt_def inj)
  then show "gens (disk ?w) ?d (keepN s) = logWrite (auditMax s) (gens (disk s) ?d (keepN s)) ?line"
    by (simp add: w logWrite_def r(1))
  show "cfg ?w = cfg s" using r(3) by (simp_all add: w)
qed

definition writeLines :: "supervisor \<Rightarrow> installedApp \<Rightarrow> (gotime \<times> auditEvent) list \<Rightarrow> supervisor" where
  "writeLines s a evs = foldl (\<lambda>s (t, ev). writeAuditLine t s a ev) s evs"

lemma writeLines_gens:
  assumes "auditable s a"
  shows "gens (disk (writeLines s a evs)) (Dir a) (keepN s) =
      foldl (logWrite (auditMax s)) (gens (disk s) (Dir a) (keepN s)) (map (auditLine a) evs)
    \<and> auditable (writeLines s a evs) a \<and> cfg (writeLines s a evs) = cfg s"
proof (induction evs rule: rev_induct)
  case Nil
  then show ?case using assms by (simp add: writeLines_def)
next
  case (snoc e evs)
  obtain t ev where e: "e = (t, ev)" by fastforce
  let ?s = "writeLines s a evs"
  have k: "keepN ?s = keepN s" "auditMax ?s = auditMax s"
    using snoc by (simp_all add: keepN_def auditKeep_def auditMax_def auditLine_def)
  have "writeLines s a (evs @ [e]) = writeAuditLine t ?s a ev" by (simp add: writeLines_def e)
  then show ?case using write_gens[of ?s a t ev, unfolded k] snoc by (simp add: e)
qed

text \<open>Nothing but whole generations is lost.\<close>

lemma logWrite_suffix:
  assumes "gs \<noteq> []"
  shows "suffix (concat (rev (logWrite mx gs l))) (concat (rev gs) @ l)" and "logWrite mx gs l \<noteq> []"
    and "0 < mx \<Longrightarrow> int (length (hd (logWrite mx gs l))) < mx + int (length l)"
proof -
  have "concat (rev gs) = (if int (length (hd gs)) < mx then [] else last gs) @ concat (rev (logShift mx gs))"
    using assms by (cases gs rule: rev_cases) (auto simp: logShift_def)
  moreover have "concat (rev (logWrite mx gs l)) = concat (rev (logShift mx gs)) @ l"
    using assms by (cases "logShift mx gs") (auto simp: logWrite_def logShift_def split: if_splits)
  ultimately show "suffix (concat (rev (logWrite mx gs l))) (concat (rev gs) @ l)" by (auto simp: suffix_def)
qed (auto simp: logWrite_def logShift_def)

lemma logWrites_suffix:
  "gs \<noteq> [] \<Longrightarrow> suffix (concat (rev (foldl (logWrite mx) gs ls))) (concat (rev gs) @ concat ls)
     \<and> foldl (logWrite mx) gs ls \<noteq> []"
proof (induction ls rule: rev_induct)
  case (snoc l ls)
  note w = logWrite_suffix[of "foldl (logWrite mx) gs ls" mx l]
  have "suffix (concat (rev (foldl (logWrite mx) gs ls)) @ l) ((concat (rev gs) @ concat ls) @ l)"
    using snoc by (auto simp: suffix_def)
  then have "suffix (concat (rev (foldl (logWrite mx) gs (ls @ [l])))) (concat (rev gs) @ concat (ls @ [l]))"
    using suffix_order.trans[OF w(1)] snoc by simp
  then show ?case using w(2) snoc by simp
qed simp

text \<open>The audit log never loses a line but by dropping its oldest generation: whatever is written,
  what the generations hold, oldest first, is the end of the history followed by all the lines written;
  and every write leaves the active file within one line of the size limit.\<close>

theorem audit_log_suffix:
  assumes "auditable s a"
  shows "(let s' = foldl (\<lambda>s (t, ev). writeAuditLine t s a ev) s evs in
      suffix (history (disk s') (Dir a) (keepN s)) (history (disk s) (Dir a) (keepN s) @ concat (map (auditLine a) evs))
      \<and> (evs = [] \<or> int (length (contentAt (disk s') (gen (Dir a) 0))) < auditMax s + int (length (auditLine a (last evs)))))"
proof -
  let ?g = "gens (disk s) (Dir a) (keepN s)" and ?s = "writeLines s a evs"
  note g = writeLines_gens[OF assms, of evs]
  have "suffix (history (disk ?s) (Dir a) (keepN s)) (history (disk s) (Dir a) (keepN s) @ concat (map (auditLine a) evs))"
    using g logWrites_suffix[of ?g "auditMax s" "map (auditLine a) evs"] by (simp add: history_gens)
  moreover have "int (length (contentAt (disk ?s) (gen (Dir a) 0))) < auditMax s + int (length (auditLine a (last evs)))"
    if ne: "evs \<noteq> []"
  proof -
    obtain es e where e: "evs = es @ [e]" using ne by (meson rev_exhaust)
    let ?p = "foldl (logWrite (auditMax s)) ?g (map (auditLine a) es)"
    have "hd (gens (disk ?s) (Dir a) (keepN s)) = contentAt (disk ?s) (gen (Dir a) 0)" by (simp add: gens_split)
    then have "contentAt (disk ?s) (gen (Dir a) 0) = hd (logWrite (auditMax s) ?p (auditLine a e))"
      using g by (simp add: e)
    moreover have "?p \<noteq> []" using logWrites_suffix by simp
    ultimately show ?thesis using logWrite_suffix(3)[OF _ auditMax_pos, of ?p] by (simp add: e)
  qed
  ultimately show ?thesis by (auto simp: Let_def writeLines_def)
qed

definition exampleConfig :: config where
  "exampleConfig = \<lparr> InstallRoot = ''/apps'', CataloguePublisher = None, RescanInterval = 0, AuditLogMaxBytes = 4,
     AuditLogMaxBackups = 0, ChildMemoryLimitBytes = 0 \<rparr>"

definition exampleDisk :: files where
  "exampleDisk = \<lparr> entries = [(''/apps/io.pilot.hello'', Directory)], denied = [] \<rparr>"

definition exampleApp :: installedApp where
  "exampleApp = \<lparr> Mf = exampleSideload, Dir = ''/apps/io.pilot.hello'', BinaryPath = ''/apps/io.pilot.hello/bin/hello'',
     SocketPath = ''/apps/io.pilot.hello/app.sock'', DBPath = ''/apps/io.pilot.hello/data.db'',
     IDPath = ''/apps/io.pilot.hello/identity.json'', Sideloaded = True \<rparr>"

definition exampleSupervisor :: supervisor where
  "exampleSupervisor = newSupervisor exampleConfig exampleDisk"

lemma exampleSupervisor_auditable: "auditable exampleSupervisor exampleApp"
proof -
  have d: "Dir exampleApp = absPath [''apps'', ''io.pilot.hello'']" "list_all plainComp [''apps'', ''io.pilot.hello'']"
    by code_simp+
  have "gen (Dir exampleApp) i \<noteq> absPath [''apps'', ''io.pilot.hello'']" for i
    unfolding d(1) gen_eq[OF d(2)] using d(2) genName_plain[of i] by (subst absPath_inject) auto
  then have "nodeAt exampleDisk (gen (Dir exampleApp) i) = None" for i
    using d(1) by (simp add: nodeAt_def exampleDisk_def exampleApp_def)
  moreover have "nodeAt exampleDisk (parentDir (gen (Dir exampleApp) 0)) = Some Directory" by code_simp
  moreover have "disk exampleSupervisor = exampleDisk" "denied exampleDisk = []"
    by (simp_all add: exampleSupervisor_def newSupervisor_def exampleDisk_def)
  ultimately show ?thesis using d by (auto simp: auditable_def plainGens_def)
qed

theorem audit_log_suffix_witness:
  "int (length (contentAt (disk (foldl (\<lambda>s (t, ev). writeAuditLine t s exampleApp ev) exampleSupervisor
      [(1, audit SpawnEv), (2, audit ExitEv)])) (gen (Dir exampleApp) 0)))
    < 4 + int (length (auditLine exampleApp (2, audit ExitEv)))"
proof -
  have "auditMax exampleSupervisor = 4"
    by (simp add: exampleSupervisor_def newSupervisor_def exampleConfig_def auditMax_def)
  then show ?thesis
    using audit_log_suffix[OF exampleSupervisor_auditable, of "[(1, audit SpawnEv), (2, audit ExitEv)]"]
    by (simp add: Let_def)
qed

section \<open>Crash loops\<close>

definition crashAll :: "string \<Rightarrow> supervisor \<Rightarrow> gotime list \<Rightarrow> supervisor" where
  "crashAll appID s ts = foldl (\<lambda>s t. fst (recordCrash t s appID)) s ts"

text \<open>More than five of the crashes up to some crash are within the minute before it.\<close>

definition looping :: "gotime list \<Rightarrow> bool" where
  "looping ts \<longleftrightarrow> (\<exists>p. prefix p ts \<and> p \<noteq> [] \<and> length (filter (\<lambda>t. last p - crashLoopWindow < t) p) > maxCrashesInWindow)"

lemma looping_snoc:
  "looping (ts @ [t]) \<longleftrightarrow> looping ts \<or> length (filter (\<lambda>u. t - crashLoopWindow < u) (ts @ [t])) > maxCrashesInWindow"
  by (auto simp: looping_def prefix_snoc)

lemma recordCrash_crashes:
  "crashes (fst (recordCrash t s appID)) = (crashes s)(appID \<mapsto>
     (let keep = filter (\<lambda>u. t - crashLoopWindow < u) (times (crashOf s appID)) @ [t] in
      \<lparr> times = keep, suspended = (suspended (crashOf s appID) \<or> length keep > maxCrashesInWindow) \<rparr>))"
  by (cases "crashOf s appID") (simp add: recordCrash_def Let_def)

lemma crashAll_state:
  assumes "sorted ts" and "crashes s0 appID = None"
  shows "(ts = [] \<or> times (crashOf (crashAll appID s0 ts) appID) = filter (\<lambda>u. last ts - crashLoopWindow < u) ts)
     \<and> suspended (crashOf (crashAll appID s0 ts) appID) = looping ts
     \<and> (\<forall>k. k \<noteq> appID \<longrightarrow> crashes (crashAll appID s0 ts) k = crashes s0 k)"
  using assms
proof (induction ts rule: rev_induct)
  case Nil
  then show ?case by (simp add: crashAll_def crashOf_def emptyCrash_def looping_def)
next
  case (snoc t ts)
  let ?s = "crashAll appID s0 ts"
  have ih: "ts = [] \<or> times (crashOf ?s appID) = filter (\<lambda>u. last ts - crashLoopWindow < u) ts"
    "suspended (crashOf ?s appID) = looping ts" "\<And>k. k \<noteq> appID \<Longrightarrow> crashes ?s k = crashes s0 k"
    using snoc by (auto simp: sorted_append)
  have e: "times (crashOf ?s appID) = []" if "ts = []"
    using that snoc.prems(2) by (simp add: crashAll_def crashOf_def emptyCrash_def)
  have le: "last ts \<le> t" if "ts \<noteq> []" using that snoc.prems(1) by (simp add: sorted_append)
  have keep: "filter (\<lambda>u. t - crashLoopWindow < u) (times (crashOf ?s appID)) = filter (\<lambda>u. t - crashLoopWindow < u) ts"
  proof (cases "ts = []")
    case False
    then show ?thesis using ih(1) le by (auto intro!: filter_cong)
  next
    case True
    then show ?thesis using e[OF True] by simp
  qed
  have st: "crashAll appID s0 (ts @ [t]) = fst (recordCrash t ?s appID)" by (simp add: crashAll_def)
  have w: "0 < crashLoopWindow" by (simp add: crashLoopWindow_def second_ns_def)
  have cr: "crashOf (crashAll appID s0 (ts @ [t])) appID =
      \<lparr> times = filter (\<lambda>u. t - crashLoopWindow < u) (ts @ [t]),
        suspended = (looping ts \<or> length (filter (\<lambda>u. t - crashLoopWindow < u) (ts @ [t])) > maxCrashesInWindow) \<rparr>"
    using w by (simp add: crashOf_def st recordCrash_crashes Let_def ih(2)[unfolded crashOf_def] keep[unfolded crashOf_def])
  show ?case
    unfolding cr looping_snoc
    using ih(3) by (simp add: st recordCrash_crashes)
qed



section \<open>Back-off on bad signatures\<close>

text \<open>Scans at the given times of a directory whose manifest, with the same bytes, keeps failing: the
  state after them and the times at which the signature was checked.\<close>

fun sigScans :: "string \<Rightarrow> string \<Rightarrow> string \<Rightarrow> trustErr \<Rightarrow> supervisor \<Rightarrow> gotime list \<Rightarrow> supervisor \<times> gotime list" where
  "sigScans dirName appID hash verr s [] = (s, [])"
| "sigScans dirName appID hash verr s (t # ts) =
     (if shouldAttemptSignature t s dirName hash
      then (case sigScans dirName appID hash verr (noteSignatureFailure t s dirName appID hash verr) ts of
          (s', as) \<Rightarrow> (s', t # as))
      else sigScans dirName appID hash verr s ts)"

text \<open>The delay after the \<open>k\<close>-th failure in a row.\<close>

definition sigDelay :: "nat \<Rightarrow> duration" where
  "sigDelay k = min (sigBackoffStart * 2 ^ k) sigBackoffMax"

text \<open>Successive attempts keep the growing distance, starting after failure number \<open>k\<close>.\<close>

fun spaced :: "nat \<Rightarrow> gotime list \<Rightarrow> bool" where
  "spaced k (a # b # as) = (a + sigDelay k \<le> b \<and> spaced (Suc k) (b # as))"
| "spaced k _ = True"

lemma nextBackoff_sigDelay: "nextBackoff (sigDelay k) sigBackoffMax = sigDelay (Suc k)"
proof -
  have "0 < sigBackoffStart * 2 ^ k" "0 < sigBackoffMax"
    by (simp_all add: sigBackoffStart_def sigBackoffMax_def second_ns_def)
  then show ?thesis by (auto simp: nextBackoff_def sigDelay_def Let_def min_def)
qed

definition failedRecord :: "string \<Rightarrow> nat \<Rightarrow> gotime \<Rightarrow> sigFailRecord" where
  "failedRecord hash k t = \<lparr> sfHash = hash, sfFails = int (Suc k), sfBackoff = sigDelay k, sfNextRetry = t + sigDelay k,
     sfLogged = True, sfQuarantined = (sigQuarantineAfter \<le> int (Suc k)) \<rparr>"

lemma note_first:
  "sigFails s dirName = None \<or> sfHash (the (sigFails s dirName)) \<noteq> hash \<Longrightarrow>
     noteSignatureFailure t s dirName appID hash verr = s\<lparr>sigFails := (sigFails s)(dirName \<mapsto> failedRecord hash 0 t),
       logs := logs s @ [SigFailed appID dirName verr]\<rparr>"
  by (cases "sigFails s dirName")
     (auto simp: noteSignatureFailure_def failedRecord_def Let_def sigQuarantineAfter_def sigDelay_def sigBackoffMax_def
       sigBackoffStart_def second_ns_def)

lemma note_again:
  "sigFails s dirName = Some (failedRecord hash k t0) \<Longrightarrow>
     noteSignatureFailure t s dirName appID hash verr = s\<lparr>sigFails := (sigFails s)(dirName \<mapsto> failedRecord hash (Suc k) t),
       logs := logs s @ (if Suc (Suc k) = 5 then [Quarantined appID dirName 5 (take 12 hash)] else [])\<rparr>"
  by (auto simp: noteSignatureFailure_def failedRecord_def Let_def sigQuarantineAfter_def nextBackoff_sigDelay)

lemma sigScans_again:
  assumes "sigFails s dirName = Some (failedRecord hash k t0)"
  shows "case sigScans dirName appID hash verr s ts of (s', as) \<Rightarrow>
      spaced k (t0 # as) \<and> logs s' = logs s @ (if k < 4 \<and> 4 \<le> k + length as then [Quarantined appID dirName 5 (take 12 hash)] else [])"
  using assms
proof (induction ts arbitrary: s k t0)
  case (Cons t ts)
  show ?case
  proof (cases "shouldAttemptSignature t s dirName hash")
    case True
    then have le: "t0 + sigDelay k \<le> t" using Cons.prems by (simp add: shouldAttemptSignature_def failedRecord_def)
    let ?s = "noteSignatureFailure t s dirName appID hash verr"
    have f: "sigFails ?s dirName = Some (failedRecord hash (Suc k) t)"
      and l: "logs ?s = logs s @ (if k = 3 then [Quarantined appID dirName 5 (take 12 hash)] else [])"
      using note_again[OF Cons.prems, of t appID verr] by simp_all
    obtain s' as where r: "sigScans dirName appID hash verr ?s ts = (s', as)" by fastforce
    have ih: "spaced (Suc k) (t # as)"
      "logs s' = logs ?s @ (if Suc k < 4 \<and> 4 \<le> Suc k + length as then [Quarantined appID dirName 5 (take 12 hash)] else [])"
      using Cons.IH[OF f] r by simp_all
    show ?thesis using True le ih l r by auto
  next
    case False
    then show ?thesis using Cons.IH[OF Cons.prems] by simp
  qed
qed simp

text \<open>A manifest that keeps failing its signature check neither floods the log nor spins: over any
  scans, the first failure is logged once and the quarantine once at the fifth failure, nothing else is;
  and the attempts are at least 2 s, 4 s, 8 s and so on up to 5 min apart.\<close>

theorem signature_backoff:
  assumes "sigFails s dirName = None"
  shows "case sigScans dirName appID hash verr s ts of (s', as) \<Rightarrow>
      spaced 0 as \<and> logs s' = logs s @ (if as = [] then [] else [SigFailed appID dirName verr])
        @ (if 5 \<le> length as then [Quarantined appID dirName 5 (take 12 hash)] else [])"
proof (cases ts)
  case (Cons t ts')
  let ?s = "noteSignatureFailure t s dirName appID hash verr"
  have n: "?s = s\<lparr>sigFails := (sigFails s)(dirName \<mapsto> failedRecord hash 0 t), logs := logs s @ [SigFailed appID dirName verr]\<rparr>"
    using assms by (simp add: note_first)
  then have "sigFails ?s dirName = Some (failedRecord hash 0 t)" by simp
  from sigScans_again[OF this, of appID verr ts'] show ?thesis
    using assms n by (auto simp: Cons shouldAttemptSignature_def split: prod.splits)
qed simp

theorem signature_backoff_witness:
  "case sigScans ''io.a'' ''io.a'' ''00'' (BadSignature VerificationFailed) exampleSupervisor [0, 1, 2000000000] of (s', as) \<Rightarrow>
      spaced 0 as \<and> logs s' = (if as = [] then [] else [SigFailed ''io.a'' ''io.a'' (BadSignature VerificationFailed)])
        @ (if 5 \<le> length as then [Quarantined ''io.a'' ''io.a'' 5 ''00''] else [])"
proof -
  have "sigFails exampleSupervisor ''io.a'' = None" and l: "logs exampleSupervisor = []"
    by (simp_all add: exampleSupervisor_def newSupervisor_def)
  from signature_backoff[OF this(1), where appID = "''io.a''" and hash = "''00''" and verr = "BadSignature VerificationFailed" and ts = "[0, 1, 2000000000]"]
  show ?thesis by (simp add: l del: sigScans.simps split: prod.splits)
qed

section \<open>Notes\<close>

text \<open>A second scan that skips the same directories for the same reasons logs nothing.\<close>

lemma noteSkipped_again:
  assumes "distinct (map fst skipped)"
  shows "logs (noteSkipped (noteSkipped s skipped) skipped) = logs (noteSkipped s skipped)"
proof -
  have "skipLogged (noteSkipped s skipped) = map_option msg \<circ> map_of skipped" by (simp add: noteSkipped_def Let_def)
  moreover have "filter (\<lambda>(name, n). (map_option msg \<circ> map_of skipped) name \<noteq> Some (msg n)) skipped = []"
    using assms by (auto simp: filter_empty_conv map_of_is_SomeI)
  ultimately show ?thesis by (simp add: noteSkipped_def[of "noteSkipped s skipped"] Let_def)
qed

lemma warnOnce_again: "warnOnce (fst (warnOnce s key m)) key m = (fst (warnOnce s key m), False)"
  by (simp add: warnOnce_def)

end
