(* ===== verification/Scan.thy ===== *)
theory Scan
  imports Bookkeeping
begin

text \<open>
  \<^verbatim>\<open>scanInstalled\<close> and \<^verbatim>\<open>registerInstalled\<close> of
  \<^verbatim>\<open>plugin/appstore/supervisor.go\<close>: which directories below the install root become installed
  apps. The texts of parse errors, the working directory and the cryptographic functions are the record
  \<open>scanEnv\<close>; \<open>clk name\<close> is the clock while the scan is at directory \<open>name\<close>.
\<close>

section \<open>The scan\<close>

record scanEnv =
  parseError :: "bytes \<Rightarrow> string"
  crypt :: crypto
  workDir :: "string option"

text \<open>\<^verbatim>\<open>manifest.Parse\<close> with the text of its error.\<close>

definition parseManifest :: "scanEnv \<Rightarrow> bytes \<Rightarrow> string + manifest" where
  "parseManifest env bs = (case Parse (cfloats (crypt env)) bs of None \<Rightarrow> Inl (parseError env bs) | Some m \<Rightarrow> Inr m)"

definition sha256Hex :: "crypto \<Rightarrow> bytes \<Rightarrow> string" where
  "sha256Hex cr b = hexEncode (csha256 cr b)"

datatype scanResult = Adopted installedApp | SkippedFor skipNote | Misnamed string | Silent

definition manifestPath :: "string \<Rightarrow> string" where
  "manifestPath dir = Join [dir, ''manifest.json'']"

text \<open>What the catalogue pins for an app; empty when there is no catalogue or no pin.\<close>

definition pinnedPublisher :: "config \<Rightarrow> string \<Rightarrow> string" where
  "pinnedPublisher c appID = (case CataloguePublisher c of None \<Rightarrow> [] | Some f \<Rightarrow> fst (f appID))"

text \<open>The trust checks: the new state, and what to do if the app is not to be adopted.\<close>

definition scanTrust :: "scanEnv \<Rightarrow> gotime \<Rightarrow> supervisor \<Rightarrow> string \<Rightarrow> bytes \<Rightarrow> manifest \<Rightarrow> bool \<Rightarrow>
    supervisor \<times> scanResult option" where
  "scanTrust env t s name bs m sideloaded =
     (if sideloaded then
        (case EnforceSideloadPolicy SideloadAllowedCaps (Some m) of
           Some e \<Rightarrow> (s, Some (SkippedFor \<lparr> msg = SideloadViolation name e, warn = True \<rparr>))
         | None \<Rightarrow> (s, None))
      else
        (let hash = sha256Hex (crypt env) bs in
         if \<not> shouldAttemptSignature t s name hash then (s, Some Silent)
         else (case VerifySignature (crypt env) m of
             Some e \<Rightarrow> (noteSignatureFailure t s name (ID m) hash (BadSignature e), Some Silent)
           | None \<Rightarrow>
               (case VerifyTrustAnchor m (pinnedPublisher (cfg s) (ID m)) of
                  Some e \<Rightarrow> (noteSignatureFailure t s name (ID m) hash (BadAnchor e), Some Silent)
                | None \<Rightarrow> (clearSignatureFailure s name (ID m), None)))))"

definition isSymlink :: "fsErr + node \<Rightarrow> bool" where
  "isSymlink r = (case r of Inr (Symlink _) \<Rightarrow> True | _ \<Rightarrow> False)"

definition scanBinary :: "scanEnv \<Rightarrow> files \<Rightarrow> string \<Rightarrow> string \<Rightarrow> manifest \<Rightarrow> bool \<Rightarrow> scanResult" where
  "scanBinary env f name dir m sideloaded =
     (case resolveUnder (workDir env) dir (Path (Binary m)) of
        Inl e \<Rightarrow> SkippedFor \<lparr> msg = BinaryEscapes name (Path (Binary m)) e, warn = True \<rparr>
      | Inr binaryPath \<Rightarrow>
          if isSymlink (Lstat f binaryPath)
          then SkippedFor \<lparr> msg = BinarySymlink name binaryPath, warn = True \<rparr>
          else Adopted \<lparr> Mf = m, Dir = dir, BinaryPath = binaryPath, SocketPath = Join [dir, ''app.sock''],
                 DBPath = Join [dir, ''data.db''], IDPath = Join [dir, ''identity.json''], Sideloaded = sideloaded \<rparr>)"

definition scanEntry :: "scanEnv \<Rightarrow> (string \<Rightarrow> gotime) \<Rightarrow> supervisor \<Rightarrow> string \<Rightarrow> supervisor \<times> scanResult" where
  "scanEntry env clk s name =
     (let dir = Join [InstallRoot (cfg s), name];
          mfPath = manifestPath dir;
          skip = (\<lambda>w m. (s, SkippedFor \<lparr> msg = m, warn = w \<rparr>))
      in if ReadFile (disk s) mfPath = Inl NotExist \<and> Lstat (disk s) mfPath = Inl NotExist
           then skip False (NoManifest name)
         else (case ReadFile (disk s) mfPath of
             Inl e \<Rightarrow> skip True (ReadManifest name e)
           | Inr bs \<Rightarrow>
               (case parseManifest env bs of
                  Inl e \<Rightarrow> skip True (ParseManifest name e)
                | Inr m \<Rightarrow>
                    (case Validate m of
                       e # es \<Rightarrow> skip True (InvalidManifest name e)
                     | [] \<Rightarrow>
                         if name \<noteq> ID m then (s, Misnamed (ID m))
                         else (let sideloaded = (case Stat (disk s) (Join [dir, SideloadMarkerName]) of Inl _ \<Rightarrow> False | Inr _ \<Rightarrow> True)
                               in case scanTrust env (clk name) s name bs m sideloaded of
                                    (s', Some r) \<Rightarrow> (s', r)
                                  | (s', None) \<Rightarrow> (s', scanBinary env (disk s) name dir m sideloaded))))))"

fun scanEntries :: "scanEnv \<Rightarrow> (string \<Rightarrow> gotime) \<Rightarrow> supervisor \<Rightarrow> string list \<Rightarrow> supervisor \<times> (string \<times> scanResult) list" where
  "scanEntries env clk s [] = (s, [])"
| "scanEntries env clk s (name # names) =
     (case scanEntry env clk s name of
        (s', r) \<Rightarrow> (case scanEntries env clk s' names of (s'', rs) \<Rightarrow> (s'', (name, r) # rs)))"

definition adoptedOf :: "(string \<times> scanResult) list \<Rightarrow> installedApp list" where
  "adoptedOf rs = concat (map (\<lambda>(name, r). case r of Adopted a \<Rightarrow> [a] | _ \<Rightarrow> []) rs)"

definition skippedOf :: "string set \<Rightarrow> (string \<times> scanResult) list \<Rightarrow> (string \<times> skipNote) list" where
  "skippedOf present rs =
     concat (map (\<lambda>(name, r). case r of SkippedFor n \<Rightarrow> [(name, n)] | Misnamed i \<Rightarrow> [(name, misnamedNote name i present)] | _ \<Rightarrow> []) rs)"

definition scanInstalled :: "scanEnv \<Rightarrow> (string \<Rightarrow> gotime) \<Rightarrow> supervisor \<Rightarrow> supervisor \<times> (fsErr + installedApp list)" where
  "scanInstalled env clk s =
     (case ReadDir (disk s) (InstallRoot (cfg s)) of
        Inl NotExist \<Rightarrow> (s, Inr [])
      | Inl e \<Rightarrow> (s, Inl e)
      | Inr es \<Rightarrow>
          (case scanEntries env clk s (map fst (filter snd es)) of
             (s', rs) \<Rightarrow> (noteSkipped s' (skippedOf (set (map fst es)) rs), Inr (adoptedOf rs))))"

definition registerOne :: "gotime \<Rightarrow> supervisor \<Rightarrow> installedApp \<Rightarrow> supervisor" where
  "registerOne t s a =
     (case installed s (ID (Mf a)) of
        Some existing \<Rightarrow>
          if compareVersions (AppVersion (Mf a)) (AppVersion (Mf existing)) < 0 then
            writeAuditLine t (logs_add (DowngradeAtStart (ID (Mf a)) (AppVersion (Mf a)) (AppVersion (Mf existing))) s) a
              ((audit DowngradeRefusedEv)\<lparr>Reason := ''refusing '' @ AppVersion (Mf a) @ '' (existing '' @ AppVersion (Mf existing) @ '')''\<rparr>)
          else s\<lparr>installed := (installed s)(ID (Mf a) \<mapsto> a)\<rparr>
      | None \<Rightarrow> s\<lparr>installed := (installed s)(ID (Mf a) \<mapsto> a)\<rparr>)"

definition registerInstalled :: "gotime \<Rightarrow> supervisor \<Rightarrow> installedApp list \<Rightarrow> supervisor" where
  "registerInstalled t s apps = foldl (registerOne t) s apps"

section \<open>What the scan adopts\<close>

text \<open>A directory below the install root that is an install of app \<open>a\<close>, as the trust chain wants it.\<close>

definition trustedInstall :: "scanEnv \<Rightarrow> supervisor \<Rightarrow> string \<Rightarrow> installedApp \<Rightarrow> bool" where
  "trustedInstall env s name a \<longleftrightarrow>
     (let m = Mf a; dir = Join [InstallRoot (cfg s), name] in
      (\<exists>bs. ReadFile (disk s) (manifestPath dir) = Inr bs \<and> parseManifest env bs = Inr m)
      \<and> valid_manifest m \<and> name = ID m
      \<and> Sideloaded a = (\<exists>n. Stat (disk s) (Join [dir, SideloadMarkerName]) = Inr n)
      \<and> (if Sideloaded a
         then EnforceSideloadPolicy SideloadAllowedCaps (Some m) = None
         else VerifySignature (crypt env) m = None \<and> VerifyTrustAnchor m (pinnedPublisher (cfg s) (ID m)) = None)
      \<and> resolveUnder (workDir env) dir (Path (Binary m)) = Inr (BinaryPath a)
      \<and> \<not> isSymlink (Lstat (disk s) (BinaryPath a))
      \<and> Dir a = dir \<and> SocketPath a = Join [dir, ''app.sock'']
      \<and> DBPath a = Join [dir, ''data.db''] \<and> IDPath a = Join [dir, ''identity.json''])"

lemma noteSignatureFailure_frame [simp]:
  "cfg (noteSignatureFailure t s d i h e) = cfg s" "disk (noteSignatureFailure t s d i h e) = disk s"
  "installed (noteSignatureFailure t s d i h e) = installed s"
  "d' \<noteq> d \<Longrightarrow> sigFails (noteSignatureFailure t s d i h e) d' = sigFails s d'"
  by (simp_all add: noteSignatureFailure_def Let_def)

lemma clearSignatureFailure_frame [simp]:
  "cfg (clearSignatureFailure s d i) = cfg s" "disk (clearSignatureFailure s d i) = disk s"
  "installed (clearSignatureFailure s d i) = installed s"
  "d' \<noteq> d \<Longrightarrow> sigFails (clearSignatureFailure s d i) d' = sigFails s d'"
  by (simp_all add: clearSignatureFailure_def)

lemma scanTrust_frame:
  assumes "scanTrust env t s name bs m sl = (s', r)"
  shows "cfg s' = cfg s \<and> disk s' = disk s \<and> installed s' = installed s \<and> (\<forall>d. d \<noteq> name \<longrightarrow> sigFails s' d = sigFails s d)"
  using assms by (auto simp: scanTrust_def Let_def split: if_splits option.splits)

lemma scanEntry_frame:
  assumes "scanEntry env clk s name = (s', r)"
  shows "cfg s' = cfg s \<and> disk s' = disk s \<and> installed s' = installed s \<and> (\<forall>d. d \<noteq> name \<longrightarrow> sigFails s' d = sigFails s d)"
  using assms unfolding scanEntry_def Let_def
  by (auto split: if_splits sum.splits list.splits prod.splits option.splits dest!: scanTrust_frame)

lemma scanEntry_Adopted:
  "(\<exists>s'. scanEntry env clk s name = (s', Adopted a)) \<longleftrightarrow>
     trustedInstall env s name a \<and>
     (Sideloaded a \<or> (\<exists>bs. ReadFile (disk s) (manifestPath (Dir a)) = Inr bs
        \<and> shouldAttemptSignature (clk name) s name (sha256Hex (crypt env) bs)))"
proof -
  let ?dir = "Join [InstallRoot (cfg s), name]"
  let ?mark = "Stat (disk s) (Join [?dir, SideloadMarkerName])"
  have trust: "(\<exists>s'. scanTrust env t s name bs m sl = (s', None)) \<longleftrightarrow>
      (if sl then EnforceSideloadPolicy SideloadAllowedCaps (Some m) = None
       else shouldAttemptSignature t s name (sha256Hex (crypt env) bs) \<and> VerifySignature (crypt env) m = None
         \<and> VerifyTrustAnchor m (pinnedPublisher (cfg s) (ID m)) = None)" for t bs m sl
    by (auto simp: scanTrust_def Let_def split: option.splits)
  have notAdopted: "scanTrust env t s name bs m sl \<noteq> (s', Some (Adopted b))" for t bs m sl s' b
    by (auto simp: scanTrust_def Let_def split: option.splits)
  have bin: "scanBinary env f name dir m sl = Adopted a \<longleftrightarrow>
      resolveUnder (workDir env) dir (Path (Binary m)) = Inr (BinaryPath a) \<and> \<not> isSymlink (Lstat f (BinaryPath a))
      \<and> Mf a = m \<and> Dir a = dir \<and> SocketPath a = Join [dir, ''app.sock''] \<and> DBPath a = Join [dir, ''data.db'']
      \<and> IDPath a = Join [dir, ''identity.json''] \<and> Sideloaded a = sl" for f dir m sl
    by (cases a) (auto simp: scanBinary_def split: sum.splits)
  have step: "(\<exists>s'. scanEntry env clk s name = (s', Adopted a)) \<longleftrightarrow>
      (\<exists>bs m. ReadFile (disk s) (manifestPath ?dir) = Inr bs \<and> parseManifest env bs = Inr m \<and> Validate m = [] \<and> name = ID m
        \<and> (\<exists>s'. scanTrust env (clk name) s name bs m (case ?mark of Inl _ \<Rightarrow> False | Inr _ \<Rightarrow> True) = (s', None))
        \<and> scanBinary env (disk s) name ?dir m (case ?mark of Inl _ \<Rightarrow> False | Inr _ \<Rightarrow> True) = Adopted a)"
    unfolding scanEntry_def Let_def
    using notAdopted by (auto split: if_splits sum.splits list.splits prod.splits option.splits)
  have mk: "(case ?mark of Inl _ \<Rightarrow> False | Inr _ \<Rightarrow> True) = (\<exists>n. ?mark = Inr n)" by (simp split: sum.splits)
  show ?thesis
    unfolding step mk trust bin trustedInstall_def Let_def
    by (auto simp: Validate_iff)
qed

lemma scanEntries_names: "map fst (snd (scanEntries env clk s names)) = names"
  by (induction names arbitrary: s) (simp_all split: prod.splits, metis snd_conv)

lemma scanEntries_frame: "installed (fst (scanEntries env clk s names)) = installed s"
proof (induction names arbitrary: s)
  case (Cons n names)
  obtain s1 r1 where e: "scanEntry env clk s n = (s1, r1)" by fastforce
  then show ?case
    using Cons[of s1] scanEntry_frame[OF e] by (cases "scanEntries env clk s1 names") simp
qed simp

lemma scanEntries_mem:
  assumes "(name, r) \<in> set (snd (scanEntries env clk s names))" and "distinct names"
  shows "\<exists>s0 s1. scanEntry env clk s0 name = (s1, r) \<and> cfg s0 = cfg s \<and> disk s0 = disk s \<and> sigFails s0 name = sigFails s name"
  using assms
proof (induction names arbitrary: s)
  case (Cons n names)
  obtain s1 r1 where e: "scanEntry env clk s n = (s1, r1)" by fastforce
  have rs: "snd (scanEntries env clk s (n # names)) = (n, r1) # snd (scanEntries env clk s1 names)"
    by (simp add: e split: prod.splits)
  show ?case
  proof (cases "name = n")
    case True
    have "n \<notin> fst ` set (snd (scanEntries env clk s1 names))"
      using scanEntries_names[of env clk s1 names] Cons.prems(2) by (metis distinct.simps(2) list.set_map)
    then have "(n, r) \<notin> set (snd (scanEntries env clk s1 names))" by force
    then have "r = r1" using Cons.prems(1) True unfolding rs by simp
    then show ?thesis using e True by blast
  next
    case False
    then have "(name, r) \<in> set (snd (scanEntries env clk s1 names))" using Cons.prems(1) rs by simp
    then show ?thesis using Cons.IH[of s1] Cons.prems(2) scanEntry_frame[OF e] False by fastforce
  qed
qed simp

lemma trustedInstall_cong:
  "cfg s0 = cfg s \<Longrightarrow> disk s0 = disk s \<Longrightarrow> trustedInstall env s0 name a = trustedInstall env s name a"
  by (simp add: trustedInstall_def)

lemma shouldAttempt_cong:
  "sigFails s0 name = sigFails s name \<Longrightarrow> shouldAttemptSignature t s0 name h = shouldAttemptSignature t s name h"
  by (simp add: shouldAttemptSignature_def)

text \<open>The attempt is due: the app is sideloaded, or its manifest is not within the back-off of a failure.\<close>

definition dueNow :: "scanEnv \<Rightarrow> (string \<Rightarrow> gotime) \<Rightarrow> supervisor \<Rightarrow> installedApp \<Rightarrow> bool" where
  "dueNow env clk s a \<longleftrightarrow> Sideloaded a \<or> (\<exists>bs. ReadFile (disk s) (manifestPath (Dir a)) = Inr bs
     \<and> shouldAttemptSignature (clk (ID (Mf a))) s (ID (Mf a)) (sha256Hex (crypt env) bs))"

lemma scan_adopted_iff:
  assumes "distinct names"
  shows "a \<in> set (adoptedOf (snd (scanEntries env clk s names))) \<longleftrightarrow>
    (\<exists>name \<in> set names. trustedInstall env s name a \<and> dueNow env clk s a)"
proof
  assume "a \<in> set (adoptedOf (snd (scanEntries env clk s names)))"
  then obtain name where m: "(name, Adopted a) \<in> set (snd (scanEntries env clk s names))"
    by (auto simp: adoptedOf_def split: scanResult.splits)
  then have n: "name \<in> set names" using scanEntries_names[of env clk s names] by (metis fst_conv image_eqI list.set_map)
  obtain s0 s1 where s0: "scanEntry env clk s0 name = (s1, Adopted a)" "cfg s0 = cfg s" "disk s0 = disk s" "sigFails s0 name = sigFails s name"
    using scanEntries_mem[OF m assms] by blast
  then have "trustedInstall env s0 name a \<and> (Sideloaded a \<or> (\<exists>bs. ReadFile (disk s0) (manifestPath (Dir a)) = Inr bs
        \<and> shouldAttemptSignature (clk name) s0 name (sha256Hex (crypt env) bs)))"
    using scanEntry_Adopted by blast
  moreover from this have "name = ID (Mf a)" by (auto simp: trustedInstall_def Let_def)
  ultimately show "\<exists>name \<in> set names. trustedInstall env s name a \<and> dueNow env clk s a"
    using n s0 trustedInstall_cong[OF s0(2,3)] shouldAttempt_cong[OF s0(4)] by (auto simp: dueNow_def)
next
  assume "\<exists>name \<in> set names. trustedInstall env s name a \<and> dueNow env clk s a"
  then obtain name where n: "name \<in> set names" "trustedInstall env s name a" "dueNow env clk s a" by blast
  have nm: "name = ID (Mf a)" using n(2) by (auto simp: trustedInstall_def Let_def)
  obtain r where r: "(name, r) \<in> set (snd (scanEntries env clk s names))"
    using n(1) scanEntries_names[of env clk s names] by (metis (no_types, lifting) fst_conv imageE list.set_map surj_pair)
  obtain s0 s1 where s0: "scanEntry env clk s0 name = (s1, r)" "cfg s0 = cfg s" "disk s0 = disk s" "sigFails s0 name = sigFails s name"
    using scanEntries_mem[OF r assms] by blast
  have "\<exists>s'. scanEntry env clk s0 name = (s', Adopted a)"
    unfolding scanEntry_Adopted using n s0 nm trustedInstall_cong[OF s0(2,3)] shouldAttempt_cong[OF s0(4)]
    by (auto simp: dueNow_def)
  then have "r = Adopted a" using s0(1) by simp
  then show "a \<in> set (adoptedOf (snd (scanEntries env clk s names)))" using r by (force simp: adoptedOf_def)
qed

lemma scanInstalled_apps:
  assumes "scanInstalled env clk s = (s', Inr apps)" and "ReadDir (disk s) (InstallRoot (cfg s)) = Inr es"
  shows "apps = adoptedOf (snd (scanEntries env clk s (map fst (filter snd es))))"
    and "installed s' = installed s"
  using assms scanEntries_frame[of env clk s "map fst (filter snd es)"]
  by (auto simp: scanInstalled_def noteSkipped_def Let_def split: prod.splits)

lemma scanInstalled_mem:
  assumes "scanInstalled env clk s = (s', Inr apps)" and "ReadDir (disk s) (InstallRoot (cfg s)) = Inr es"
  shows "a \<in> set apps \<longleftrightarrow>
    (\<exists>name. (name, True) \<in> set es \<and> trustedInstall env s name a \<and> dueNow env clk s a)"
proof -
  have "distinct (map fst es)" using ReadDir_distinct[OF assms(2)] .
  then have "distinct (map fst (filter snd es))" by (simp add: distinct_map_filter)
  from scan_adopted_iff[OF this, of a env clk s] show ?thesis
    using scanInstalled_apps(1)[OF assms(1,2)] by force
qed

lemma trustedInstall_unique:
  "trustedInstall env s n a \<Longrightarrow> trustedInstall env s n' b \<Longrightarrow> ID (Mf b) = ID (Mf a) \<Longrightarrow> b = a"
proof -
  assume a: "trustedInstall env s n a" and b: "trustedInstall env s n' b" and eq: "ID (Mf b) = ID (Mf a)"
  have nn: "n' = n" using a b eq unfolding trustedInstall_def Let_def by metis
  have m: "Mf b = Mf a" using a b unfolding trustedInstall_def Let_def nn by auto
  have "BinaryPath b = BinaryPath a" using a b unfolding trustedInstall_def Let_def nn m by auto
  moreover have "Sideloaded b = Sideloaded a" using a b unfolding trustedInstall_def Let_def nn by metis
  moreover have "Dir b = Dir a" "SocketPath b = SocketPath a" "DBPath b = DBPath a" "IDPath b = IDPath a"
    using a b unfolding trustedInstall_def Let_def nn by metis+
  ultimately show ?thesis using m by (intro installedApp.equality) simp_all
qed

text \<open>C34. The scan adopts exactly the trusted installs: a directory below the install root that is named
  after the app of its valid manifest, has a binary path that resolves inside it to something that is
  not a symbolic link, and either carries the sideload marker and satisfies the sideload policy or has
  a signature that verifies and is anchored in the catalogue; of these, all that are not waiting out a
  failed signature check.\<close>

theorem scan_adopts_trusted:
  assumes "scanInstalled env clk s = (s', Inr apps)" and "ReadDir (disk s) (InstallRoot (cfg s)) = Inr es"
  shows "a \<in> set apps \<longleftrightarrow>
    (\<exists>name. (name, True) \<in> set es \<and> trustedInstall env s name a \<and> dueNow env clk s a)"
  using assms by (rule scanInstalled_mem)

text \<open>The install root with one sideloaded app.\<close>

definition exampleText :: bytes where
  "exampleText = MarshalManifest intFloats False (\<lambda>_. False) exampleSideload"

definition scanDisk :: files where
  "scanDisk = \<lparr> entries = [(''/apps'', Directory), (''/apps/io.pilot.hello'', Directory),
     (''/apps/io.pilot.hello/manifest.json'', Regular exampleText), (''/apps/io.pilot.hello/.sideloaded'', Regular [])], denied = [] \<rparr>"

definition scanSupervisor :: supervisor where
  "scanSupervisor = newSupervisor exampleConfig scanDisk"

definition exampleEnv :: scanEnv where
  "exampleEnv = \<lparr> parseError = (\<lambda>_. ''error''), crypt = exampleCrypto, workDir = None \<rparr>"

lemma scanSupervisor_fields: "cfg scanSupervisor = exampleConfig" "disk scanSupervisor = scanDisk" "installed scanSupervisor = Map.empty"
  by (simp_all add: scanSupervisor_def newSupervisor_def)

lemma example_parses: "parseManifest exampleEnv exampleText = Inr exampleSideload"
proof -
  have "Parse intFloats exampleText = Some exampleSideload"
    unfolding exampleText_def
    by (rule Parse_Marshal[OF goodFloats_intFloats exampleSideload_typed]) (simp add: maxNestingDepth_def)
  then show ?thesis by (simp add: parseManifest_def exampleEnv_def exampleCrypto_def)
qed

lemma scan_example_trusted:
  "trustedInstall exampleEnv scanSupervisor ''io.pilot.hello'' exampleApp \<and> dueNow exampleEnv clk scanSupervisor exampleApp"
proof -
  have v: "valid_manifest exampleSideload" "EnforceSideloadPolicy SideloadAllowedCaps (Some exampleSideload) = None"
    using exampleSideload_ok by (simp_all add: Validate_iff)
  have "ID exampleSideload = ''io.pilot.hello''" "Join [''/apps'', ''io.pilot.hello''] = ''/apps/io.pilot.hello''"
    "resolveUnder None ''/apps/io.pilot.hello'' (Path (Binary exampleSideload)) = Inr ''/apps/io.pilot.hello/bin/hello''"
    "manifestPath ''/apps/io.pilot.hello'' = ''/apps/io.pilot.hello/manifest.json''"
    "Join [''/apps/io.pilot.hello'', SideloadMarkerName] = ''/apps/io.pilot.hello/.sideloaded''"
    "Join [''/apps/io.pilot.hello'', ''app.sock''] = ''/apps/io.pilot.hello/app.sock''"
    "Join [''/apps/io.pilot.hello'', ''data.db''] = ''/apps/io.pilot.hello/data.db''"
    "Join [''/apps/io.pilot.hello'', ''identity.json''] = ''/apps/io.pilot.hello/identity.json''"
    by code_simp+
  moreover have "ReadFile scanDisk ''/apps/io.pilot.hello/manifest.json'' = Inr exampleText"
    "Stat scanDisk ''/apps/io.pilot.hello/.sideloaded'' = Inr (Regular [])"
    "isSymlink (Lstat scanDisk ''/apps/io.pilot.hello/bin/hello'') = False"
    by (simp_all add: scanDisk_def ReadFile_def Stat_def maxLinks_def Lstat_def nodeAt_def isSymlink_def numeral_eq_Suc)
  ultimately show ?thesis
    using v example_parses
    by (simp add: trustedInstall_def dueNow_def Let_def scanSupervisor_fields exampleApp_def exampleConfig_def)
      (simp add: exampleEnv_def)
qed

lemma scan_example_dir:
  "ReadDir (disk scanSupervisor) (InstallRoot (cfg scanSupervisor)) = Inr [(''io.pilot.hello'', True)]"
proof -
  have "ReadDir \<lparr> entries = [(''/apps'', Directory), (''/apps/io.pilot.hello'', Directory),
      (''/apps/io.pilot.hello/manifest.json'', Regular t), (''/apps/io.pilot.hello/.sideloaded'', Regular [])], denied = [] \<rparr>
      ''/apps'' = Inr [(''io.pilot.hello'', True)]" for t
    by code_simp
  then have "ReadDir scanDisk ''/apps'' = Inr [(''io.pilot.hello'', True)]" by (simp only: scanDisk_def)
  then show ?thesis by (simp add: scanSupervisor_fields exampleConfig_def)
qed

lemma scan_example_runs: "\<exists>s' apps. scanInstalled exampleEnv clk scanSupervisor = (s', Inr apps)"
  using scan_example_dir by (simp add: scanInstalled_def split: prod.splits)

theorem scan_adopts_trusted_witness:
  "\<exists>s' apps. scanInstalled exampleEnv (\<lambda>_. 0) scanSupervisor = (s', Inr apps) \<and> exampleApp \<in> set apps"
proof -
  obtain s' apps where r: "scanInstalled exampleEnv (\<lambda>_. 0) scanSupervisor = (s', Inr apps)"
    using scan_example_runs by blast
  then show ?thesis
    using scan_adopts_trusted[OF r scan_example_dir, of exampleApp] scan_example_trusted by auto
qed

text \<open>What the scan adopts is confined: its binary lies below its own directory, and if it was
  sideloaded it holds no grant to call another app and declares no hooks; otherwise its publisher's
  signature verified under the key the catalogue pins for it. Two adopted apps never share an id.\<close>

theorem scan_confined:
  assumes "scanInstalled env clk s = (s', Inr apps)" and "ReadDir (disk s) (InstallRoot (cfg s)) = Inr es" and "\<And>wd. workDir env = Some wd \<Longrightarrow> IsAbs wd" and "a \<in> set apps"
  shows "(\<exists>bs cs. Abs (workDir env) (Dir a) = Some (absPath bs) \<and> BinaryPath a = absPath (bs @ cs) \<and> list_all plainComp (bs @ cs))
    \<and> (Sideloaded a \<longrightarrow> \<not> HasGrant (Mf a) ''ipc.call'' target \<and> Extends (Mf a) = [])
    \<and> (\<not> Sideloaded a \<longrightarrow> (\<exists>key sig payload. decodeEd25519Pub (pinnedPublisher (cfg s) (ID (Mf a))) = Inr key
         \<and> b64Decode (trimPrefix (Signature (Store (Mf a))) ''ed25519:'') = Some sig
         \<and> signingPayload (crypt env) (Mf a) = Inr payload \<and> cverify (crypt env) key payload sig))
    \<and> list_all (\<lambda>b. ID (Mf b) = ID (Mf a) \<longrightarrow> b = a) apps"
proof -
  obtain name where n: "(name, True) \<in> set es" "trustedInstall env s name a"
    using scanInstalled_mem[OF assms(1,2)] assms(4) by blast
  have "list_all (\<lambda>b. ID (Mf b) = ID (Mf a) \<longrightarrow> b = a) apps"
    using scanInstalled_mem[OF assms(1,2)] n(2) trustedInstall_unique by (force simp: list_all_iff)
  moreover have "resolveUnder (workDir env) (Dir a) (Path (Binary (Mf a))) = Inr (BinaryPath a)"
    using n(2) by (auto simp: trustedInstall_def Let_def)
  moreover have "\<not> HasGrant (Mf a) ''ipc.call'' target \<and> Extends (Mf a) = []" if "Sideloaded a"
    using n(2) that
    by (auto simp: trustedInstall_def Let_def EnforceSideloadPolicy_None_iff HasGrant_def list_ex_iff sideload_grant_ok_def)
  moreover have "\<exists>key sig payload. decodeEd25519Pub (pinnedPublisher (cfg s) (ID (Mf a))) = Inr key
      \<and> b64Decode (trimPrefix (Signature (Store (Mf a))) ''ed25519:'') = Some sig
      \<and> signingPayload (crypt env) (Mf a) = Inr payload \<and> cverify (crypt env) key payload sig" if "\<not> Sideloaded a"
    using n(2) that trust_chain_key[of "crypt env" "Mf a" "pinnedPublisher (cfg s) (ID (Mf a))"]
    by (auto simp: trustedInstall_def Let_def)
  ultimately show ?thesis using resolveUnder_inside[OF _ assms(3)] by blast
qed

theorem scan_confined_witness:
  "\<exists>bs cs. Abs None (Dir exampleApp) = Some (absPath bs) \<and> BinaryPath exampleApp = absPath (bs @ cs)"
proof -
  obtain s' apps where r: "scanInstalled exampleEnv (\<lambda>_. 0) scanSupervisor = (s', Inr apps)"
    using scan_example_runs by blast
  moreover from this have "exampleApp \<in> set apps"
    using scanInstalled_mem[OF r scan_example_dir, of exampleApp] scan_example_trusted by auto
  moreover have "workDir exampleEnv = None" by (simp add: exampleEnv_def)
  ultimately show ?thesis using scan_confined[OF r scan_example_dir, of exampleApp "''io.pilot.hello.echo''"] by auto
qed

end
