(* ===== verification/Rescan.thy ===== *)
theory Rescan
  imports Scan
begin

text \<open>
  The rescan of \<^verbatim>\<open>plugin/appstore/supervisor.go\<close>: \<^verbatim>\<open>rescanForNew\<close>, \<^verbatim>\<open>rescanForGone\<close> and
  \<^verbatim>\<open>rescanForResume\<close>, which keep the table of installed apps in step with the install root. \<open>clkA i\<close> is
  the clock when an audit line of app \<open>i\<close> is written; \<open>ids\<close> is the order in which Go walks the
  table of installed apps.
\<close>

section \<open>Operations\<close>

text \<open>The right arrow of the audit lines, in UTF-8.\<close>

definition arrow :: string where "arrow = [CHR 0xE2, CHR 0x86, CHR 0x92]"

definition suspendedMarkerName :: string where "suspendedMarkerName = ''.suspended''"
definition resumeMarkerName :: string where "resumeMarkerName = ''.resume''"

text \<open>Calling an app's cancel function and forgetting it, where there is one.\<close>

definition cancelApp :: "supervisor \<Rightarrow> string \<Rightarrow> supervisor" where
  "cancelApp s i =
     (case appCancel s i of
        None \<Rightarrow> s
      | Some n \<Rightarrow> s\<lparr>appCancel := (appCancel s)(i := None), cancelled := cancelled s @ [n]\<rparr>)"

definition removeSuspended :: "supervisor \<Rightarrow> installedApp \<Rightarrow> supervisor" where
  "removeSuspended s a =
     (case Remove (disk s) (Join [Dir a, suspendedMarkerName]) of
        (f, e) \<Rightarrow> s\<lparr>disk := f, logs := logs s @
          (case e of Some (FsError p) \<Rightarrow> [SuspendedMarkerErr (ID (Mf a)) (FsError p)] | _ \<Rightarrow> [])\<rparr>)"

definition forgetReady :: "supervisor \<Rightarrow> string \<Rightarrow> supervisor" where
  "forgetReady s i = s\<lparr>ready := (ready s)(i := None)\<rparr>"

definition forgetCrashes :: "supervisor \<Rightarrow> string \<Rightarrow> supervisor" where
  "forgetCrashes s i = s\<lparr>crashes := (crashes s)(i := None)\<rparr>"

definition install :: "supervisor \<Rightarrow> installedApp \<Rightarrow> supervisor" where
  "install s a = s\<lparr>installed := (installed s)(ID (Mf a) \<mapsto> a)\<rparr>"

text \<open>The same version with another binary.\<close>

definition rebuildApp :: "(string \<Rightarrow> gotime) \<Rightarrow> supervisor \<Rightarrow> installedApp \<Rightarrow> installedApp \<Rightarrow> supervisor" where
  "rebuildApp clkA s existing a =
     (let i = ID (Mf a); v = AppVersion (Mf a);
          old = shortSHA (SHA256 (Binary (Mf existing))); new = shortSHA (SHA256 (Binary (Mf a)));
          s = forgetCrashes (forgetReady (cancelApp s i) i) i;
          s = logs_add (RebuiltBundle i v old new) (removeSuspended s a);
          s = writeAuditLine (clkA i) s a ((audit RebuildApplied)\<lparr>
                Reason := ''rescan: '' @ v @ '' rebuilt, binary '' @ old @ '' '' @ arrow @ '' '' @ new,
                EvSHA := SHA256 (Binary (Mf a)), BinaryAt := BinaryPath a\<rparr>)
      in install s a)"

text \<open>An older version on disk: said once per version and binary.\<close>

definition refuseDowngrade :: "(string \<Rightarrow> gotime) \<Rightarrow> supervisor \<Rightarrow> installedApp \<Rightarrow> installedApp \<Rightarrow> supervisor" where
  "refuseDowngrade clkA s existing a =
     (let i = ID (Mf a); v = AppVersion (Mf a); v0 = AppVersion (Mf existing) in
      case warnOnce s (''downgrade/'' @ i) (DowngradeRefused i v (shortSHA (SHA256 (Binary (Mf a)))) v0) of
        (s, True) \<Rightarrow> writeAuditLine (clkA i) s a ((audit DowngradeRefusedEv)\<lparr>
            Reason := ''rescan: refusing '' @ v @ '' (existing '' @ v0 @ '')''\<rparr>)
      | (s, False) \<Rightarrow> s)"

definition upgradeApp :: "(string \<Rightarrow> gotime) \<Rightarrow> supervisor \<Rightarrow> installedApp \<Rightarrow> installedApp \<Rightarrow> supervisor" where
  "upgradeApp clkA s existing a =
     (let i = ID (Mf a); v = AppVersion (Mf a); v0 = AppVersion (Mf existing);
          s = forgetReady (cancelApp (clearWarned s (''downgrade/'' @ i)) i) i
      in writeAuditLine (clkA i) (logs_add (VersionUpgrade i v0 v) s) a ((audit UpgradeApplied)\<lparr>
           Reason := ''rescan: '' @ v0 @ '' '' @ arrow @ '' '' @ v, EvSHA := SHA256 (Binary (Mf a)), BinaryAt := BinaryPath a\<rparr>))"

definition adoptNew :: "supervisor \<Rightarrow> installedApp \<Rightarrow> supervisor" where
  "adoptNew s a = logs_add (NewApp (ID (Mf a)) (Dir a)) (install (forgetCrashes s (ID (Mf a))) a)"

text \<open>One app of the walk: the new state, and whether the app needs a goroutine.\<close>

definition rescanOne :: "(string \<Rightarrow> gotime) \<Rightarrow> supervisor \<Rightarrow> installedApp \<Rightarrow> supervisor \<times> bool" where
  "rescanOne clkA s a =
     (case installed s (ID (Mf a)) of
        None \<Rightarrow> (adoptNew s a, True)
      | Some existing \<Rightarrow>
          if AppVersion (Mf existing) = AppVersion (Mf a) then
            if SHA256 (Binary (Mf existing)) = SHA256 (Binary (Mf a)) then (s, False)
            else (rebuildApp clkA s existing a, True)
          else if compareVersions (AppVersion (Mf a)) (AppVersion (Mf existing)) < 0
            then (refuseDowngrade clkA s existing a, False)
          else (adoptNew (upgradeApp clkA s existing a) a, True))"

fun rescanApps :: "(string \<Rightarrow> gotime) \<Rightarrow> supervisor \<Rightarrow> installedApp list \<Rightarrow> supervisor \<times> installedApp list" where
  "rescanApps clkA s [] = (s, [])"
| "rescanApps clkA s (a # apps) =
     (case rescanOne clkA s a of
        (s', isFresh) \<Rightarrow> (case rescanApps clkA s' apps of (s'', rest) \<Rightarrow> (s'', if isFresh then a # rest else rest)))"

definition rescanForNew :: "scanEnv \<Rightarrow> (string \<Rightarrow> gotime) \<Rightarrow> (string \<Rightarrow> gotime) \<Rightarrow> supervisor \<Rightarrow> supervisor \<times> installedApp list" where
  "rescanForNew env clk clkA s =
     (case scanInstalled env clk s of
        (s', Inl e) \<Rightarrow> (fst (warnOnce s' ''rescan'' (RescanErr e)), [])
      | (s', Inr apps) \<Rightarrow> rescanApps clkA (clearWarned s' ''rescan'') apps)"

definition goneOne :: "supervisor \<Rightarrow> string \<Rightarrow> supervisor" where
  "goneOne s i =
     (case installed s i of
        None \<Rightarrow> s
      | Some a \<Rightarrow>
          (case Stat (disk s) (manifestPath (Dir a)) of
             Inr _ \<Rightarrow> s
           | Inl _ \<Rightarrow>
               (let s = cancelApp s i;
                    s = s\<lparr>installed := (installed s)(i := None)\<rparr>
                in logs_add (AppGone i) (forgetCrashes (forgetReady s i) i))))"

definition rescanForGone :: "string list \<Rightarrow> supervisor \<Rightarrow> supervisor" where
  "rescanForGone ids s = foldl goneOne s ids"

definition resumeOne :: "(string \<Rightarrow> gotime) \<Rightarrow> supervisor \<Rightarrow> string \<Rightarrow> supervisor \<times> installedApp list" where
  "resumeOne clkA s i =
     (case installed s i of
        None \<Rightarrow> (s, [])
      | Some a \<Rightarrow>
          (let markerPath = Join [Dir a, resumeMarkerName] in
           case Stat (disk s) markerPath of
             Inl _ \<Rightarrow> (s, [])
           | Inr _ \<Rightarrow>
               (case Remove (disk s) markerPath of
                  (f, Some e) \<Rightarrow> (fst (warnOnce s (''resume/'' @ i) (ResumeMarker i e)), [])
                | (f, None) \<Rightarrow>
                    (let s = clearWarned (s\<lparr>disk := f\<rparr>) (''resume/'' @ i);
                         s = forgetCrashes s i;
                         s = s\<lparr>appCancel := (appCancel s)(i := None)\<rparr>;
                         s = removeSuspended s a;
                         s = writeAuditLine (clkA i) s a ((audit ResumeEv)\<lparr>Reason := ''operator requested via .resume marker''\<rparr>)
                     in (logs_add (AppResumed i) s, [a])))))"

fun rescanForResume :: "(string \<Rightarrow> gotime) \<Rightarrow> string list \<Rightarrow> supervisor \<Rightarrow> supervisor \<times> installedApp list" where
  "rescanForResume clkA [] s = (s, [])"
| "rescanForResume clkA (i # ids) s =
     (case resumeOne clkA s i of
        (s', as) \<Rightarrow> (case rescanForResume clkA ids s' of (s'', bs) \<Rightarrow> (s'', as @ bs)))"

section \<open>What each operation leaves alone\<close>

named_theorems sup_frame \<open>fields of the supervisor an operation keeps\<close>

lemma rotateAudit_frame [sup_frame]:
  "cfg (rotateAuditIfLarge s d) = cfg s"
  "installed (rotateAuditIfLarge s d) = installed s" "appCancel (rotateAuditIfLarge s d) = appCancel s"
  "cancelled (rotateAuditIfLarge s d) = cancelled s" "crashes (rotateAuditIfLarge s d) = crashes s"
  "ready (rotateAuditIfLarge s d) = ready s" "reinstalled (rotateAuditIfLarge s d) = reinstalled s"
  by (auto simp: rotateAuditIfLarge_def rotateGenerations_def Let_def split: sum.splits prod.splits)

lemma writeAuditLine_frame [sup_frame]:
  "cfg (writeAuditLine t s a ev) = cfg s"
  "installed (writeAuditLine t s a ev) = installed s" "appCancel (writeAuditLine t s a ev) = appCancel s"
  "cancelled (writeAuditLine t s a ev) = cancelled s" "crashes (writeAuditLine t s a ev) = crashes s"
  "ready (writeAuditLine t s a ev) = ready s" "reinstalled (writeAuditLine t s a ev) = reinstalled s"
  by (auto simp: writeAuditLine_def Let_def logs_add_def sup_frame split: prod.splits option.splits fsErr.splits)

lemma removeSuspended_frame [sup_frame]:
  "cfg (removeSuspended s a) = cfg s"
  "installed (removeSuspended s a) = installed s" "appCancel (removeSuspended s a) = appCancel s"
  "cancelled (removeSuspended s a) = cancelled s" "crashes (removeSuspended s a) = crashes s"
  "ready (removeSuspended s a) = ready s" "reinstalled (removeSuspended s a) = reinstalled s"
  by (auto simp: removeSuspended_def split: prod.splits)

lemma warnOnce_frame [sup_frame]:
  "cfg (fst (warnOnce s k m)) = cfg s" "installed (fst (warnOnce s k m)) = installed s"
  "appCancel (fst (warnOnce s k m)) = appCancel s" "cancelled (fst (warnOnce s k m)) = cancelled s"
  "crashes (fst (warnOnce s k m)) = crashes s" "disk (fst (warnOnce s k m)) = disk s"
  by (auto simp: warnOnce_def)

lemma refuseDowngrade_frame [sup_frame]:
  "cfg (refuseDowngrade clkA s e a) = cfg s" "installed (refuseDowngrade clkA s e a) = installed s"
  "appCancel (refuseDowngrade clkA s e a) = appCancel s" "cancelled (refuseDowngrade clkA s e a) = cancelled s"
  "crashes (refuseDowngrade clkA s e a) = crashes s"
  by (auto simp: refuseDowngrade_def Let_def warnOnce_def sup_frame split: prod.splits)

lemma cancelApp_frame [sup_frame]:
  "cfg (cancelApp s i) = cfg s" "installed (cancelApp s i) = installed s"
  "appCancel (cancelApp s i) = (appCancel s)(i := None)"
  "set (cancelled (cancelApp s i)) = set (cancelled s) \<union> set_option (appCancel s i)"
  "disk (cancelApp s i) = disk s" "crashes (cancelApp s i) = crashes s"
  by (auto simp: cancelApp_def split: option.splits)

lemma simple_frame [sup_frame]:
  "installed (logs_add l s) = installed s" "appCancel (logs_add l s) = appCancel s" "cancelled (logs_add l s) = cancelled s"
  "cfg (logs_add l s) = cfg s" "disk (logs_add l s) = disk s" "crashes (logs_add l s) = crashes s"
  "installed (forgetReady s i) = installed s" "appCancel (forgetReady s i) = appCancel s" "cancelled (forgetReady s i) = cancelled s"
  "cfg (forgetReady s i) = cfg s" "disk (forgetReady s i) = disk s" "crashes (forgetReady s i) = crashes s"
  "installed (forgetCrashes s i) = installed s" "appCancel (forgetCrashes s i) = appCancel s" "cancelled (forgetCrashes s i) = cancelled s"
  "cfg (forgetCrashes s i) = cfg s" "disk (forgetCrashes s i) = disk s" "crashes (forgetCrashes s i) = (crashes s)(i := None)"
  "installed (clearWarned s k) = installed s" "appCancel (clearWarned s k) = appCancel s" "cancelled (clearWarned s k) = cancelled s"
  "cfg (clearWarned s k) = cfg s" "disk (clearWarned s k) = disk s" "crashes (clearWarned s k) = crashes s"
  "installed (install s a) = (installed s)(ID (Mf a) \<mapsto> a)" "appCancel (install s a) = appCancel s"
  "cancelled (install s a) = cancelled s" "cfg (install s a) = cfg s" "disk (install s a) = disk s" "crashes (install s a) = crashes s"
  by (simp_all add: logs_add_def forgetReady_def forgetCrashes_def clearWarned_def install_def)

end
