(* ===== verification/Reap.thy ===== *)
theory Reap
  imports Rescan
begin

text \<open>
  \<^verbatim>\<open>plugin/appstore/reap.go\<close> and \<^verbatim>\<open>rlimit_linux.go\<close>: terminating processes and limiting them.
  The operating system is a process table with a clock. A process leads or joins a group, may take
  some time to exit after SIGTERM or never do so, and may be unreadable at times; time passes in
  \<^verbatim>\<open>time.Sleep\<close> only. A process that has exited is reaped at once.
\<close>

section \<open>Processes\<close>

record proc =
  cmdline :: "gotime \<Rightarrow> bytes option"
  pgrp :: int
  termDelay :: "duration option"
  exitAt :: "gotime option"

record os =
  clock :: gotime
  procs :: "(int \<times> proc) list"
  self :: int

datatype signal = SIG0 | SIGTERM | SIGKILL

definition aliveAt :: "gotime \<Rightarrow> proc \<Rightarrow> bool" where
  "aliveAt t p = (case exitAt p of None \<Rightarrow> True | Some e \<Rightarrow> t < e)"

definition alive :: "os \<Rightarrow> int \<Rightarrow> bool" where
  "alive w pid = (case map_of (procs w) pid of None \<Rightarrow> False | Some p \<Rightarrow> aliveAt (clock w) p)"

definition exitBy :: "gotime \<Rightarrow> proc \<Rightarrow> proc" where
  "exitBy t p = p\<lparr>exitAt := Some (case exitAt p of None \<Rightarrow> t | Some e \<Rightarrow> min e t)\<rparr>"

definition deliver :: "gotime \<Rightarrow> signal \<Rightarrow> proc \<Rightarrow> proc" where
  "deliver t sg p =
     (case sg of
        SIG0 \<Rightarrow> p
      | SIGTERM \<Rightarrow> (case termDelay p of None \<Rightarrow> p | Some d \<Rightarrow> exitBy (t + d) p)
      | SIGKILL \<Rightarrow> exitBy t p)"

definition hits :: "os \<Rightarrow> int \<Rightarrow> int \<Rightarrow> proc \<Rightarrow> bool" where
  "hits w target q p = (aliveAt (clock w) p \<and> (if target < 0 then pgrp p = - target else q = target))"

text \<open>\<^verbatim>\<open>syscall.Kill\<close>: whether there was a process to signal, and the table after the signal.\<close>

definition Kill :: "os \<Rightarrow> int \<Rightarrow> signal \<Rightarrow> os \<times> bool" where
  "Kill w target sg =
     (if list_ex (\<lambda>(q, p). hits w target q p) (procs w)
      then (w\<lparr>procs := map (\<lambda>(q, p). (q, if hits w target q p then deliver (clock w) sg p else p)) (procs w)\<rparr>, True)
      else (w, False))"

definition Sleep :: "os \<Rightarrow> duration \<Rightarrow> os" where
  "Sleep w d = w\<lparr>clock := clock w + d\<rparr>"

definition millisecond :: duration where "millisecond = 1000000"

section \<open>Reaping stale instances\<close>

definition reapGrace :: duration where "reapGrace = 3 * second_ns"
definition reapPasses :: nat where "reapPasses = 3"

definition hasArg :: "bytes \<Rightarrow> string \<Rightarrow> bool" where
  "hasArg raw want = list_ex (\<lambda>arg. arg = want) (splitOn (CHR 0x00) raw)"

definition listPids :: "os \<Rightarrow> int list" where
  "listPids w = map fst (filter (\<lambda>(q, p). aliveAt (clock w) p) (procs w))"

definition processArgs :: "os \<Rightarrow> int \<Rightarrow> bytes option" where
  "processArgs w pid = (case map_of (procs w) pid of None \<Rightarrow> None | Some p \<Rightarrow> cmdline p (clock w))"

definition findInstances :: "os \<Rightarrow> string \<Rightarrow> string \<Rightarrow> int list" where
  "findInstances w binaryPath socketPath =
     filter (\<lambda>pid. \<not> (pid \<le> 1 \<or> pid = self w) \<and>
       (case processArgs w pid of None \<Rightarrow> False | Some args \<Rightarrow> hasArg args binaryPath \<and> hasArg args socketPath))
       (listPids w)"

text \<open>The pids not seen before, each once.\<close>

fun freshPids :: "int list \<Rightarrow> int list \<Rightarrow> int list" where
  "freshPids seen [] = []"
| "freshPids seen (p # ps) = (if p \<in> set seen then freshPids seen ps else p # freshPids (p # seen) ps)"

text \<open>The group the process leads, or else the process alone.\<close>

definition signalGroup :: "os \<Rightarrow> int \<Rightarrow> signal \<Rightarrow> os" where
  "signalGroup w pid sg =
     (case Kill w (- pid) sg of (w', True) \<Rightarrow> w' | (w', False) \<Rightarrow> fst (Kill w' pid sg))"

text \<open>Sleeping in steps until the process is gone or the deadline has passed.\<close>

function waitGone :: "os \<Rightarrow> int \<Rightarrow> gotime \<Rightarrow> os" where
  "waitGone w pid deadline =
     (if clock w < deadline \<and> snd (Kill w pid SIG0) then waitGone (Sleep w (50 * millisecond)) pid deadline else w)"
  by pat_completeness auto
termination
  by (relation "measure (\<lambda>(w, pid, deadline). nat (deadline - clock w))") (auto simp: Sleep_def millisecond_def)

declare waitGone.simps [simp del]

definition finishOff :: "gotime \<Rightarrow> os \<Rightarrow> int \<Rightarrow> os" where
  "finishOff deadline w pid =
     (let w = waitGone w pid deadline in if snd (Kill w pid SIG0) then signalGroup w pid SIGKILL else w)"

definition reapAll :: "os \<Rightarrow> int list \<Rightarrow> os" where
  "reapAll w pids =
     (let w = foldl (\<lambda>w pid. signalGroup w pid SIGTERM) w pids;
          deadline = clock w + reapGrace
      in foldl (finishOff deadline) w pids)"

fun reapFrom :: "nat \<Rightarrow> installedApp \<Rightarrow> os \<Rightarrow> int list \<Rightarrow> int list \<Rightarrow> os \<times> int list" where
  "reapFrom 0 a w seen reaped = (w, reaped)"
| "reapFrom (Suc k) a w seen reaped =
     (let pids = freshPids seen (findInstances w (BinaryPath a) (SocketPath a)) in
      if pids = [] then
        if Suc k < reapPasses \<or> reaped \<noteq> [] then (w, reaped)
        else reapFrom k a (Sleep w (20 * millisecond)) seen reaped
      else reapFrom k a (reapAll w pids) (pids @ seen) (reaped @ pids))"

definition reapStale :: "supervisor \<Rightarrow> os \<Rightarrow> installedApp \<Rightarrow> supervisor \<times> os \<times> int list" where
  "reapStale s w a =
     (case reapFrom reapPasses a w [] [] of
        (w', reaped) \<Rightarrow> (s\<lparr>logs := logs s @ map (ReapingStale (ID (Mf a))) reaped\<rparr>, w', reaped))"

section \<open>Stopping an app\<close>

definition appStopGrace :: duration where "appStopGrace = 3 * second_ns"
definition stopPollInterval :: duration where "stopPollInterval = 20 * millisecond"

text \<open>\<^verbatim>\<open>p.Kill\<close> and \<^verbatim>\<open>p.Signal\<close> fail once the process has been reaped.\<close>

datatype stopErr = ErrProcessDone

definition killAppGroup :: "os \<Rightarrow> int \<Rightarrow> os \<times> stopErr option" where
  "killAppGroup w pid =
     (case Kill w (- pid) SIGKILL of
        (w', True) \<Rightarrow> (w', None)
      | (w', False) \<Rightarrow> (case Kill w' pid SIGKILL of (w'', ok) \<Rightarrow> (w'', if ok then None else Some ErrProcessDone)))"

function stopLoop :: "os \<Rightarrow> int \<Rightarrow> gotime \<Rightarrow> os \<times> stopErr option" where
  "stopLoop w pid deadline =
     (if clock w < deadline then
        if \<not> snd (Kill w pid SIG0) then (w, None) else stopLoop (Sleep w stopPollInterval) pid deadline
      else killAppGroup w pid)"
  by pat_completeness auto
termination
  by (relation "measure (\<lambda>(w, pid, deadline). nat (deadline - clock w))")
     (auto simp: Sleep_def stopPollInterval_def millisecond_def)

declare stopLoop.simps [simp del]

definition stopAppGroup :: "os \<Rightarrow> int \<Rightarrow> duration \<Rightarrow> os \<times> stopErr option" where
  "stopAppGroup w pid grace =
     (if \<not> snd (Kill w pid SIG0) then (w, Some ErrProcessDone)
      else (case Kill w (- pid) SIGTERM of
          (w', True) \<Rightarrow> stopLoop w' pid (clock w' + grace)
        | (w', False) \<Rightarrow>
            (case Kill w' pid SIGTERM of
               (w'', True) \<Rightarrow> stopLoop w'' pid (clock w'' + grace)
             | (w'', False) \<Rightarrow> (w'', Some ErrProcessDone))))"

section \<open>Watching the socket\<close>

definition socketCheckInterval :: duration where "socketCheckInterval = 5 * second_ns"

text \<open>One tick of \<^verbatim>\<open>watchSocket\<close>. \<open>orig\<close> and \<open>cur\<close> are the identities of the install directory (what
  \<^verbatim>\<open>os.SameFile\<close> compares) when the watch began and now, where it could be read; \<open>seen\<close> says that the
  socket has been there.\<close>

datatype watch = Watching bool | Unwatched | Restarting

definition watchTick :: "gotime \<Rightarrow> bool \<Rightarrow> supervisor \<Rightarrow> installedApp \<Rightarrow> int \<Rightarrow> nat option \<Rightarrow> nat option \<Rightarrow> bool \<Rightarrow> supervisor \<times> watch" where
  "watchTick t ctxDone s a pid orig cur seen =
     (if ctxDone then (s, Unwatched)
      else case Stat (disk s) (SocketPath a) of
        Inr _ \<Rightarrow> (s, Watching True)
      | Inl e \<Rightarrow>
          if seen \<and> e = NotExist then
            if orig \<noteq> None \<and> cur \<noteq> None \<and> orig \<noteq> cur then
              (markReinstalled (writeAuditLine t (logs_add (ReinstalledRunning (ID (Mf a)) pid) s) a
                 ((audit ReinstalledEv)\<lparr>PID := pid\<rparr>)) (ID (Mf a)), Restarting)
            else (writeAuditLine t (logs_add (SocketVanished (ID (Mf a)) (SocketPath a) pid) s) a
                   ((audit SocketLost)\<lparr>PID := pid\<rparr>), Restarting)
          else (s, Watching seen))"

section \<open>Resource limits\<close>

definition childFDLimit :: "64 word" where "childFDLimit = 256"

datatype resource = RLIMIT_NOFILE | RLIMIT_AS

record rlimit64 =
  Cur :: "64 word"
  Max :: "64 word"

text \<open>\<open>prlimit\<close> is the system call: the text of its error, if it fails.\<close>

definition setLimit :: "(int \<Rightarrow> resource \<Rightarrow> rlimit64 \<Rightarrow> string option) \<Rightarrow> int \<Rightarrow> resource \<Rightarrow> string \<Rightarrow> 64 word \<Rightarrow>
    (resource \<times> rlimit64) list \<times> logLine list" where
  "setLimit prlimit pid r name val =
     (let want = \<lparr> Cur = val, Max = val \<rparr> in
      case prlimit pid r want of
        Some e \<Rightarrow> ([], [PrlimitErr pid name val e])
      | None \<Rightarrow> ([(r, want)], [PrlimitOk pid name val]))"

text \<open>The limits that were set, and the log lines.\<close>

definition applyChildResourceLimits :: "(int \<Rightarrow> resource \<Rightarrow> rlimit64 \<Rightarrow> string option) \<Rightarrow> int \<Rightarrow> 64 word \<Rightarrow>
    (resource \<times> rlimit64) list \<times> logLine list" where
  "applyChildResourceLimits prlimit pid addrSpaceLimit =
     (case setLimit prlimit pid RLIMIT_NOFILE ''RLIMIT_NOFILE'' childFDLimit of
        (set1, logs1) \<Rightarrow>
          if addrSpaceLimit > 0 then
            (case setLimit prlimit pid RLIMIT_AS ''RLIMIT_AS'' addrSpaceLimit of
               (set2, logs2) \<Rightarrow> (set1 @ set2, logs1 @ logs2))
          else (set1, logs1))"

section \<open>How the table evolves\<close>

text \<open>Time goes on, no process comes or goes, and an exit once due stays due.\<close>

definition exitsBefore :: "proc \<Rightarrow> proc \<Rightarrow> bool" where
  "exitsBefore p p' \<longleftrightarrow> (\<forall>e. exitAt p = Some e \<longrightarrow> (\<exists>e'. exitAt p' = Some e' \<and> e' \<le> e))"

definition procEvolves :: "proc \<Rightarrow> proc \<Rightarrow> bool" where
  "procEvolves p p' \<longleftrightarrow> cmdline p' = cmdline p \<and> pgrp p' = pgrp p \<and> termDelay p' = termDelay p \<and> exitsBefore p p'"

definition evolves :: "os \<Rightarrow> os \<Rightarrow> bool" where
  "evolves w w' \<longleftrightarrow> clock w \<le> clock w' \<and> self w' = self w \<and> map fst (procs w') = map fst (procs w) \<and>
     (\<forall>q. rel_option procEvolves (map_of (procs w) q) (map_of (procs w') q))"

lemma procEvolves_refl [simp]: "procEvolves p p"
  by (auto simp: procEvolves_def exitsBefore_def)

lemma procEvolves_trans: "procEvolves p p' \<Longrightarrow> procEvolves p' p'' \<Longrightarrow> procEvolves p p''"
  by (fastforce simp: procEvolves_def exitsBefore_def)

lemma evolves_refl [simp]: "evolves w w"
  by (auto simp: evolves_def intro!: option.rel_refl)

lemma evolves_trans [trans]:
  assumes "evolves w w'" and "evolves w' w''"
  shows "evolves w w''"
proof -
  have "transp (rel_option procEvolves)"
    by (rule option.rel_transp) (blast intro: transpI procEvolves_trans)
  then have "rel_option procEvolves (map_of (procs w) q) (map_of (procs w'') q)" for q
    using assms unfolding evolves_def by (blast dest: transpD)
  then show ?thesis using assms by (simp add: evolves_def)
qed

lemma map_of_keyed: "map_of (map (\<lambda>(q, p). (q, f q p)) xs) k = map_option (f k) (map_of xs k)"
  by (induction xs) auto

lemma Kill_procs: "map_of (procs (fst (Kill w target sg))) q =
    map_option (\<lambda>p. if hits w target q p then deliver (clock w) sg p else p) (map_of (procs w) q)"
proof (cases "list_ex (\<lambda>(q, p). hits w target q p) (procs w)")
  case False
  have "\<not> hits w target q p" if "map_of (procs w) q = Some p" for p
    using False map_of_SomeD[OF that] by (auto simp: list_ex_iff)
  then show ?thesis using False by (cases "map_of (procs w) q") (auto simp: Kill_def)
qed (simp add: Kill_def map_of_keyed)

lemma Kill_clock [simp]: "clock (fst (Kill w target sg)) = clock w" "self (fst (Kill w target sg)) = self w"
  "map fst (procs (fst (Kill w target sg))) = map fst (procs w)"
  by (simp_all add: Kill_def case_prod_beta comp_def)

lemma deliver_keeps: "cmdline (deliver t sg p) = cmdline p" "pgrp (deliver t sg p) = pgrp p"
  "termDelay (deliver t sg p) = termDelay p" "procEvolves p (deliver t sg p)"
  by (auto simp: deliver_def exitBy_def procEvolves_def exitsBefore_def split: signal.splits option.splits)

lemma Kill_evolves [simp]: "evolves w (fst (Kill w target sg))"
  by (auto simp: evolves_def Kill_procs rel_option_iff deliver_keeps split: option.splits)

lemma Sleep_evolves: "0 \<le> d \<Longrightarrow> evolves w (Sleep w d)"
  by (auto simp: evolves_def Sleep_def intro!: option.rel_refl)

lemma signalGroup_cases:
  "signalGroup w pid sg = fst (Kill w (- pid) sg) \<or>
   signalGroup w pid sg = fst (Kill (fst (Kill w (- pid) sg)) pid sg) \<and> \<not> snd (Kill w (- pid) sg)"
  by (auto simp: signalGroup_def split: prod.splits bool.splits)

lemma signalGroup_evolves [simp]: "evolves w (signalGroup w pid sg)"
  using signalGroup_cases[of w pid sg] evolves_trans[OF Kill_evolves Kill_evolves, of w "- pid" sg pid sg] by auto

lemma signalGroup_clock [simp]: "clock (signalGroup w pid sg) = clock w"
  using signalGroup_cases[of w pid sg] by auto

lemma waitGone_evolves: "evolves w (waitGone w pid deadline)"
proof (induction w pid deadline rule: waitGone.induct)
  case (1 w pid deadline)
  then show ?case
    using evolves_trans[OF Sleep_evolves[of "50 * millisecond" w]]
    by (subst waitGone.simps) (auto simp: millisecond_def)
qed

lemma finishOff_evolves: "evolves w (finishOff d w pid)"
  using waitGone_evolves[of w pid d] evolves_trans[OF _ signalGroup_evolves] by (auto simp: finishOff_def Let_def)

lemma foldl_evolves: "(\<And>w x. evolves w (f w x)) \<Longrightarrow> evolves w (foldl f w xs)"
  by (induction xs arbitrary: w) (auto intro: evolves_trans)

lemma reapAll_evolves: "evolves w (reapAll w pids)"
  unfolding reapAll_def Let_def
  by (rule evolves_trans[OF foldl_evolves foldl_evolves]) (simp_all add: finishOff_evolves)

lemma alive_evolves:
  assumes "evolves w w'" and "alive w' pid"
  shows "alive w pid"
proof -
  obtain p' where p': "map_of (procs w') pid = Some p'" "aliveAt (clock w') p'"
    using assms(2) by (auto simp: alive_def split: option.splits)
  then obtain p where p: "map_of (procs w) pid = Some p" "procEvolves p p'"
    using assms(1) by (metis evolves_def option_rel_Some2)
  have "aliveAt (clock w) p"
    using p(2) p'(2) assms(1)
    by (fastforce simp: procEvolves_def exitsBefore_def aliveAt_def evolves_def split: option.splits)
  then show ?thesis using p(1) by (simp add: alive_def)
qed

section \<open>What is signalled, and that it ends\<close>

lemma Kill_hit: "snd (Kill w target sg) \<longleftrightarrow> (\<exists>(q, p) \<in> set (procs w). hits w target q p)"
  by (auto simp: Kill_def list_ex_iff)

text \<open>The pids are the keys of the table.\<close>

definition wellKept :: "os \<Rightarrow> bool" where
  "wellKept w \<longleftrightarrow> distinct (map fst (procs w))"

lemma wellKept_evolves: "evolves w w' \<Longrightarrow> wellKept w \<Longrightarrow> wellKept w'"
  by (simp add: evolves_def wellKept_def)

lemma Kill_alive: "wellKept w \<Longrightarrow> 0 < pid \<Longrightarrow> snd (Kill w pid sg) \<longleftrightarrow> alive w pid"
  by (auto simp: Kill_hit hits_def alive_def wellKept_def split: option.splits
      dest: map_of_SomeD eq_key_imp_eq_value)

text \<open>A process that leads its group, or has left no group behind.\<close>

definition leads :: "os \<Rightarrow> int \<Rightarrow> bool" where
  "leads w pid \<longleftrightarrow> (\<exists>p. map_of (procs w) pid = Some p \<and> pgrp p = pid)"

lemma leads_evolves: "evolves w w' \<Longrightarrow> leads w' pid \<longleftrightarrow> leads w pid"
  unfolding evolves_def leads_def procEvolves_def by (metis (mono_tags, lifting) option_rel_Some1 option_rel_Some2)

lemma exitBy_dead: "t \<le> c \<Longrightarrow> \<not> aliveAt c (exitBy t p)"
  by (auto simp: aliveAt_def exitBy_def split: option.splits)

lemma SIGKILL_leader:
  assumes "leads w pid" "0 < pid"
  shows "\<not> alive (fst (Kill w (- pid) SIGKILL)) pid"
proof -
  obtain p where p: "map_of (procs w) pid = Some p" "pgrp p = pid" using assms(1) by (auto simp: leads_def)
  then have "map_of (procs (fst (Kill w (- pid) SIGKILL))) pid = Some (if aliveAt (clock w) p then exitBy (clock w) p else p)"
    using assms(2) by (simp add: Kill_procs hits_def deliver_def)
  then show ?thesis by (simp add: alive_def exitBy_dead)
qed

lemma signalGroup_kills:
  assumes "leads w pid" "0 < pid"
  shows "\<not> alive (signalGroup w pid SIGKILL) pid"
proof -
  have "\<not> alive (fst (Kill w (- pid) SIGKILL)) pid" using SIGKILL_leader[OF assms] .
  moreover from this have "\<not> alive (fst (Kill (fst (Kill w (- pid) SIGKILL)) pid SIGKILL)) pid"
    using alive_evolves[OF Kill_evolves] by blast
  ultimately show ?thesis using signalGroup_cases[of w pid SIGKILL] by auto
qed

lemma finishOff_kills:
  assumes "wellKept w" "leads w pid" "0 < pid"
  shows "\<not> alive (finishOff d w pid) pid"
proof -
  let ?w = "waitGone w pid d"
  have "wellKept ?w" "leads ?w pid"
    using wellKept_evolves[OF waitGone_evolves assms(1)] leads_evolves[OF waitGone_evolves] assms(2) by simp_all
  then show ?thesis
    using Kill_alive[of ?w pid SIG0] signalGroup_kills[of ?w pid] assms(3) by (simp add: finishOff_def Let_def)
qed

lemma finishOff_all:
  assumes "wellKept w" "leads w pid" "0 < pid" "pid \<in> set pids"
  shows "\<not> alive (foldl (finishOff d) w pids) pid"
  using assms
proof (induction pids arbitrary: w)
  case (Cons q pids)
  have ev: "evolves w (finishOff d w q)" by (rule finishOff_evolves)
  show ?case
  proof (cases "pid = q")
    case True
    have "evolves (finishOff d w q) (foldl (finishOff d) (finishOff d w q) pids)"
      by (rule foldl_evolves) (rule finishOff_evolves)
    then show ?thesis using finishOff_kills[OF Cons.prems(1-3)] alive_evolves True by (metis foldl_Cons)
  next
    case False
    then show ?thesis
      using Cons.IH[of "finishOff d w q"] Cons.prems wellKept_evolves[OF ev] leads_evolves[OF ev] by simp
  qed
qed simp

lemma reapAll_kills:
  assumes "wellKept w" "leads w pid" "0 < pid" "pid \<in> set pids"
  shows "\<not> alive (reapAll w pids) pid"
proof -
  let ?w = "foldl (\<lambda>w pid. signalGroup w pid SIGTERM) w pids"
  have "evolves w ?w" by (rule foldl_evolves) simp
  then show ?thesis
    using finishOff_all[of ?w pid pids "clock ?w + reapGrace"] assms wellKept_evolves leads_evolves
    by (simp add: reapAll_def Let_def)
qed

lemma set_freshPids: "set (freshPids seen ps) = set ps - set seen"
  by (induction seen ps rule: freshPids.induct) auto

lemma reapFrom_evolves: "evolves w (fst (reapFrom k a w seen reaped))"
proof (induction k arbitrary: w seen reaped)
  case (Suc k)
  show ?case
    using evolves_trans[OF reapAll_evolves Suc.IH] evolves_trans[OF Sleep_evolves Suc.IH, of "20 * millisecond" w]
    by (auto simp: Let_def millisecond_def)
qed simp

lemma findInstances_mem:
  "pid \<in> set (findInstances w b sock) \<Longrightarrow> 1 < pid \<and> pid \<noteq> self w \<and>
     (\<exists>p raw. map_of (procs w) pid = Some p \<and> cmdline p (clock w) = Some raw \<and> hasArg raw b \<and> hasArg raw sock)"
  by (auto simp: findInstances_def processArgs_def split: option.splits)

lemma findInstances_found:
  assumes "alive w pid" "1 < pid" "pid \<noteq> self w" "map_of (procs w) pid = Some p" "cmdline p (clock w) = Some raw"
    "hasArg raw b" "hasArg raw sock"
  shows "pid \<in> set (findInstances w b sock)"
  using assms map_of_SomeD[OF assms(4)]
  by (force simp: findInstances_def processArgs_def listPids_def alive_def)

lemma reapFrom_kills:
  assumes "wellKept w" "leads w pid" "pid \<in> set (findInstances w (BinaryPath a) (SocketPath a))" "pid \<notin> set seen"
  shows "\<not> alive (fst (reapFrom (Suc k) a w seen reaped)) pid"
proof -
  let ?pids = "freshPids seen (findInstances w (BinaryPath a) (SocketPath a))"
  have "pid \<in> set ?pids" "0 < pid" using assms findInstances_mem[OF assms(3)] by (auto simp: set_freshPids)
  then have "\<not> alive (reapAll w ?pids) pid" "?pids \<noteq> []" using reapAll_kills[OF assms(1,2)] by auto
  then show ?thesis using alive_evolves[OF reapFrom_evolves] by (auto simp: Let_def)
qed

text \<open>Signals to the processes or groups \<open>T\<close> leave all other processes as they were.\<close>

definition spares :: "int set \<Rightarrow> os \<Rightarrow> os \<Rightarrow> bool" where
  "spares T w w' \<longleftrightarrow> (\<forall>q p. map_of (procs w) q = Some p \<longrightarrow> q \<notin> T \<longrightarrow> pgrp p \<notin> T \<longrightarrow> map_of (procs w') q = Some p)"

lemma spares_refl [simp]: "spares T w w" by (simp add: spares_def)

lemma spares_trans: "spares T w w' \<Longrightarrow> spares T w' w'' \<Longrightarrow> spares T w w''" by (simp add: spares_def)

lemma Kill_spares: "0 < pid \<Longrightarrow> pid \<in> T \<Longrightarrow> spares T w (fst (Kill w pid sg)) \<and> spares T w (fst (Kill w (- pid) sg))"
  by (auto simp: spares_def Kill_procs hits_def)

lemma signalGroup_spares: "0 < pid \<Longrightarrow> pid \<in> T \<Longrightarrow> spares T w (signalGroup w pid sg)"
  using signalGroup_cases[of w pid sg] Kill_spares spares_trans by metis

lemma Sleep_spares [simp]: "spares T w (Sleep w d)" by (simp add: spares_def Sleep_def)

lemma waitGone_spares: "spares T w (waitGone w pid d)"
proof (induction w pid d rule: waitGone.induct)
  case (1 w pid d)
  then show ?case using spares_trans[OF Sleep_spares] by (subst waitGone.simps) auto
qed

lemma finishOff_spares: "0 < pid \<Longrightarrow> pid \<in> T \<Longrightarrow> spares T w (finishOff d w pid)"
  using spares_trans[OF waitGone_spares signalGroup_spares] waitGone_spares by (auto simp: finishOff_def Let_def)

lemma foldl_spares:
  "(\<And>w x. x \<in> set xs \<Longrightarrow> spares T w (f w x)) \<Longrightarrow> spares T w (foldl f w xs)"
  by (induction xs arbitrary: w) (auto intro: spares_trans)

lemma reapAll_spares: "\<forall>pid \<in> set pids. 0 < pid \<and> pid \<in> T \<Longrightarrow> spares T w (reapAll w pids)"
  unfolding reapAll_def Let_def
  by (rule spares_trans[OF foldl_spares foldl_spares]) (auto intro: signalGroup_spares finishOff_spares)

text \<open>The instances of an app: processes whose arguments ever had its binary and its socket.\<close>

definition instances :: "os \<Rightarrow> installedApp \<Rightarrow> int set" where
  "instances w a = {pid. 1 < pid \<and> pid \<noteq> self w \<and> (\<exists>p t raw. map_of (procs w) pid = Some p \<and> cmdline p t = Some raw
     \<and> hasArg raw (BinaryPath a) \<and> hasArg raw (SocketPath a))}"

lemma instances_evolves: "evolves w w' \<Longrightarrow> instances w' a \<subseteq> instances w a"
  unfolding evolves_def instances_def procEvolves_def
  by (clarsimp, metis (mono_tags, lifting) option_rel_Some2)

lemma findInstances_instances: "set (findInstances w (BinaryPath a) (SocketPath a)) \<subseteq> instances w a"
  using findInstances_mem by (force simp: instances_def)

lemma reapFrom_spares:
  "instances w a \<subseteq> T \<Longrightarrow> \<forall>pid \<in> T. 0 < pid \<Longrightarrow> set reaped \<subseteq> T \<Longrightarrow>
     spares T w (fst (reapFrom k a w seen reaped)) \<and> set (snd (reapFrom k a w seen reaped)) \<subseteq> T"
proof (induction k arbitrary: w seen reaped)
  case (Suc k)
  let ?pids = "freshPids seen (findInstances w (BinaryPath a) (SocketPath a))"
  have pids: "set ?pids \<subseteq> T" using findInstances_instances[of w a] Suc.prems(1) by (auto simp: set_freshPids)
  then have r: "spares T w (reapAll w ?pids)" using reapAll_spares Suc.prems(2) by blast
  have "instances (reapAll w ?pids) a \<subseteq> T" using instances_evolves[OF reapAll_evolves] Suc.prems(1) by blast
  moreover have "instances (Sleep w (20 * millisecond)) a \<subseteq> T"
    using instances_evolves[OF Sleep_evolves[of "20 * millisecond"]] Suc.prems(1) by (force simp: millisecond_def)
  ultimately have
    "spares T w (fst (reapFrom k a (reapAll w ?pids) (?pids @ seen) (reaped @ ?pids))) \<and>
       set (snd (reapFrom k a (reapAll w ?pids) (?pids @ seen) (reaped @ ?pids))) \<subseteq> T"
    "spares T w (fst (reapFrom k a (Sleep w (20 * millisecond)) seen reaped)) \<and>
       set (snd (reapFrom k a (Sleep w (20 * millisecond)) seen reaped)) \<subseteq> T"
    using Suc.IH[of "reapAll w ?pids" "reaped @ ?pids" "?pids @ seen"] Suc.IH[of "Sleep w (20 * millisecond)" reaped seen]
      Suc.prems(2,3) pids spares_trans[OF r] spares_trans[OF Sleep_spares, of T w "20 * millisecond"] by simp_all
  then show ?case using Suc.prems(3) by (cases "reaped = []") (simp_all add: Let_def)
qed simp

lemma waitGone_clock: "clock (waitGone w pid d) \<le> max (clock w) (d + 50 * millisecond)"
proof (induction w pid d rule: waitGone.induct)
  case (1 w pid d)
  then show ?case by (subst waitGone.simps) (auto simp: Sleep_def)
qed

lemma finishOff_clock: "clock (finishOff d w pid) \<le> max (clock w) (d + 50 * millisecond)"
  using waitGone_clock[of w pid d] by (auto simp: finishOff_def Let_def)

lemma finishOff_all_clock: "clock (foldl (finishOff d) w pids) \<le> max (clock w) (d + 50 * millisecond)"
proof (induction pids arbitrary: w)
  case (Cons q pids)
  have "clock (foldl (finishOff d) (finishOff d w q) pids) \<le> max (clock (finishOff d w q)) (d + 50 * millisecond)"
    by (rule Cons.IH)
  then show ?case using finishOff_clock[of d w q] by (simp add: max_def split: if_splits)
qed simp

lemma reapAll_clock: "clock (reapAll w pids) \<le> clock w + reapGrace + 50 * millisecond"
proof -
  have "clock (foldl (\<lambda>w pid. signalGroup w pid SIGTERM) w pids) = clock w"
    by (induction pids arbitrary: w) simp_all
  then show ?thesis
    using finishOff_all_clock[of "clock w + reapGrace" "foldl (\<lambda>w pid. signalGroup w pid SIGTERM) w pids" pids]
    by (simp add: reapAll_def Let_def reapGrace_def second_ns_def millisecond_def)
qed

lemma reapFrom_clock: "clock (fst (reapFrom k a w seen reaped)) \<le> clock w + int k * (reapGrace + 50 * millisecond)"
proof (induction k arbitrary: w seen reaped)
  case (Suc k)
  let ?pids = "freshPids seen (findInstances w (BinaryPath a) (SocketPath a))"
  show ?case
    using Suc.IH[of "reapAll w ?pids" "?pids @ seen" "reaped @ ?pids"] Suc.IH[of "Sleep w (20 * millisecond)" seen reaped]
      reapAll_clock[of w ?pids]
    by (auto simp: Let_def Sleep_def reapGrace_def second_ns_def millisecond_def)
qed simp

lemma killAppGroup_eq: "fst (killAppGroup w pid) = signalGroup w pid SIGKILL"
  by (auto simp: killAppGroup_def signalGroup_def split: prod.splits bool.splits)

lemma stopLoop_evolves: "evolves w (fst (stopLoop w pid d))"
proof (induction w pid d rule: stopLoop.induct)
  case (1 w pid d)
  have "evolves w (fst (killAppGroup w pid))" by (simp add: killAppGroup_eq)
  then show ?case
    using 1 evolves_trans[OF Sleep_evolves[of stopPollInterval w]]
    by (subst stopLoop.simps) (auto simp: stopPollInterval_def millisecond_def)
qed

lemma stopLoop_dead:
  "wellKept w \<Longrightarrow> leads w pid \<Longrightarrow> 0 < pid \<Longrightarrow> \<not> alive (fst (stopLoop w pid d)) pid"
proof (induction w pid d rule: stopLoop.induct)
  case (1 w pid d)
  have ev: "evolves w (Sleep w stopPollInterval)" by (rule Sleep_evolves) (simp add: stopPollInterval_def millisecond_def)
  show ?case
    using "1.IH" "1.prems" wellKept_evolves[OF ev] leads_evolves[OF ev] Kill_alive[of w pid SIG0] signalGroup_kills[of w pid]
    by (subst stopLoop.simps) (auto simp: killAppGroup_eq)
qed

lemma stopLoop_clock: "clock (fst (stopLoop w pid d)) \<le> max (clock w) (d + stopPollInterval)"
proof (induction w pid d rule: stopLoop.induct)
  case (1 w pid d)
  then show ?case by (subst stopLoop.simps) (auto simp: killAppGroup_eq Sleep_def)
qed

lemma stopLoop_graceful:
  "map_of (procs w) pid = Some p \<Longrightarrow> exitAt p = Some e \<Longrightarrow> e \<le> d \<Longrightarrow> map_of (procs (fst (stopLoop w pid d))) pid = Some p"
proof (induction w pid d rule: stopLoop.induct)
  case (1 w pid d)
  have "map_of (procs (signalGroup w pid SIGKILL)) pid = Some p" if "\<not> clock w < d"
    using that "1.prems" signalGroup_cases[of w pid SIGKILL] by (auto simp: Kill_procs hits_def aliveAt_def)
  then show ?case using 1 by (subst stopLoop.simps) (auto simp: killAppGroup_eq Sleep_def)
qed

section \<open>Properties\<close>

lemma reapStale_gone:
  assumes "reapStale s w a = (s', w', reaped)" and "wellKept w"
    and "map_of (procs w) pid = Some p" "pgrp p = pid" "1 < pid" "pid \<noteq> self w"
    and "hasArg raw (BinaryPath a)" "hasArg raw (SocketPath a)"
    and "cmdline p (clock w) = Some raw \<or>
      findInstances w (BinaryPath a) (SocketPath a) = [] \<and> cmdline p (clock w + 20 * millisecond) = Some raw"
  shows "\<not> alive w' pid"
proof (cases "alive w pid")
  case False
  then show ?thesis
    using alive_evolves[OF reapFrom_evolves] assms(1) by (auto simp: reapStale_def split: prod.splits) (metis fst_conv)
next
  case True
  have w': "w' = fst (reapFrom reapPasses a w [] [])" using assms(1) by (auto simp: reapStale_def split: prod.splits)
  have lead: "leads w pid" using assms(3,4) by (auto simp: leads_def)
  show ?thesis
  proof (cases "findInstances w (BinaryPath a) (SocketPath a) = []")
    case True
    let ?w = "Sleep w (20 * millisecond)"
    have ev: "evolves w ?w" by (rule Sleep_evolves) (simp add: millisecond_def)
    have "reapFrom (Suc (Suc 1)) a w [] [] = reapFrom (Suc 1) a ?w [] []"
      by (subst reapFrom.simps(2)) (simp add: True reapPasses_def del: reapFrom.simps)
    moreover have "reapPasses = Suc (Suc 1)" by (simp add: reapPasses_def)
    ultimately have e: "w' = fst (reapFrom (Suc 1) a ?w [] [])" using w' by argo
    have "cmdline p (clock ?w) = Some raw" "map_of (procs ?w) pid = Some p" "self ?w = self w"
      using assms True findInstances_found[OF \<open>alive w pid\<close> assms(5,6,3) _ assms(7,8)] by (auto simp: Sleep_def)
    then have "pid \<in> set (findInstances ?w (BinaryPath a) (SocketPath a))" if "alive ?w pid"
      using findInstances_found[OF that assms(5)] assms(6-8) by simp
    moreover have "\<not> alive w' pid" if "\<not> alive ?w pid"
      using that alive_evolves[OF reapFrom_evolves] e by blast
    ultimately show ?thesis
      using reapFrom_kills[of ?w pid a "[]" 1 "[]"] wellKept_evolves[OF ev assms(2)] leads_evolves[OF ev] lead e
      by (auto simp del: reapFrom.simps)
  next
    case False
    then have "pid \<in> set (findInstances w (BinaryPath a) (SocketPath a))"
      using assms(9) findInstances_found[OF \<open>alive w pid\<close> assms(5,6,3) _ assms(7,8)] by blast
    then show ?thesis
      using reapFrom_kills[OF assms(2) lead, of a "[]" 2 "[]"] w' by (simp add: reapPasses_def numeral_eq_Suc)
  qed
qed

text \<open>C37. \<^verbatim>\<open>reapStale\<close> leaves no earlier instance of the app alive: a process whose arguments name the
  app's binary and socket, that leads its group and whose arguments can be read at the first scan (or
  at the re-check, if the first scan found nothing) is dead when it returns, whether or not it heeds
  SIGTERM.\<close>

theorem reapStale_kills:
  assumes "reapStale s w a = (s', w', reaped)" and "wellKept w"
    and "map_of (procs w) pid = Some p" "pgrp p = pid" "1 < pid" "pid \<noteq> self w"
    and "hasArg raw (BinaryPath a)" "hasArg raw (SocketPath a)"
    and "cmdline p (clock w) = Some raw \<or>
      findInstances w (BinaryPath a) (SocketPath a) = [] \<and> cmdline p (clock w + 20 * millisecond) = Some raw"
  shows "\<not> alive w' pid"
  using assms by (rule reapStale_gone)


text \<open>C40. \<^verbatim>\<open>stopAppGroup\<close> always ends with the app dead, within the grace period and one poll, and an app
  that exits by itself within the grace period is not cut short.\<close>

theorem stopAppGroup_stops:
  assumes "stopAppGroup w pid grace = (w', e)" and "wellKept w" and "map_of (procs w) pid = Some p" "pgrp p = pid" "0 < pid"
    and "0 \<le> grace"
  shows "\<not> alive w' pid \<and> clock w' \<le> clock w + grace + stopPollInterval
    \<and> (\<forall>d. alive w pid \<and> exitAt p = None \<and> termDelay p = Some d \<and> d \<le> grace \<longrightarrow>
        map_option exitAt (map_of (procs w') pid) = Some (Some (clock w + d)))"
proof (cases "alive w pid")
  case False
  then show ?thesis
    using assms Kill_alive[OF assms(2,5), of SIG0] by (auto simp: stopAppGroup_def stopPollInterval_def millisecond_def)
next
  case True
  let ?w = "fst (Kill w (- pid) SIGTERM)"
  have lead: "leads w pid" using assms(3,4) by (auto simp: leads_def)
  have "hits w (- pid) pid p" using True assms(3-5) by (simp add: hits_def alive_def)
  then have "snd (Kill w (- pid) SIGTERM)" using map_of_SomeD[OF assms(3)] by (auto simp: Kill_hit)
  then have e: "(w', e) = stopLoop ?w pid (clock w + grace)"
    using True assms Kill_alive[OF assms(2,5), of SIG0]
    by (auto simp: stopAppGroup_def split: prod.splits bool.splits) (metis Kill_clock(1) fst_conv)+
  have "\<not> alive w' pid"
    using stopLoop_dead[of ?w pid "clock w + grace"] wellKept_evolves[OF Kill_evolves assms(2)] leads_evolves[OF Kill_evolves] lead assms(5) e
    by (metis fst_conv)
  moreover have "clock w' \<le> clock w + grace + stopPollInterval"
    using stopLoop_clock[of ?w pid "clock w + grace"] e assms(6)
    by (simp add: stopPollInterval_def millisecond_def split: prod.splits) (metis fst_conv)
  moreover have "map_option exitAt (map_of (procs w') pid) = Some (Some (clock w + d))"
    if "exitAt p = None" "termDelay p = Some d" "d \<le> grace" for d
  proof -
    have "map_of (procs ?w) pid = Some (exitBy (clock w + d) p)" "exitAt (exitBy (clock w + d) p) = Some (clock w + d)"
      using that assms(3) \<open>hits w (- pid) pid p\<close> by (simp_all add: Kill_procs deliver_def exitBy_def)
    then show ?thesis using stopLoop_graceful[of ?w pid _ "clock w + d" "clock w + grace"] that(3) e
      by (metis fst_conv option.simps(9) add_left_mono)
  qed
  ultimately show ?thesis by blast
qed

section \<open>Examples\<close>

definition exampleArgs :: bytes where
  "exampleArgs = BinaryPath exampleApp @ CHR 0x00 # ''--socket'' @ CHR 0x00 # SocketPath exampleApp @ [CHR 0x00]"

text \<open>An instance that ignores SIGTERM, and a process that has nothing to do with the app.\<close>

definition exampleProcs :: "(int \<times> proc) list" where
  "exampleProcs = [(100, \<lparr> cmdline = (\<lambda>t. Some exampleArgs), pgrp = 100, termDelay = None, exitAt = None \<rparr>),
     (200, \<lparr> cmdline = (\<lambda>t. Some ''sh''), pgrp = 200, termDelay = Some 0, exitAt = None \<rparr>)]"

definition exampleWorld :: os where
  "exampleWorld = \<lparr> clock = 0, procs = exampleProcs, self = 50 \<rparr>"

lemma exampleArgs_has: "hasArg exampleArgs (BinaryPath exampleApp)" "hasArg exampleArgs (SocketPath exampleApp)"
  by code_simp+

theorem reapStale_kills_witness:
  "\<exists>s' w' reaped. reapStale exampleSupervisor exampleWorld exampleApp = (s', w', reaped) \<and> \<not> alive w' 100"
proof -
  obtain s' w' reaped where r: "reapStale exampleSupervisor exampleWorld exampleApp = (s', w', reaped)"
    using prod_cases3 by blast
  have "\<not> alive w' 100"
    by (rule reapStale_kills[where p = "the (map_of exampleProcs 100)", OF r _ _ _ _ _ exampleArgs_has])
       (simp_all add: exampleWorld_def exampleProcs_def wellKept_def)
  then show ?thesis using r by blast
qed


text \<open>An app that exits one second after SIGTERM, with a child of its group that ignores it.\<close>

definition exampleGroup :: os where
  "exampleGroup = \<lparr> clock = 0, procs =
     [(100, \<lparr> cmdline = (\<lambda>t. Some exampleArgs), pgrp = 100, termDelay = Some 1000000000, exitAt = None \<rparr>),
      (101, \<lparr> cmdline = (\<lambda>t. Some ''helper''), pgrp = 100, termDelay = None, exitAt = None \<rparr>)], self = 50 \<rparr>"

theorem stopAppGroup_stops_witness:
  "\<exists>w' e. stopAppGroup exampleGroup 100 appStopGrace = (w', e)
     \<and> map_option exitAt (map_of (procs w') 100) = Some (Some 1000000000)"
proof -
  obtain w' e where r: "stopAppGroup exampleGroup 100 appStopGrace = (w', e)" by fastforce
  have "map_option exitAt (map_of (procs w') 100) = Some (Some 1000000000)"
    using stopAppGroup_stops[OF r, of "the (map_of (procs exampleGroup) 100)"]
    by (simp add: exampleGroup_def wellKept_def alive_def aliveAt_def appStopGrace_def second_ns_def)
  then show ?thesis using r by blast
qed

text \<open>The app's clean exit ends the wait, so a child in its group that ignores SIGTERM outlives it.\<close>

lemma stopAppGroup_leaves_child:
  "\<not> alive (fst (stopAppGroup exampleGroup 100 appStopGrace)) 100
   \<and> alive (fst (stopAppGroup exampleGroup 100 appStopGrace)) 101"
  by code_simp

end
