(* ===== verification/Supervise.thy ===== *)
theory Supervise
  imports Reap
begin

text \<open>
  \<^verbatim>\<open>superviseOne\<close>, \<^verbatim>\<open>spawn\<close> and the checks before it, of \<^verbatim>\<open>plugin/appstore/supervisor.go\<close>. The
  goroutine of one app is a record with the place it has reached; each of its stretches between two
  waits is one definition. The texts of the errors of package \<^verbatim>\<open>os\<close> and the system call
  \<^verbatim>\<open>prlimit\<close> are parameters.
\<close>

section \<open>Environment\<close>

text \<open>What reflection finds at \<^verbatim>\<open>Deps.Identity\<close>: no identity, no method \<^verbatim>\<open>Address\<close> without arguments
  and with one result, or a result that is a string, a \<^verbatim>\<open>fmt.Stringer\<close> or something else.\<close>

datatype identity = NoIdentity | NoAddress | AddrString string | AddrStringer string | AddrOther

definition daemonAddrFromDeps :: "identity \<Rightarrow> string" where
  "daemonAddrFromDeps d =
     (let addr = (case d of AddrString v \<Rightarrow> v | AddrStringer v \<Rightarrow> v | _ \<Rightarrow> [])
      in if addr \<noteq> [] then addr else ''0:0001.0000.0000'')"

record superviseEnv =
  scanning :: scanEnv
  osText :: "fsErr \<Rightarrow> string"
  prlimit :: "int \<Rightarrow> resource \<Rightarrow> rlimit64 \<Rightarrow> string option"
  depsIdentity :: identity

section \<open>Checking the binary\<close>

definition verifyBinary :: "superviseEnv \<Rightarrow> supervisor \<Rightarrow> installedApp \<Rightarrow> verifyErr option" where
  "verifyBinary env s a =
     (case Stat (disk s) (BinaryPath a) of
        Inl e \<Rightarrow> Some (OpenBinary e)
      | Inr (Regular b) \<Rightarrow>
          (let got = sha256Hex (crypt (scanning env)) b in
           if got \<noteq> SHA256 (Binary (Mf a)) then Some (HashMismatch got (SHA256 (Binary (Mf a)))) else None)
      | Inr _ \<Rightarrow> Some (HashBinary (FsError (BinaryPath a))))"

definition verifyAtSpawn :: "superviseEnv \<Rightarrow> supervisor \<Rightarrow> installedApp \<Rightarrow> verifyErr option" where
  "verifyAtSpawn env s a =
     (case Lstat (disk s) (BinaryPath a) of
        Inl e \<Rightarrow> Some (LstatBinary e)
      | Inr (Symlink _) \<Rightarrow> Some (BinaryIsSymlink (BinaryPath a))
      | Inr _ \<Rightarrow> verifyBinary env s a)"

fun verifyText :: "superviseEnv \<Rightarrow> verifyErr \<Rightarrow> string" where
  "verifyText env (OpenBinary e) = ''open binary: '' @ osText env e"
| "verifyText env (HashBinary e) = ''hash binary: '' @ osText env e"
| "verifyText env (HashMismatch got want) = ''sha256 mismatch: got '' @ got @ '' want '' @ want"
| "verifyText env (LstatBinary e) = ''lstat binary: '' @ osText env e"
| "verifyText env (BinaryIsSymlink p) = ''binary path '' @ p @ '' is a symlink (refusing)''"

section \<open>The goroutine of one app\<close>

datatype phase =
    Fresh
  | Top
  | VerifyWait gotime
  | ToSpawn
  | Checked bytes
  | Running int bytes
  | Exited int
  | ReinstallWait gotime
  | BackoffWait gotime
  | Returned

record goroutine =
  gApp :: installedApp
  phase :: phase
  backoff :: duration
  verifyBackoff :: duration
  verifyFails :: nat
  watching :: watch
  origDir :: "nat option"
  readyWaits :: "gotime list"

definition maxBackoff :: duration where "maxBackoff = 30 * second_ns"

text \<open>The audit line, clearing a stale marker, and the variables of the loop.\<close>

definition newGoroutine :: "installedApp \<Rightarrow> goroutine" where
  "newGoroutine a = \<lparr> gApp = a, phase = Fresh, backoff = second_ns, verifyBackoff = second_ns, verifyFails = 0,
     watching = Unwatched, origDir = None, readyWaits = [] \<rparr>"

definition superviseStart :: "gotime \<Rightarrow> supervisor \<Rightarrow> installedApp \<Rightarrow> supervisor" where
  "superviseStart t s a =
     (let s = writeAuditLine t s a ((audit SuperviseStart)\<lparr>EvSHA := SHA256 (Binary (Mf a)), BinaryAt := BinaryPath a\<rparr>) in
      case Remove (disk s) (Join [Dir a, suspendedMarkerName]) of
        (f, e) \<Rightarrow> s\<lparr>disk := f, logs := logs s @
          (case e of Some (FsError p) \<Rightarrow> [StaleMarkerErr (ID (Mf a)) (FsError p)] | _ \<Rightarrow> [])\<rparr>)"

text \<open>The deferred function: the last audit line.\<close>

definition superviseStop :: "gotime \<Rightarrow> bool \<Rightarrow> supervisor \<Rightarrow> installedApp \<Rightarrow> supervisor" where
  "superviseStop t ctxDone s a =
     writeAuditLine t s a ((audit SuperviseStop)\<lparr>Reason :=
       (if ctxDone then ''context canceled''
        else if isSuspended s (ID (Mf a)) then ''suspended (verify-fail or crash-loop)'' else ''suspended'')\<rparr>)"

definition returnFrom :: "gotime \<Rightarrow> bool \<Rightarrow> supervisor \<times> goroutine \<Rightarrow> supervisor \<times> goroutine" where
  "returnFrom t ctxDone sg = (superviseStop t ctxDone (fst sg) (gApp (snd sg)), (snd sg)\<lparr>phase := Returned\<rparr>)"

definition dropMarker :: "supervisor \<Rightarrow> installedApp \<Rightarrow> supervisor" where
  "dropMarker s a =
     (case WriteFile (disk s) (Join [Dir a, suspendedMarkerName]) [] of
        (f, e) \<Rightarrow> s\<lparr>disk := f, logs := logs s @ (case e of None \<Rightarrow> [] | Some e \<Rightarrow> [MarkerWriteErr (ID (Mf a)) e])\<rparr>)"

text \<open>The head of the loop: verification, the cap on its failures, and the way on to \<^verbatim>\<open>spawn\<close>.\<close>

definition superviseTop :: "superviseEnv \<Rightarrow> gotime \<Rightarrow> bool \<Rightarrow> supervisor \<Rightarrow> goroutine \<Rightarrow> supervisor \<times> goroutine" where
  "superviseTop env t ctxDone s g =
     (let a = gApp g in
      if ctxDone then returnFrom t ctxDone (s, g)
      else case verifyBinary env s a of
        None \<Rightarrow> (s, g\<lparr>verifyFails := 0, verifyBackoff := second_ns, phase := ToSpawn\<rparr>)
      | Some e \<Rightarrow>
          (let n = verifyFails g + 1; g = g\<lparr>verifyFails := n\<rparr>;
               s = writeAuditLine t (logs_add (VerifyFailed (ID (Mf a)) e n) s) a
                 ((audit VerifyFail)\<lparr>Reason := verifyText env e, EvSHA := SHA256 (Binary (Mf a)), BinaryAt := BinaryPath a\<rparr>)
           in if n \<ge> maxVerifyFails then
                (let s = writeAuditLine t (logs_add (VerifyCap (ID (Mf a))) s) a
                       ((audit SuspendEv)\<lparr>Reason := ''>='' @ showNat maxVerifyFails @ '' consecutive verify failures''\<rparr>)
                 in returnFrom t ctxDone (markSuspended (dropMarker s a) (ID (Mf a)), g))
              else (s, g\<lparr>phase := VerifyWait (t + verifyBackoff g)\<rparr>)))"

text \<open>The first part of \<^verbatim>\<open>spawn\<close>: the check at spawn time, then stale instances and a stale socket go.
  \<open>Checked b\<close> remembers what was checked.\<close>

definition spawnCheck :: "superviseEnv \<Rightarrow> gotime \<Rightarrow> supervisor \<Rightarrow> os \<Rightarrow> goroutine \<Rightarrow> supervisor \<times> os \<times> goroutine" where
  "spawnCheck env t s w g =
     (let a = gApp g in
      case verifyAtSpawn env s a of
        Some e \<Rightarrow>
          (writeAuditLine t (logs_add (SpawnVerifyFailed (ID (Mf a)) e) s) a
             ((audit VerifyFail)\<lparr>Reason := ''spawn-time: '' @ verifyText env e, EvSHA := SHA256 (Binary (Mf a)), BinaryAt := BinaryPath a\<rparr>),
           w, g\<lparr>phase := Exited (-1)\<rparr>)
      | None \<Rightarrow>
          (case reapStale s w a of
             (s', w', pids) \<Rightarrow>
               (let s' = foldl (\<lambda>s pid. writeAuditLine t s a ((audit ReapOrphan)\<lparr>PID := pid, BinaryAt := BinaryPath a\<rparr>)) s' pids;
                    s' = (case Stat (disk s') (SocketPath a) of
                            Inl _ \<Rightarrow> s' | Inr _ \<Rightarrow> s'\<lparr>disk := fst (Remove (disk s') (SocketPath a))\<rparr>)
                in (logs_add (SpawnLine (ID (Mf a)) (BinaryPath a) (SocketPath a) (Sideloaded a)) s', w',
                    g\<lparr>phase := Checked (contentAt (disk s) (BinaryPath a))\<rparr>))))"

text \<open>What is executed, as \<^verbatim>\<open>exec.CommandContext\<close> gets it: the path, the arguments, and what is added to
  the environment of the daemon.\<close>

definition spawnArgs :: "superviseEnv \<Rightarrow> installedApp \<Rightarrow> string list" where
  "spawnArgs env a =
     [''--addr'', daemonAddrFromDeps (depsIdentity env), ''--db'', DBPath a, ''--socket'', SocketPath a,
      ''--identity'', IDPath a, ''--manifest'', Join [Dir a, ''manifest.json''],
      ''--cap-state'', Join [Dir a, ''cap-state.jsonl'']]"

definition spawnEnviron :: "installedApp \<Rightarrow> string list" where
  "spawnEnviron a = (if Sideloaded a then [''PILOT_SIDELOAD=1''] else [])"

text \<open>\<^verbatim>\<open>cmd.Start\<close> fails, with the text of its error.\<close>

definition spawnFailed :: "gotime \<Rightarrow> string \<Rightarrow> supervisor \<Rightarrow> goroutine \<Rightarrow> supervisor \<times> goroutine" where
  "spawnFailed t txt s g =
     (let a = gApp g in
      (writeAuditLine t (logs_add (StartFailed (ID (Mf a)) txt) s) a ((audit SpawnFail)\<lparr>Reason := txt, BinaryAt := BinaryPath a\<rparr>),
       g\<lparr>phase := Exited (-1)\<rparr>))"

definition readyTimeout :: duration where "readyTimeout = 3 * second_ns"

text \<open>\<^verbatim>\<open>cmd.Start\<close> succeeds: limits, audit line, and the goroutines that wait for the socket and watch it.\<close>

definition spawnStarted :: "superviseEnv \<Rightarrow> gotime \<Rightarrow> int \<Rightarrow> nat option \<Rightarrow> bytes \<Rightarrow> supervisor \<Rightarrow> goroutine \<Rightarrow> supervisor \<times> goroutine" where
  "spawnStarted env t pid dirId b s g =
     (let a = gApp g;
          s = logs_add (StartedPid (ID (Mf a)) pid) s;
          s = s\<lparr>logs := logs s @ snd (applyChildResourceLimits (prlimit env) pid (childAddressSpaceLimit s))\<rparr>;
          s = writeAuditLine t s a ((audit SpawnEv)\<lparr>PID := pid, EvSHA := SHA256 (Binary (Mf a)), BinaryAt := BinaryPath a\<rparr>)
      in (s, g\<lparr>phase := Running pid b, watching := Watching False, origDir := dirId,
             readyWaits := readyWaits g @ [t + readyTimeout]\<rparr>))"

text \<open>What \<^verbatim>\<open>cmd.Wait\<close> reports; \<open>st\<close> is the exit code of the process state, where there is one.\<close>

datatype waitErr = ExitError int | WaitError string

definition spawnExit :: "bool \<Rightarrow> waitErr option \<Rightarrow> int option \<Rightarrow> supervisor \<Rightarrow> goroutine \<Rightarrow> supervisor \<times> goroutine" where
  "spawnExit ctxDone werr st s g =
     (let i = ID (Mf (gApp g)); done = (\<lambda>s ec. (s, g\<lparr>phase := Exited ec, watching := Unwatched\<rparr>)) in
      case werr of
        None \<Rightarrow> done s 0
      | Some e \<Rightarrow>
          (case (ctxDone, st) of
             (True, Some ec) \<Rightarrow> done (logs_add (StoppedByUs i ec) s) ec
           | _ \<Rightarrow> (case e of ExitError ec \<Rightarrow> done s ec | WaitError txt \<Rightarrow> done (logs_add (WaitFailed i txt) s) (-1))))"

text \<open>The rest of the loop body, after \<^verbatim>\<open>spawn\<close> has returned a code.\<close>

definition afterExit :: "gotime \<Rightarrow> bool \<Rightarrow> int \<Rightarrow> supervisor \<Rightarrow> goroutine \<Rightarrow> supervisor \<times> goroutine" where
  "afterExit t ctxDone ec s g =
     (let a = gApp g; i = ID (Mf a);
          s = writeAuditLine t (markNotReady s i) a ((audit ExitEv)\<lparr>ExitCode := ec\<rparr>)
      in if ctxDone then returnFrom t ctxDone (s, g)
         else case takeReinstalled s i of
           (s, True) \<Rightarrow> (s, g\<lparr>phase := ReinstallWait (t + (rescanInterval s + second_ns))\<rparr>)
         | (s, False) \<Rightarrow>
             (case recordCrash t s i of
                (s, True) \<Rightarrow>
                  (let s = writeAuditLine t (logs_add (ExitSuspended i ec) s) a
                         ((audit SuspendEv)\<lparr>Reason := ''>'' @ showNat maxCrashesInWindow @ '' crashes in 1m0s''\<rparr>)
                   in returnFrom t ctxDone (dropMarker s a, g))
              | (s, False) \<Rightarrow> (logs_add (RestartIn i ec (backoff g)) s, g\<lparr>phase := BackoffWait (t + backoff g)\<rparr>)))"

text \<open>One poll of \<^verbatim>\<open>waitReady\<close>, and whether it goes on.\<close>

definition waitReadyPoll :: "gotime \<Rightarrow> bool \<Rightarrow> supervisor \<Rightarrow> installedApp \<Rightarrow> gotime \<Rightarrow> supervisor \<times> bool" where
  "waitReadyPoll t ctxDone s a deadline =
     (if \<not> t < deadline then (logs_add (NoSocket (ID (Mf a)) readyTimeout) s, False)
      else if ctxDone then (s, False)
      else case Stat (disk s) (SocketPath a) of
        Inr _ \<Rightarrow> (markReady s (ID (Mf a)), False)
      | Inl _ \<Rightarrow> (s, True))"

section \<open>Steps of the goroutine\<close>

text \<open>What a supervise goroutine can do next, at time \<open>t\<close>, in a context that is cancelled or not. Waits
  end when their time has come or the context is cancelled; \<^verbatim>\<open>cmd.Start\<close> may fail, and does so in a
  cancelled context; the goroutines that wait for the socket and watch it act on their own.\<close>

definition setPhase :: "goroutine \<Rightarrow> phase \<Rightarrow> goroutine" where
  "setPhase g p = g\<lparr>phase := p\<rparr>"

inductive superviseStep :: "superviseEnv \<Rightarrow> bool \<Rightarrow> gotime \<Rightarrow>
    supervisor \<times> os \<times> goroutine \<Rightarrow> supervisor \<times> os \<times> goroutine \<Rightarrow> bool" for env ctxDone t where
  begin_loop: "phase g = Fresh \<Longrightarrow>
    superviseStep env ctxDone t (s, w, g) (superviseStart t s (gApp g), w, setPhase g Top)"
| loop_head: "phase g = Top \<Longrightarrow> superviseTop env t ctxDone s g = (s', g') \<Longrightarrow>
    superviseStep env ctxDone t (s, w, g) (s', w, g')"
| verify_again: "phase g = VerifyWait d \<Longrightarrow> d \<le> t \<Longrightarrow>
    superviseStep env ctxDone t (s, w, g) (s, w, setPhase (g\<lparr>verifyBackoff := nextBackoff (verifyBackoff g) maxBackoff\<rparr>) Top)"
| restart: "phase g = BackoffWait d \<Longrightarrow> d \<le> t \<Longrightarrow>
    superviseStep env ctxDone t (s, w, g) (s, w, setPhase (g\<lparr>backoff := nextBackoff (backoff g) maxBackoff\<rparr>) Top)"
| reinstall_over: "phase g = ReinstallWait d \<Longrightarrow> d \<le> t \<Longrightarrow>
    superviseStep env ctxDone t (s, w, g) (s, w, setPhase (g\<lparr>backoff := second_ns\<rparr>) Top)"
| wait_cancelled: "phase g \<in> {VerifyWait d, BackoffWait d, ReinstallWait d} \<Longrightarrow> ctxDone \<Longrightarrow> returnFrom t True (s, g) = (s', g') \<Longrightarrow>
    superviseStep env ctxDone t (s, w, g) (s', w, g')"
| spawn_check: "phase g = ToSpawn \<Longrightarrow> spawnCheck env t s w g = (s', w', g') \<Longrightarrow>
    superviseStep env ctxDone t (s, w, g) (s', w', g')"
| start_fails: "phase g = Checked b \<Longrightarrow> spawnFailed t txt s g = (s', g') \<Longrightarrow>
    superviseStep env ctxDone t (s, w, g) (s', w, g')"
| started: "phase g = Checked b \<Longrightarrow> \<not> ctxDone \<Longrightarrow> spawnStarted env t pid dirId b s g = (s', g') \<Longrightarrow>
    superviseStep env ctxDone t (s, w, g) (s', w, g')"
| exits: "phase g = Running pid b \<Longrightarrow> spawnExit ctxDone werr st s g = (s', g') \<Longrightarrow>
    superviseStep env ctxDone t (s, w, g) (s', w, g')"
| after_exit: "phase g = Exited ec \<Longrightarrow> afterExit t ctxDone ec s g = (s', g') \<Longrightarrow>
    superviseStep env ctxDone t (s, w, g) (s', w, g')"
| ready_poll: "d \<in> set (readyWaits g) \<Longrightarrow> waitReadyPoll t ctxDone s (gApp g) d = (s', goOn) \<Longrightarrow>
    superviseStep env ctxDone t (s, w, g) (s', w, g\<lparr>readyWaits := if goOn then readyWaits g else remove1 d (readyWaits g)\<rparr>)"
| socket_watch: "phase g = Running pid b \<Longrightarrow> watching g = Watching seen \<Longrightarrow>
    watchTick t ctxDone s (gApp g) pid (origDir g) cur seen = (s', wt) \<Longrightarrow>
    superviseStep env ctxDone t (s, w, g)
      (s', if wt = Restarting then signalGroup w pid SIGTERM else w, g\<lparr>watching := wt\<rparr>)"

section \<open>What a step leaves alone\<close>

lemma markers_frame [sup_frame]:
  "cfg (dropMarker s a) = cfg s" "installed (dropMarker s a) = installed s" "appCancel (dropMarker s a) = appCancel s"
  "cancelled (dropMarker s a) = cancelled s" "crashes (dropMarker s a) = crashes s"
  "cfg (superviseStart t s a) = cfg s" "installed (superviseStart t s a) = installed s" "appCancel (superviseStart t s a) = appCancel s"
  "cancelled (superviseStart t s a) = cancelled s" "crashes (superviseStart t s a) = crashes s"
  by (auto simp: dropMarker_def superviseStart_def Let_def sup_frame split: prod.splits)

lemma superviseStop_frame [sup_frame]:
  "cfg (superviseStop t d s a) = cfg s" "installed (superviseStop t d s a) = installed s" "appCancel (superviseStop t d s a) = appCancel s"
  "cancelled (superviseStop t d s a) = cancelled s" "crashes (superviseStop t d s a) = crashes s"
  by (simp_all add: superviseStop_def sup_frame)

lemma bits_frame [sup_frame]:
  "cfg (markNotReady s i) = cfg s" "installed (markNotReady s i) = installed s" "appCancel (markNotReady s i) = appCancel s"
  "cancelled (markNotReady s i) = cancelled s" "crashes (markNotReady s i) = crashes s"
  "cfg (markReady s i) = cfg s" "installed (markReady s i) = installed s" "appCancel (markReady s i) = appCancel s"
  "cancelled (markReady s i) = cancelled s" "crashes (markReady s i) = crashes s"
  "cfg (markReinstalled s i) = cfg s" "installed (markReinstalled s i) = installed s" "appCancel (markReinstalled s i) = appCancel s"
  "cancelled (markReinstalled s i) = cancelled s" "crashes (markReinstalled s i) = crashes s"
  "cfg (markSuspended s i) = cfg s" "installed (markSuspended s i) = installed s" "appCancel (markSuspended s i) = appCancel s"
  "cancelled (markSuspended s i) = cancelled s"
  by (simp_all add: markNotReady_def markReady_def markReinstalled_def markSuspended_def)

lemma reapStale_frame:
  "reapStale s w a = (s', w', pids) \<Longrightarrow> cfg s' = cfg s \<and> installed s' = installed s \<and> appCancel s' = appCancel s
     \<and> cancelled s' = cancelled s \<and> crashes s' = crashes s"
  by (auto simp: reapStale_def split: prod.splits)

lemma audit_all_frame [sup_frame]:
  "cfg (foldl (\<lambda>s x. writeAuditLine t s a (ev x)) s xs) = cfg s"
  "installed (foldl (\<lambda>s x. writeAuditLine t s a (ev x)) s xs) = installed s"
  "appCancel (foldl (\<lambda>s x. writeAuditLine t s a (ev x)) s xs) = appCancel s"
  "cancelled (foldl (\<lambda>s x. writeAuditLine t s a (ev x)) s xs) = cancelled s"
  "crashes (foldl (\<lambda>s x. writeAuditLine t s a (ev x)) s xs) = crashes s"
  by (induction xs arbitrary: s) (simp_all add: sup_frame)

text \<open>The tables only the rescan changes.\<close>

definition sameTables :: "supervisor \<Rightarrow> supervisor \<Rightarrow> bool" where
  "sameTables s s' \<longleftrightarrow> cfg s' = cfg s \<and> installed s' = installed s \<and> appCancel s' = appCancel s \<and> cancelled s' = cancelled s"

text \<open>Suspension comes with the end of the goroutine.\<close>

definition suspendsLast :: "supervisor \<times> goroutine \<Rightarrow> supervisor \<times> goroutine \<Rightarrow> bool" where
  "suspendsLast sg sg' \<longleftrightarrow>
     (\<forall>i. isSuspended (fst sg') i \<longrightarrow>
       isSuspended (fst sg) i \<or> i = ID (Mf (gApp (snd sg))) \<and> phase (snd sg') = Returned)"

lemma isSuspended_cong: "crashes s' = crashes s \<Longrightarrow> isSuspended s' i = isSuspended s i"
  by (simp add: isSuspended_def)

lemma superviseTop_frame:
  assumes "superviseTop env t ctxDone s g = (s', g')"
  shows "sameTables s s' \<and> gApp g' = gApp g \<and> suspendsLast (s, g) (s', g')"
  using assms
  by (auto simp: superviseTop_def returnFrom_def Let_def sameTables_def suspendsLast_def sup_frame isSuspended_def
      markSuspended_def split: option.splits if_splits)

lemma spawnCheck_frame:
  assumes "spawnCheck env t s w g = (s', w', g')"
  shows "sameTables s s' \<and> gApp g' = gApp g \<and> suspendsLast (s, g) (s', g')"
  using assms
  by (auto simp: spawnCheck_def Let_def sameTables_def suspendsLast_def sup_frame isSuspended_def
      split: option.splits prod.splits sum.splits dest!: reapStale_frame)

lemma spawn_frame:
  "spawnFailed t txt s g = (s', g') \<Longrightarrow> sameTables s s' \<and> gApp g' = gApp g \<and> suspendsLast (s, g) (s', g')"
  "spawnStarted env t pid d b s g = (s', g') \<Longrightarrow> sameTables s s' \<and> gApp g' = gApp g \<and> suspendsLast (s, g) (s', g')"
  "spawnExit ctxDone werr st s g = (s', g') \<Longrightarrow> sameTables s s' \<and> gApp g' = gApp g \<and> suspendsLast (s, g) (s', g')"
  "waitReadyPoll t ctxDone s a dl = (s', c) \<Longrightarrow> sameTables s s' \<and> crashes s' = crashes s"
  "watchTick t ctxDone s a pid orig cur seen = (s', wt) \<Longrightarrow> sameTables s s' \<and> crashes s' = crashes s"
  by (auto simp: spawnFailed_def spawnStarted_def spawnExit_def waitReadyPoll_def watchTick_def Let_def sameTables_def
      suspendsLast_def sup_frame isSuspended_def split: option.splits bool.splits waitErr.splits sum.splits if_splits)

lemma recordCrash_frame:
  "recordCrash t s i = (s', b) \<Longrightarrow> sameTables s s' \<and> (\<forall>j. isSuspended s' j \<longleftrightarrow> (if j = i then b else isSuspended s j))"
  by (auto simp: recordCrash_def Let_def sameTables_def isSuspended_def)

lemma takeReinstalled_frame:
  "takeReinstalled s i = (s', b) \<Longrightarrow> sameTables s s' \<and> crashes s' = crashes s"
  by (auto simp: takeReinstalled_def sameTables_def)

lemma afterExit_frame:
  assumes "afterExit t ctxDone ec s g = (s', g')"
  shows "sameTables s s' \<and> gApp g' = gApp g \<and> suspendsLast (s, g) (s', g')"
proof -
  let ?a = "gApp g" and ?i = "ID (Mf (gApp g))"
  let ?s = "writeAuditLine t (markNotReady s ?i) ?a ((audit ExitEv)\<lparr>ExitCode := ec\<rparr>)"
  have s0: "sameTables s ?s" "crashes ?s = crashes s" by (simp_all add: sameTables_def sup_frame)
  obtain s1 b1 where s1: "takeReinstalled ?s ?i = (s1, b1)" by fastforce
  obtain s2 b2 where s2: "recordCrash t s1 ?i = (s2, b2)" by fastforce
  note f = s0 takeReinstalled_frame[OF s1] recordCrash_frame[OF s2]
  have sus: "isSuspended s2 j \<longleftrightarrow> (if j = ?i then b2 else isSuspended s j)" for j
    using f isSuspended_cong[of s1 s] by simp
  have last: "suspendsLast (s, g) (s', g')" if "crashes s' = crashes s2" "b2 \<Longrightarrow> phase g' = Returned"
    using sus isSuspended_cong[OF that(1)] that(2) by (auto simp: suspendsLast_def)
  consider "ctxDone" | "\<not> ctxDone" "b1" | "\<not> ctxDone" "\<not> b1" by blast
  then show ?thesis
  proof cases
    case 1
    then show ?thesis using assms f
      by (auto simp: afterExit_def Let_def returnFrom_def sameTables_def suspendsLast_def sup_frame isSuspended_def)
  next
    case 2
    then show ?thesis using assms f s1
      by (auto simp: afterExit_def Let_def sameTables_def suspendsLast_def isSuspended_def)
  next
    case 3
    then have "crashes s' = crashes s2 \<and> (b2 \<longrightarrow> phase g' = Returned) \<and> sameTables s2 s' \<and> gApp g' = gApp g"
      using assms s1 s2 by (cases b2) (auto simp: afterExit_def Let_def returnFrom_def sameTables_def sup_frame)
    then show ?thesis using last f by (auto simp: sameTables_def)
  qed
qed

lemma suspendsLast_same: "crashes s' = crashes s \<Longrightarrow> suspendsLast (s, g) (s', g')"
  by (simp add: suspendsLast_def isSuspended_def)

lemma superviseStep_frame:
  assumes "superviseStep env ctxDone t (s, w, g) (s', w', g')"
  shows "sameTables s s' \<and> gApp g' = gApp g \<and> suspendsLast (s, g) (s', g') \<and> (phase g = Returned \<longrightarrow> phase g' = Returned)"
  using assms
proof cases
  case loop_head
  then show ?thesis using superviseTop_frame by auto
next
  case (wait_cancelled d)
  then show ?thesis by (auto simp: returnFrom_def sameTables_def sup_frame intro!: suspendsLast_same)
next
  case spawn_check
  then show ?thesis using spawnCheck_frame by auto
next
  case (start_fails b e)
  then show ?thesis using spawn_frame(1) by auto
next
  case (started b pid dirId)
  then show ?thesis using spawn_frame(2) by auto
next
  case (exits pid b werr st)
  then show ?thesis using spawn_frame(3) by auto
next
  case (after_exit ec)
  then show ?thesis using afterExit_frame by auto
next
  case (ready_poll d goOn)
  then show ?thesis using spawn_frame(4) by (auto intro!: suspendsLast_same)
next
  case (socket_watch pid b seen cur wt)
  then show ?thesis using spawn_frame(5) by (auto intro!: suspendsLast_same)
qed (auto simp: setPhase_def sameTables_def sup_frame intro!: suspendsLast_same)

section \<open>What holds of a goroutine at any time\<close>

definition verified :: "superviseEnv \<Rightarrow> goroutine \<Rightarrow> bytes \<Rightarrow> bool" where
  "verified env g b \<longleftrightarrow> sha256Hex (crypt (scanning env)) b = SHA256 (Binary (Mf (gApp g)))"

definition goroutineOK :: "superviseEnv \<Rightarrow> goroutine \<Rightarrow> bool" where
  "goroutineOK env g \<longleftrightarrow>
     second_ns \<le> backoff g \<and> backoff g \<le> maxBackoff \<and> second_ns \<le> verifyBackoff g \<and> verifyBackoff g \<le> maxBackoff
     \<and> verifyFails g \<le> maxVerifyFails \<and> (verifyFails g = maxVerifyFails \<longrightarrow> phase g = Returned)
     \<and> (case phase g of Checked b \<Rightarrow> verified env g b | Running _ b \<Rightarrow> verified env g b | _ \<Rightarrow> True)"

lemma goroutineOK_new: "goroutineOK env (newGoroutine a)"
  by (simp add: goroutineOK_def newGoroutine_def maxBackoff_def second_ns_def maxVerifyFails_def)

lemma nextBackoff_range: "second_ns \<le> d \<Longrightarrow> d \<le> maxBackoff \<Longrightarrow> second_ns \<le> nextBackoff d maxBackoff \<and> nextBackoff d maxBackoff \<le> maxBackoff"
  by (simp add: nextBackoff_def Let_def maxBackoff_def second_ns_def)

lemma verifyAtSpawn_content:
  assumes "verifyAtSpawn env s a = None"
  shows "sha256Hex (crypt (scanning env)) (contentAt (disk s) (BinaryPath a)) = SHA256 (Binary (Mf a))
    \<and> Lstat (disk s) (BinaryPath a) = Inr (Regular (contentAt (disk s) (BinaryPath a)))"
proof -
  obtain n where n: "Lstat (disk s) (BinaryPath a) = Inr n" "\<And>t. n \<noteq> Symlink t"
    using assms by (auto simp: verifyAtSpawn_def split: sum.splits node.splits)
  then have "Stat (disk s) (BinaryPath a) = Inr n" "nodeAt (disk s) (BinaryPath a) = Some n"
    by (auto simp: Stat_def maxLinks_def numeral_eq_Suc Lstat_def split: node.splits option.splits if_splits)
  then show ?thesis
    using assms n by (auto simp: verifyAtSpawn_def verifyBinary_def contentAt_def Let_def split: node.splits if_splits)
qed

lemma superviseTop_OK:
  assumes "superviseTop env t ctxDone s g = (s', g')" and "goroutineOK env g" and "phase g = Top"
  shows "goroutineOK env g'"
  using assms
  by (auto simp: superviseTop_def returnFrom_def Let_def goroutineOK_def maxVerifyFails_def maxBackoff_def second_ns_def
      split: option.splits if_splits)

lemma spawnCheck_OK:
  assumes "spawnCheck env t s w g = (s', w', g')" and "goroutineOK env g" and "phase g = ToSpawn"
  shows "goroutineOK env g'"
proof (cases "verifyAtSpawn env s (gApp g)")
  case None
  then have "verified env g (contentAt (disk s) (BinaryPath (gApp g)))"
    using verifyAtSpawn_content[OF None] by (simp add: verified_def)
  then show ?thesis using assms None
    by (auto simp: spawnCheck_def Let_def goroutineOK_def verified_def split: prod.splits)
next
  case (Some e)
  then show ?thesis using assms by (auto simp: spawnCheck_def Let_def goroutineOK_def)
qed

lemma superviseStep_OK:
  assumes "superviseStep env ctxDone t (s, w, g) (s', w', g')" and ok: "goroutineOK env g"
  shows "goroutineOK env g'"
  using assms(1)
proof cases
  case loop_head
  then show ?thesis using superviseTop_OK ok by blast
next
  case spawn_check
  then show ?thesis using spawnCheck_OK ok by blast
next
  case (verify_again d)
  then show ?thesis using nextBackoff_range ok by (auto simp: goroutineOK_def setPhase_def)
next
  case (restart d)
  then show ?thesis using nextBackoff_range ok by (auto simp: goroutineOK_def setPhase_def)
next
  case (started b pid dirId)
  then show ?thesis using ok by (auto simp: spawnStarted_def Let_def goroutineOK_def verified_def)
next
  case (exits pid b werr st)
  then show ?thesis using ok
    by (auto simp: spawnExit_def Let_def goroutineOK_def split: option.splits bool.splits waitErr.splits)
next
  case (after_exit ec)
  then show ?thesis using ok
    by (auto simp: afterExit_def returnFrom_def Let_def goroutineOK_def split: prod.splits bool.splits if_splits)
qed (use ok in \<open>auto simp: goroutineOK_def setPhase_def returnFrom_def spawnFailed_def Let_def verified_def maxBackoff_def second_ns_def split: phase.splits\<close>)

end
