(* ===== verification/Lifecycle.thy ===== *)
theory Lifecycle
  imports Supervise
begin

text \<open>
  The supervisor as a whole: \<^verbatim>\<open>run\<close> of \<^verbatim>\<open>plugin/appstore/supervisor.go\<close>, its rescan loop and the
  goroutines of the apps, interleaved, while anything else may change the disk and the process table.
  The steps of the goroutines and the three parts of a rescan are atomic, as the supervisor's lock
  makes them for its tables. A goroutine's number is its index in \<open>gos\<close>.
\<close>

section \<open>The whole supervisor\<close>

datatype rescanPlace = Idle | AfterNew | AfterGone

record system =
  svr :: supervisor
  gos :: "goroutine list"
  world :: os
  now :: gotime
  daemonDone :: bool
  rescanAt :: rescanPlace

definition startOne :: "system \<Rightarrow> installedApp \<Rightarrow> system" where
  "startOne \<sigma> a = \<sigma>\<lparr>svr := (svr \<sigma>)\<lparr>appCancel := (appCancel (svr \<sigma>))(ID (Mf a) \<mapsto> length (gos \<sigma>))\<rparr>,
     gos := gos \<sigma> @ [newGoroutine a]\<rparr>"

definition startAll :: "system \<Rightarrow> installedApp list \<Rightarrow> system" where
  "startAll \<sigma> apps = foldl startOne \<sigma> apps"

text \<open>The context of goroutine \<open>n\<close>.\<close>

definition ctxDone :: "system \<Rightarrow> nat \<Rightarrow> bool" where
  "ctxDone \<sigma> n \<longleftrightarrow> daemonDone \<sigma> \<or> n \<in> set (cancelled (svr \<sigma>))"

text \<open>The supervisor right after \<^verbatim>\<open>Service.Start\<close>: scanned, registered, and \<^verbatim>\<open>run\<close> entered.\<close>

definition started :: "superviseEnv \<Rightarrow> system \<Rightarrow> bool" where
  "started env \<sigma> \<longleftrightarrow> (\<exists>c f clk s apps w t.
     scanInstalled (scanning env) clk (newSupervisor c f) = (s, Inr apps) \<and>
     \<sigma> = startAll \<lparr> svr = registerInstalled t s apps, gos = [], world = w, now = t, daemonDone = False, rescanAt = Idle \<rparr> apps)"

inductive systemStep :: "superviseEnv \<Rightarrow> system \<Rightarrow> system \<Rightarrow> bool" for env where
  outside: "now \<sigma> \<le> t \<Longrightarrow>
    systemStep env \<sigma> (\<sigma>\<lparr>svr := (svr \<sigma>)\<lparr>disk := f\<rparr>, world := w, now := t\<rparr>)"
| shutdown: "systemStep env \<sigma> (\<sigma>\<lparr>daemonDone := True\<rparr>)"
| supervise: "n < length (gos \<sigma>) \<Longrightarrow>
    superviseStep env (ctxDone \<sigma> n) (now \<sigma>) (svr \<sigma>, world \<sigma>, gos \<sigma> ! n) (s', w', g') \<Longrightarrow>
    systemStep env \<sigma> (\<sigma>\<lparr>svr := s', world := w', gos := (gos \<sigma>)[n := g']\<rparr>)"
| rescan_new: "rescanAt \<sigma> = Idle \<Longrightarrow> rescanForNew (scanning env) clk clkA (svr \<sigma>) = (s', fresh) \<Longrightarrow>
    systemStep env \<sigma> (startAll (\<sigma>\<lparr>svr := s', rescanAt := AfterNew\<rparr>) fresh)"
| rescan_gone: "rescanAt \<sigma> = AfterNew \<Longrightarrow> enumerates ids (installed (svr \<sigma>)) \<Longrightarrow>
    systemStep env \<sigma> (\<sigma>\<lparr>svr := rescanForGone ids (svr \<sigma>), rescanAt := AfterGone\<rparr>)"
| rescan_resume: "rescanAt \<sigma> = AfterGone \<Longrightarrow> enumerates ids (installed (svr \<sigma>)) \<Longrightarrow>
    rescanForResume clkA ids (svr \<sigma>) = (s', resumed) \<Longrightarrow>
    systemStep env \<sigma> (startAll (\<sigma>\<lparr>svr := s', rescanAt := Idle\<rparr>) resumed)"

section \<open>Starting goroutines\<close>

lemma startAll_simps [simp]: "startAll \<sigma> [] = \<sigma>" "startAll \<sigma> (a # apps) = startAll (startOne \<sigma> a) apps"
  by (simp_all add: startAll_def)

lemma startOne_frame [simp]:
  "installed (svr (startOne \<sigma> a)) = installed (svr \<sigma>)" "cfg (svr (startOne \<sigma> a)) = cfg (svr \<sigma>)"
  "cancelled (svr (startOne \<sigma> a)) = cancelled (svr \<sigma>)" "crashes (svr (startOne \<sigma> a)) = crashes (svr \<sigma>)"
  "appCancel (svr (startOne \<sigma> a)) = (appCancel (svr \<sigma>))(ID (Mf a) \<mapsto> length (gos \<sigma>))"
  "gos (startOne \<sigma> a) = gos \<sigma> @ [newGoroutine a]" "daemonDone (startOne \<sigma> a) = daemonDone \<sigma>"
  by (simp_all add: startOne_def)

lemma startAll_frame [simp]:
  "installed (svr (startAll \<sigma> apps)) = installed (svr \<sigma>)" "cfg (svr (startAll \<sigma> apps)) = cfg (svr \<sigma>)"
  "cancelled (svr (startAll \<sigma> apps)) = cancelled (svr \<sigma>)" "crashes (svr (startAll \<sigma> apps)) = crashes (svr \<sigma>)"
  "gos (startAll \<sigma> apps) = gos \<sigma> @ map newGoroutine apps" "daemonDone (startAll \<sigma> apps) = daemonDone \<sigma>"
  by (induction apps arbitrary: \<sigma>) simp_all

section \<open>The rescan and the table of apps\<close>

lemma rescanOne_installed:
  assumes "rescanOne clkA s a = (s', isFresh)"
  shows "cfg s' = cfg s \<and> installed s' = (if isFresh then (installed s)(ID (Mf a) \<mapsto> a) else installed s)"
  using assms
  by (auto simp: rescanOne_def adoptNew_def rebuildApp_def upgradeApp_def Let_def sup_frame split: option.splits if_splits)

lemma rescanOne_version:
  assumes "rescanOne clkA s a = (s', isFresh)" and "installed s i = Some x"
  shows "\<exists>y. installed s' i = Some y \<and> 0 \<le> compareVersions (AppVersion (Mf y)) (AppVersion (Mf x))"
proof (cases "isFresh \<and> i = ID (Mf a)")
  case True
  then have "0 \<le> compareVersions (AppVersion (Mf a)) (AppVersion (Mf x))"
    using assms by (auto simp: rescanOne_def semver.compare_refl split: if_splits)
  then show ?thesis using True rescanOne_installed[OF assms(1)] by simp
next
  case False
  then show ?thesis using rescanOne_installed[OF assms(1)] assms(2) by (auto simp: semver.compare_refl)
qed

lemma rescanApps_version:
  assumes "rescanApps clkA s apps = (s', fresh)" and "installed s i = Some x"
  shows "\<exists>y. installed s' i = Some y \<and> 0 \<le> compareVersions (AppVersion (Mf y)) (AppVersion (Mf x))"
  using assms
proof (induction apps arbitrary: s s' fresh x)
  case (Cons a apps)
  obtain s1 b where s1: "rescanOne clkA s a = (s1, b)" by fastforce
  obtain y where y: "installed s1 i = Some y" "0 \<le> compareVersions (AppVersion (Mf y)) (AppVersion (Mf x))"
    using rescanOne_version[OF s1 Cons.prems(2)] by blast
  obtain fresh' where "rescanApps clkA s1 apps = (s', fresh')" using Cons.prems(1) s1 by (auto split: prod.splits)
  from Cons.IH[OF this y(1)] y(2) show ?case using semver.compare_trans by blast
qed (auto simp: semver.compare_refl)

lemma scan_tables:
  assumes "scanInstalled env clk s = (s', r)"
  shows "cfg s' = cfg s \<and> installed s' = installed s \<and> appCancel s' = appCancel s \<and> cancelled s' = cancelled s \<and> crashes s' = crashes s"
proof -
  have trust: "scanTrust env t s name bs m sl = (s', r) \<Longrightarrow> appCancel s' = appCancel s \<and> cancelled s' = cancelled s \<and> crashes s' = crashes s \<and> cfg s' = cfg s \<and> installed s' = installed s"
    for t s name bs m sl s' r
    by (auto simp: scanTrust_def noteSignatureFailure_def clearSignatureFailure_def Let_def split: if_splits option.splits)
  have entry: "scanEntry env clk s name = (s', r) \<Longrightarrow> appCancel s' = appCancel s \<and> cancelled s' = cancelled s \<and> crashes s' = crashes s \<and> cfg s' = cfg s \<and> installed s' = installed s"
    for s name s' r
    unfolding scanEntry_def Let_def
    by (auto split: if_splits sum.splits list.splits prod.splits option.splits dest!: trust)
  have "scanEntries env clk s names = (s', rs) \<Longrightarrow> appCancel s' = appCancel s \<and> cancelled s' = cancelled s \<and> crashes s' = crashes s \<and> cfg s' = cfg s \<and> installed s' = installed s"
    for s names s' rs
    by (induction names arbitrary: s s' rs) (auto split: prod.splits dest!: entry)
  then show ?thesis
    using assms by (auto simp: scanInstalled_def noteSkipped_def Let_def split: sum.splits fsErr.splits prod.splits)
qed

lemma rescanForNew_version:
  assumes "rescanForNew env clk clkA s = (s', fresh)" and "installed s i = Some x"
  shows "\<exists>y. installed s' i = Some y \<and> 0 \<le> compareVersions (AppVersion (Mf y)) (AppVersion (Mf x))"
proof -
  obtain s1 r where s1: "scanInstalled env clk s = (s1, r)" by fastforce
  show ?thesis
  proof (cases r)
    case (Inl e)
    then show ?thesis using assms s1 scan_tables[OF s1] by (auto simp: rescanForNew_def sup_frame semver.compare_refl)
  next
    case (Inr apps)
    then have "rescanApps clkA (clearWarned s1 ''rescan'') apps = (s', fresh)" using assms(1) s1 by (simp add: rescanForNew_def)
    then show ?thesis using rescanApps_version scan_tables[OF s1] assms(2) by (simp add: sup_frame)
  qed
qed

lemma rescanForGone_subset: "installed (rescanForGone ids s) \<subseteq>\<^sub>m installed s"
proof -
  have one: "installed (goneOne s i) \<subseteq>\<^sub>m installed s" for s i
    by (auto simp: goneOne_def Let_def sup_frame map_le_def split: option.splits sum.splits)
  show ?thesis unfolding rescanForGone_def
    by (induction ids arbitrary: s) (auto intro: map_le_trans[OF _ one])
qed

lemma rescanForGone_Some: "installed (rescanForGone ids s) i = Some a \<Longrightarrow> installed s i = Some a"
  by (metis domI map_le_def rescanForGone_subset)

lemma resumeOne_tables:
  assumes "resumeOne clkA s i = (s', as)"
  shows "cfg s' = cfg s \<and> installed s' = installed s \<and> cancelled s' = cancelled s
    \<and> (as = [] \<and> appCancel s' = appCancel s \<and> crashes s' = crashes s
       \<or> (\<exists>a. as = [a] \<and> installed s i = Some a \<and> appCancel s' = (appCancel s)(i := None) \<and> crashes s' = (crashes s)(i := None)
            \<and> (\<exists>n. Stat (disk s) (Join [Dir a, resumeMarkerName]) = Inr n)))"
  using assms unfolding resumeOne_def Let_def
  by (auto simp: sup_frame split: option.splits sum.splits prod.splits)

lemma rescanForResume_installed:
  "rescanForResume clkA ids s = (s', as) \<Longrightarrow> cfg s' = cfg s \<and> installed s' = installed s \<and> cancelled s' = cancelled s
     \<and> (\<forall>a \<in> set as. \<exists>i \<in> set ids. installed s i = Some a)"
proof (induction ids arbitrary: s s' as)
  case (Cons i ids)
  obtain s1 as1 where s1: "resumeOne clkA s i = (s1, as1)" by fastforce
  obtain as2 where s2: "rescanForResume clkA ids s1 = (s', as2)" "as = as1 @ as2" using Cons.prems s1 by (auto split: prod.splits)
  show ?case using Cons.IH[OF s2(1)] resumeOne_tables[OF s1] s2(2) by auto
qed simp

section \<open>Who owns an app\<close>

text \<open>A goroutine is live while it has neither returned nor been cancelled.\<close>

definition live :: "supervisor \<Rightarrow> goroutine list \<Rightarrow> nat \<Rightarrow> bool" where
  "live s gs n \<longleftrightarrow> n < length gs \<and> n \<notin> set (cancelled s) \<and> phase (gs ! n) \<noteq> Returned"

definition gid :: "goroutine list \<Rightarrow> nat \<Rightarrow> string" where
  "gid gs n = ID (Mf (gApp (gs ! n)))"

definition owned :: "supervisor \<Rightarrow> goroutine list \<Rightarrow> bool" where
  "owned s gs \<longleftrightarrow>
     (\<forall>n. live s gs n \<longrightarrow> installed s (gid gs n) = Some (gApp (gs ! n)) \<and> appCancel s (gid gs n) = Some n \<and> \<not> isSuspended s (gid gs n))
     \<and> (\<forall>n \<in> set (cancelled s). n < length gs)
     \<and> (\<forall>i n. appCancel s i = Some n \<longrightarrow> n < length gs)
     \<and> (\<forall>i a. installed s i = Some a \<longrightarrow> ID (Mf a) = i)"

text \<open>An installed app that waits for its goroutine.\<close>

definition awaiting :: "supervisor \<Rightarrow> goroutine list \<Rightarrow> installedApp \<Rightarrow> bool" where
  "awaiting s gs a \<longleftrightarrow> installed s (ID (Mf a)) = Some a \<and> \<not> isSuspended s (ID (Mf a)) \<and> (\<forall>n. live s gs n \<longrightarrow> gid gs n \<noteq> ID (Mf a))"

lemma newGoroutine_simps [simp]: "gApp (newGoroutine a) = a" "phase (newGoroutine a) = Fresh"
  by (simp_all add: newGoroutine_def)

lemma startOne_live:
  assumes "owned (svr \<sigma>) (gos \<sigma>)"
  shows "live (svr (startOne \<sigma> a)) (gos \<sigma> @ [newGoroutine a]) n \<longleftrightarrow> live (svr \<sigma>) (gos \<sigma>) n \<or> n = length (gos \<sigma>)"
  using assms by (auto simp: live_def owned_def nth_append)

lemma gid_append: "gid (gs @ [newGoroutine a]) n = (if n = length gs then ID (Mf a) else gid gs n)" if "n \<le> length gs"
  using that by (auto simp: gid_def nth_append)

lemma live_bound: "live s gs n \<Longrightarrow> n < length gs" by (simp add: live_def)

lemma startOne_awaiting:
  assumes "owned (svr \<sigma>) (gos \<sigma>)" "awaiting (svr \<sigma>) (gos \<sigma>) b" "ID (Mf b) \<noteq> ID (Mf a)"
  shows "awaiting (svr (startOne \<sigma> a)) (gos \<sigma> @ [newGoroutine a]) b"
  using assms(2,3) live_bound unfolding awaiting_def startOne_live[OF assms(1)]
  by (fastforce simp: gid_append isSuspended_def)

lemma startOne_owned:
  assumes own: "owned (svr \<sigma>) (gos \<sigma>)" and wait: "awaiting (svr \<sigma>) (gos \<sigma>) a"
  shows "owned (svr (startOne \<sigma> a)) (gos \<sigma> @ [newGoroutine a])"
proof -
  let ?s = "svr (startOne \<sigma> a)" and ?gs = "gos \<sigma> @ [newGoroutine a]"
  have "installed ?s (gid ?gs n) = Some (gApp (?gs ! n)) \<and> appCancel ?s (gid ?gs n) = Some n \<and> \<not> isSuspended ?s (gid ?gs n)"
    if "live ?s ?gs n" for n
  proof (cases "n = length (gos \<sigma>)")
    case True
    then show ?thesis using wait by (simp add: gid_append awaiting_def isSuspended_def)
  next
    case False
    then have l: "live (svr \<sigma>) (gos \<sigma>) n" using that startOne_live[OF own] by blast
    then have "gid (gos \<sigma>) n \<noteq> ID (Mf a)" "n < length (gos \<sigma>)" using wait live_bound by (auto simp: awaiting_def)
    then show ?thesis using own l by (auto simp: owned_def gid_append nth_append isSuspended_def)
  qed
  moreover have "n < length ?gs" if "n \<in> set (cancelled ?s)" for n using own that by (auto simp: owned_def)
  moreover have "n < length ?gs" if "appCancel ?s i = Some n" for i n
    using own that by (auto simp: owned_def less_Suc_eq split: if_splits)
  ultimately show ?thesis using own by (auto simp: owned_def)
qed

lemma startAll_owned:
  "owned (svr \<sigma>) (gos \<sigma>) \<Longrightarrow> \<forall>a \<in> set apps. awaiting (svr \<sigma>) (gos \<sigma>) a \<Longrightarrow> distinct (map (\<lambda>a. ID (Mf a)) apps) \<Longrightarrow>
     owned (svr (startAll \<sigma> apps)) (gos (startAll \<sigma> apps))"
proof (induction apps arbitrary: \<sigma>)
  case (Cons a apps)
  have "awaiting (svr (startOne \<sigma> a)) (gos (startOne \<sigma> a)) b" if "b \<in> set apps" for b
  proof -
    have "ID (Mf b) \<noteq> ID (Mf a)" using Cons.prems(3) imageI[OF that, of "\<lambda>a. ID (Mf a)"] by auto
    then show ?thesis using startOne_awaiting[of \<sigma> b a] Cons.prems(1,2) that by simp
  qed
  then show ?case using Cons.IH[of "startOne \<sigma> a"] startOne_owned[of \<sigma> a] Cons.prems by simp
qed simp

lemma rescanOne_tables:
  assumes "rescanOne clkA s a = (s', isFresh)"
  defines "i \<equiv> ID (Mf a)"
  shows "if isFresh then installed s' = (installed s)(i \<mapsto> a) \<and> crashes s' = (crashes s)(i := None)
       \<and> (if installed s i = None then appCancel s' = appCancel s \<and> cancelled s' = cancelled s
          else appCancel s' = (appCancel s)(i := None) \<and> set (cancelled s') = set (cancelled s) \<union> set_option (appCancel s i))
     else installed s' = installed s \<and> crashes s' = crashes s \<and> appCancel s' = appCancel s \<and> cancelled s' = cancelled s"
  using assms(1) unfolding i_def
  by (auto simp: rescanOne_def adoptNew_def rebuildApp_def upgradeApp_def Let_def sup_frame split: option.splits if_splits)

lemma rescanOne_owned:
  assumes "rescanOne clkA s a = (s', isFresh)" and own: "owned s gs"
  shows "owned s' gs \<and> (isFresh \<longrightarrow> awaiting s' gs a)
    \<and> (\<forall>b. ID (Mf b) \<noteq> ID (Mf a) \<longrightarrow> awaiting s gs b \<longrightarrow> awaiting s' gs b)"
proof (cases isFresh)
  case False
  then show ?thesis using rescanOne_tables[OF assms(1)] own
    by (simp add: owned_def awaiting_def live_def isSuspended_def)
next
  case True
  let ?i = "ID (Mf a)"
  have t: "installed s' = (installed s)(?i \<mapsto> a)" "crashes s' = (crashes s)(?i := None)" "set (cancelled s) \<subseteq> set (cancelled s')"
    "\<And>j. j \<noteq> ?i \<Longrightarrow> appCancel s' j = appCancel s j"
    "set (cancelled s') \<subseteq> set (cancelled s) \<union> set_option (appCancel s ?i)"
    "\<And>j n. appCancel s' j = Some n \<Longrightarrow> appCancel s j = Some n"
    using rescanOne_tables[OF assms(1)] True by (auto split: if_splits)
  have gone: "gid gs n \<noteq> ?i" if "live s' gs n" for n
  proof
    assume g: "gid gs n = ?i"
    have "live s gs n" using that t(3) by (auto simp: live_def)
    then have "installed s ?i \<noteq> None" "appCancel s ?i = Some n" using own g by (auto simp: owned_def)
    then have "n \<in> set (cancelled s')" using rescanOne_tables[OF assms(1)] True by simp
    then show False using that by (simp add: live_def)
  qed
  have sub: "live s gs n" if "live s' gs n" for n using that t(3) by (auto simp: live_def)
  have sus: "isSuspended s' j \<longleftrightarrow> j \<noteq> ?i \<and> isSuspended s j" for j using t(2) by (auto simp: isSuspended_def)
  have "\<forall>n \<in> set (cancelled s'). n < length gs" using own t(5) by (force simp: owned_def)
  moreover have "n < length gs" if "appCancel s' j = Some n" for j n using own t(6)[OF that] by (auto simp: owned_def)
  ultimately have "owned s' gs" using own gone sub t(1,4) sus by (auto simp: owned_def)
  moreover have "awaiting s' gs a" using gone t(1) sus by (auto simp: awaiting_def)
  moreover have "awaiting s' gs b" if "ID (Mf b) \<noteq> ?i" "awaiting s gs b" for b
    using that sub t(1) sus by (auto simp: awaiting_def)
  ultimately show ?thesis by blast
qed

lemma rescanApps_owned:
  assumes "rescanApps clkA s apps = (s', fresh)" and "owned s gs" and "distinct (map (\<lambda>a. ID (Mf a)) apps)"
  shows "owned s' gs \<and> (\<forall>a \<in> set fresh. awaiting s' gs a) \<and> set fresh \<subseteq> set apps
    \<and> distinct (map (\<lambda>a. ID (Mf a)) fresh) \<and> (\<forall>b. ID (Mf b) \<notin> (\<lambda>a. ID (Mf a)) ` set apps \<longrightarrow> awaiting s gs b \<longrightarrow> awaiting s' gs b)"
  using assms
proof (induction apps arbitrary: s s' fresh)
  case (Cons a apps)
  obtain s1 b where s1: "rescanOne clkA s a = (s1, b)" by fastforce
  obtain rest where rest: "rescanApps clkA s1 apps = (s', rest)" "fresh = (if b then a # rest else rest)"
    using Cons.prems(1) s1 by (auto split: prod.splits)
  note one = rescanOne_owned[OF s1 Cons.prems(2)]
  have "distinct (map (\<lambda>a. ID (Mf a)) apps)" "ID (Mf a) \<notin> (\<lambda>a. ID (Mf a)) ` set apps" using Cons.prems(3) by auto
  with Cons.IH[OF rest(1)] one rest(2) show ?case by auto
qed simp

lemma goneOne_tables:
  "goneOne s i = s \<or> installed s i \<noteq> None \<and> installed (goneOne s i) = (installed s)(i := None)
     \<and> crashes (goneOne s i) = (crashes s)(i := None) \<and> appCancel (goneOne s i) = (appCancel s)(i := None)
     \<and> set (cancelled (goneOne s i)) = set (cancelled s) \<union> set_option (appCancel s i)"
  by (auto simp: goneOne_def Let_def sup_frame split: option.splits sum.splits)

lemma goneOne_owned:
  assumes own: "owned s gs"
  shows "owned (goneOne s i) gs"
proof (cases "goneOne s i = s")
  case False
  let ?s = "goneOne s i"
  have t: "installed ?s = (installed s)(i := None)" "crashes ?s = (crashes s)(i := None)"
    "appCancel ?s = (appCancel s)(i := None)" "set (cancelled ?s) = set (cancelled s) \<union> set_option (appCancel s i)"
    using goneOne_tables[of s i] False by auto
  have sub: "live s gs n \<and> gid gs n \<noteq> i" if "live ?s gs n" for n
    using that own t(4) by (auto simp: live_def owned_def)
  have "isSuspended ?s j \<longleftrightarrow> j \<noteq> i \<and> isSuspended s j" for j using t(2) by (auto simp: isSuspended_def)
  moreover have "\<forall>n \<in> set (cancelled ?s). n < length gs" using own t(4) by (auto simp: owned_def)
  ultimately show ?thesis using own sub t(1,3) by (auto simp: owned_def split: if_splits)
qed (use own in simp)

lemma rescanForGone_owned: "owned s gs \<Longrightarrow> owned (rescanForGone ids s) gs"
  unfolding rescanForGone_def by (induction ids arbitrary: s) (auto intro: goneOne_owned)

lemma resumeOne_owned:
  assumes "resumeOne clkA s i = (s', as)" and own: "owned s gs" and "\<forall>n. as \<noteq> [] \<longrightarrow> live s gs n \<longrightarrow> gid gs n \<noteq> i"
  shows "owned s' gs \<and> (\<forall>a \<in> set as. ID (Mf a) = i \<and> awaiting s' gs a)
    \<and> (\<forall>b. ID (Mf b) \<noteq> i \<longrightarrow> awaiting s gs b \<longrightarrow> awaiting s' gs b)"
proof (cases "as = []")
  case True
  then show ?thesis using resumeOne_tables[OF assms(1)] own
    by (auto simp: owned_def awaiting_def live_def isSuspended_def)
next
  case False
  then obtain a where a: "as = [a]" "installed s i = Some a" "appCancel s' = (appCancel s)(i := None)"
    "crashes s' = (crashes s)(i := None)" "installed s' = installed s" "cancelled s' = cancelled s"
    using resumeOne_tables[OF assms(1)] by auto
  have l: "live s' gs n = live s gs n" "live s gs n \<Longrightarrow> gid gs n \<noteq> i" for n using a(6) assms(3) False by (auto simp: live_def)
  have sus: "isSuspended s' j \<longleftrightarrow> j \<noteq> i \<and> isSuspended s j" for j using a(4) by (auto simp: isSuspended_def)
  have i: "ID (Mf a) = i" using own a(2) by (auto simp: owned_def)
  have "owned s' gs" using own l a(3,5,6) sus by (auto simp: owned_def split: if_splits)
  moreover have "awaiting s' gs a" using a(2,5) i l sus by (auto simp: awaiting_def)
  moreover have "awaiting s' gs b" if "ID (Mf b) \<noteq> i" "awaiting s gs b" for b
    using that a(5) l sus by (auto simp: awaiting_def)
  ultimately show ?thesis using a(1) i by auto
qed

lemma rescanForResume_owned:
  assumes "rescanForResume clkA ids s = (s', as)" and "owned s gs" and "distinct ids"
    and "\<forall>a \<in> set as. \<forall>n. live s gs n \<longrightarrow> gid gs n \<noteq> ID (Mf a)"
  shows "owned s' gs \<and> (\<forall>a \<in> set as. ID (Mf a) \<in> set ids \<and> awaiting s' gs a) \<and> distinct (map (\<lambda>a. ID (Mf a)) as)
    \<and> (\<forall>b. ID (Mf b) \<notin> set ids \<longrightarrow> awaiting s gs b \<longrightarrow> awaiting s' gs b)"
  using assms
proof (induction ids arbitrary: s s' as)
  case (Cons i ids)
  obtain s1 as1 where s1: "resumeOne clkA s i = (s1, as1)" by fastforce
  obtain as2 where s2: "rescanForResume clkA ids s1 = (s', as2)" "as = as1 @ as2"
    using Cons.prems(1) s1 by (auto split: prod.splits)
  note t = resumeOne_tables[OF s1]
  have "ID (Mf a) = i" if "a \<in> set as1" for a using that t Cons.prems(2) by (auto simp: owned_def)
  then have "\<forall>n. as1 \<noteq> [] \<longrightarrow> live s gs n \<longrightarrow> gid gs n \<noteq> i" using Cons.prems(4) s2(2) by (cases as1) auto
  note one = resumeOne_owned[OF s1 Cons.prems(2) this]
  have "live s1 gs n = live s gs n" for n using t by (auto simp: live_def)
  then have "\<forall>a \<in> set as2. \<forall>n. live s1 gs n \<longrightarrow> gid gs n \<noteq> ID (Mf a)" using Cons.prems(4) s2(2) by auto
  with Cons.IH[OF s2(1)] one Cons.prems(3)
  have two: "owned s' gs" "\<forall>a \<in> set as2. ID (Mf a) \<in> set ids \<and> awaiting s' gs a" "distinct (map (\<lambda>a. ID (Mf a)) as2)"
    "\<forall>b. ID (Mf b) \<notin> set ids \<longrightarrow> awaiting s1 gs b \<longrightarrow> awaiting s' gs b" by simp_all
  have "as1 = [] \<or> (\<exists>a. as1 = [a])" using t by auto
  then show ?case using one two Cons.prems(3) s2(2) by auto
qed simp

lemma superviseStep_suspends:
  assumes "superviseStep env cd t (s, w, g) (s', w', g')" and "isSuspended s' i" and "\<not> isSuspended s i"
  shows "\<not> cd \<and> phase g \<noteq> Returned \<and> phase g' = Returned \<and> i = ID (Mf (gApp g))"
proof -
  have last: "phase g' = Returned \<and> i = ID (Mf (gApp g))"
    using superviseStep_frame[OF assms(1)] assms(2,3) by (auto simp: suspendsLast_def)
  have diff: "crashes s' \<noteq> crashes s" using assms(2,3) isSuspended_cong by blast
  from assms(1) show ?thesis
  proof cases
    case loop_head
    then show ?thesis using last diff by (cases cd) (auto simp: superviseTop_def returnFrom_def Let_def sup_frame)
  next
    case (after_exit ec)
    then show ?thesis using last diff by (cases cd) (auto simp: afterExit_def returnFrom_def Let_def sup_frame)
  next
    case (wait_cancelled d)
    then show ?thesis using diff by (auto simp: returnFrom_def sup_frame)
  next
    case (ready_poll d goOn)
    then show ?thesis using diff spawn_frame(4) by blast
  next
    case (spawn_check)
    then show ?thesis using last by (auto simp: spawnCheck_def Let_def split: option.splits prod.splits)
  next
    case (started b pid dirId)
    then show ?thesis using last by (auto simp: spawnStarted_def Let_def)
  next
    case (start_fails b e)
    then show ?thesis using last by (auto simp: spawnFailed_def Let_def)
  next
    case (exits pid b werr st)
    then show ?thesis using last
      by (auto simp: spawnExit_def Let_def split: option.splits bool.splits waitErr.splits)
  next
    case (socket_watch pid b seen cur wt)
    then show ?thesis using diff spawn_frame(5) by blast
  qed (use diff in \<open>auto simp: sup_frame\<close>)
qed

lemma superviseStep_owned:
  assumes "superviseStep env cd t (s, w, gs ! n) (s', w', g')" and own: "owned s gs" and "n < length gs" and "n \<in> set (cancelled s) \<longrightarrow> cd"
  shows "owned s' (gs[n := g'])"
proof -
  note f = superviseStep_frame[OF assms(1)]
  have g: "gid (gs[n := g']) m = gid gs m" "gApp (gs[n := g'] ! m) = gApp (gs ! m)" for m
    using f assms(3) by (auto simp: gid_def nth_list_update)
  have l: "live s gs m \<and> (m = n \<longrightarrow> phase g' \<noteq> Returned)" if "live s' (gs[n := g']) m" for m
    using that f assms(3) by (auto simp: live_def sameTables_def nth_list_update split: if_splits)
  have "\<not> isSuspended s' (gid gs m)" if m: "live s' (gs[n := g']) m" for m
  proof
    assume sus: "isSuspended s' (gid gs m)"
    have lm: "live s gs m" "\<not> isSuspended s (gid gs m)" "appCancel s (gid gs m) = Some m"
      using l[OF m] own by (auto simp: owned_def)
    then have n: "\<not> cd" "phase (gs ! n) \<noteq> Returned" "phase g' = Returned" "gid gs m = gid gs n"
      using superviseStep_suspends[OF assms(1) sus] by (auto simp: gid_def)
    then have "live s gs n" using assms(3,4) by (auto simp: live_def)
    then have "m = n" using lm n(4) own by (auto simp: owned_def)
    then show False using l[OF m] n(3) by simp
  qed
  then show ?thesis using own l f g by (auto simp: owned_def sameTables_def)
qed

section \<open>What the scan hands out\<close>

lemma adoptedOf_distinct:
  assumes "distinct (map fst rs)" and "\<And>name a. (name, Adopted a) \<in> set rs \<Longrightarrow> ID (Mf a) = name"
  shows "distinct (map (\<lambda>a. ID (Mf a)) (adoptedOf rs)) \<and> (\<lambda>a. ID (Mf a)) ` set (adoptedOf rs) \<subseteq> fst ` set rs"
  using assms
proof (induction rs)
  case (Cons r rs)
  have "distinct (map (\<lambda>a. ID (Mf a)) (adoptedOf rs)) \<and> (\<lambda>a. ID (Mf a)) ` set (adoptedOf rs) \<subseteq> fst ` set rs"
    using Cons by simp
  moreover have "adoptedOf (r # rs) = (case snd r of Adopted a \<Rightarrow> [a] | _ \<Rightarrow> []) @ adoptedOf rs"
    by (simp add: adoptedOf_def case_prod_beta)
  moreover have "ID (Mf a) = fst r" if "snd r = Adopted a" for a using Cons.prems(2)[of "fst r" a] that by (cases r) simp
  ultimately show ?case using Cons.prems(1) by (auto split: scanResult.splits)
qed (simp add: adoptedOf_def)

lemma scan_distinct:
  assumes "scanInstalled env clk s = (s', Inr apps)"
  shows "distinct (map (\<lambda>a. ID (Mf a)) apps)"
proof (cases "ReadDir (disk s) (InstallRoot (cfg s))")
  case (Inl e)
  then show ?thesis using assms by (auto simp: scanInstalled_def split: fsErr.splits)
next
  case (Inr es)
  let ?names = "map fst (filter snd es)" and ?rs = "snd (scanEntries env clk s (map fst (filter snd es)))"
  have d: "distinct ?names" using ReadDir_distinct[OF Inr] by (simp add: distinct_map_filter)
  have "ID (Mf a) = name" if m: "(name, Adopted a) \<in> set ?rs" for name a
    using scanEntries_mem[OF m d] scanEntry_Adopted by (metis trustedInstall_def)
  then show ?thesis
    using adoptedOf_distinct[of ?rs] scanEntries_names[of env clk s ?names] d scanInstalled_apps(1)[OF assms Inr] by simp
qed

text \<open>An app whose manifest the trust chain vouches for, whatever is on disk now.\<close>

definition vouched :: "scanEnv \<Rightarrow> config \<Rightarrow> installedApp \<Rightarrow> bool" where
  "vouched env c a \<longleftrightarrow>
     (let m = Mf a in valid_manifest m \<and> (\<exists>bs. parseManifest env bs = Inr m)
      \<and> (if Sideloaded a then EnforceSideloadPolicy SideloadAllowedCaps (Some m) = None
         else VerifySignature (crypt env) m = None \<and> VerifyTrustAnchor m (pinnedPublisher c (ID m)) = None)
      \<and> Dir a = Join [InstallRoot c, ID m] \<and> resolveUnder (workDir env) (Dir a) (Path (Binary m)) = Inr (BinaryPath a))"

lemma scan_vouched:
  assumes "scanInstalled env clk s = (s', Inr apps)" and "a \<in> set apps"
  shows "vouched env (cfg s) a"
proof (cases "ReadDir (disk s) (InstallRoot (cfg s))")
  case (Inl e)
  then show ?thesis using assms by (auto simp: scanInstalled_def split: fsErr.splits)
next
  case (Inr es)
  then obtain name where "trustedInstall env s name a" using scanInstalled_mem[OF assms(1) Inr] assms(2) by blast
  then show ?thesis by (auto simp: trustedInstall_def vouched_def Let_def)
qed

lemma rescanApps_from:
  "rescanApps clkA s apps = (s', fresh) \<Longrightarrow>
     cfg s' = cfg s \<and> set fresh \<subseteq> set apps \<and> (\<forall>i a. installed s' i = Some a \<longrightarrow> installed s i = Some a \<or> a \<in> set apps)"
proof (induction apps arbitrary: s s' fresh)
  case (Cons a apps)
  obtain s1 b where s1: "rescanOne clkA s a = (s1, b)" by fastforce
  obtain rest where rest: "rescanApps clkA s1 apps = (s', rest)" "fresh = (if b then a # rest else rest)"
    using Cons.prems(1) s1 by (auto split: prod.splits)
  show ?case using Cons.IH[OF rest(1)] rest(2) rescanOne_installed[OF s1] by (auto split: if_splits)
qed simp

lemma registerInstalled_from:
  "cfg (registerInstalled t s apps) = cfg s
   \<and> (\<forall>i a. installed (registerInstalled t s apps) i = Some a \<longrightarrow> installed s i = Some a \<or> a \<in> set apps)"
  unfolding registerInstalled_def
proof (induction apps arbitrary: s)
  case (Cons a apps)
  have "cfg (registerOne t s a) = cfg s \<and> (\<forall>i b. installed (registerOne t s a) i = Some b \<longrightarrow> installed s i = Some b \<or> b = a)"
    by (auto simp: registerOne_def sup_frame split: option.splits if_splits)
  then show ?case using Cons.IH[of "registerOne t s a"] by auto
qed simp

text \<open>At start nothing is registered yet, so all that was scanned is.\<close>

lemma registerInstalled_all:
  assumes "distinct (map (\<lambda>a. ID (Mf a)) apps)" and "\<forall>a \<in> set apps. installed s (ID (Mf a)) = None"
  shows "installed (registerInstalled t s apps) = installed s ++ map_of (map (\<lambda>a. (ID (Mf a), a)) apps)
    \<and> appCancel (registerInstalled t s apps) = appCancel s \<and> cancelled (registerInstalled t s apps) = cancelled s
    \<and> crashes (registerInstalled t s apps) = crashes s"
  using assms unfolding registerInstalled_def
proof (induction apps arbitrary: s)
  case (Cons a apps)
  have one: "registerOne t s a = s\<lparr>installed := (installed s)(ID (Mf a) \<mapsto> a)\<rparr>"
    using Cons.prems by (simp add: registerOne_def)
  have "\<forall>b \<in> set apps. ((installed s)(ID (Mf a) \<mapsto> a)) (ID (Mf b)) = None"
    using Cons.prems by (fastforce simp: image_iff)
  moreover have "map_of (map (\<lambda>a. (ID (Mf a), a)) apps) (ID (Mf a)) = None"
    using Cons.prems(1) by (auto simp: map_of_eq_None_iff)
  ultimately show ?case
    using Cons.IH[of "registerOne t s a"] Cons.prems(1) by (auto simp: one map_add_def fun_eq_iff split: option.splits)
qed simp

section \<open>Invariants of the whole supervisor\<close>

text \<open>All apps and goroutines are vouched for, and every goroutine is in order.\<close>

definition systemOK :: "superviseEnv \<Rightarrow> system \<Rightarrow> bool" where
  "systemOK env \<sigma> \<longleftrightarrow>
     (\<forall>a \<in> ran (installed (svr \<sigma>)). vouched (scanning env) (cfg (svr \<sigma>)) a)
     \<and> (\<forall>g \<in> set (gos \<sigma>). vouched (scanning env) (cfg (svr \<sigma>)) (gApp g) \<and> goroutineOK env g)"

lemma startAll_OK:
  "systemOK env \<sigma> \<Longrightarrow> \<forall>a \<in> set apps. vouched (scanning env) (cfg (svr \<sigma>)) a \<Longrightarrow> systemOK env (startAll \<sigma> apps)"
  by (auto simp: systemOK_def goroutineOK_new)

lemma rescanForNew_vouched:
  assumes "rescanForNew env clk clkA s = (s', fresh)" and "\<forall>a \<in> ran (installed s). vouched env (cfg s) a"
  shows "cfg s' = cfg s \<and> (\<forall>a \<in> set fresh. vouched env (cfg s) a) \<and> (\<forall>a \<in> ran (installed s'). vouched env (cfg s) a)"
proof -
  obtain s1 r where s1: "scanInstalled env clk s = (s1, r)" by fastforce
  show ?thesis
  proof (cases r)
    case (Inl e)
    then show ?thesis using assms s1 scan_tables[OF s1] by (auto simp: rescanForNew_def sup_frame)
  next
    case (Inr apps)
    then have r: "rescanApps clkA (clearWarned s1 ''rescan'') apps = (s', fresh)" using assms(1) s1 by (simp add: rescanForNew_def)
    have v: "vouched env (cfg s) a" if "a \<in> set apps" for a using scan_vouched[OF s1[unfolded Inr] that] .
    have "ran (installed s') \<subseteq> ran (installed s) \<union> set apps"
      using rescanApps_from[OF r] scan_tables[OF s1] by (auto simp: ran_def sup_frame)
    then have "\<forall>a \<in> ran (installed s'). vouched env (cfg s) a" using v assms(2) by blast
    then show ?thesis using rescanApps_from[OF r] scan_tables[OF s1] v by (auto simp: sup_frame)
  qed
qed

lemma goneOne_cfg [simp]: "cfg (rescanForGone ids s) = cfg s"
proof -
  have "cfg (goneOne s i) = cfg s" for s i by (auto simp: goneOne_def Let_def sup_frame split: option.splits sum.splits)
  then show ?thesis unfolding rescanForGone_def by (induction ids arbitrary: s) simp_all
qed

lemma started_OK: "started env \<sigma> \<Longrightarrow> systemOK env \<sigma>"
proof -
  assume "started env \<sigma>"
  then obtain c f clk s apps w t where
    s: "scanInstalled (scanning env) clk (newSupervisor c f) = (s, Inr apps)" and
    \<sigma>: "\<sigma> = startAll \<lparr> svr = registerInstalled t s apps, gos = [], world = w, now = t, daemonDone = False, rescanAt = Idle \<rparr> apps"
    by (auto simp: started_def)
  have "cfg s = cfg (newSupervisor c f)" "installed s = Map.empty"
    using scan_tables[OF s] by (auto simp: newSupervisor_def)
  then show ?thesis
    unfolding \<sigma> using registerInstalled_from[of t s apps] scan_vouched[OF s]
    by (intro startAll_OK) (auto simp: systemOK_def ran_def)
qed

lemma systemStep_OK:
  assumes "systemOK env \<sigma>" and "systemStep env \<sigma> \<sigma>'"
  shows "systemOK env \<sigma>'"
  using assms(2)
proof cases
  case (supervise n s' w' g')
  note f = superviseStep_frame[OF supervise(3)] superviseStep_OK[OF supervise(3)]
  have g: "vouched (scanning env) (cfg (svr \<sigma>)) (gApp (gos \<sigma> ! n)) \<and> goroutineOK env (gos \<sigma> ! n)"
    using supervise(2) assms(1) by (simp add: systemOK_def)
  have "vouched (scanning env) (cfg (svr \<sigma>)) (gApp h) \<and> goroutineOK env h" if "h \<in> set ((gos \<sigma>)[n := g'])" for h
  proof (cases "h = g'")
    case True
    then show ?thesis using f g by simp
  next
    case False
    then have "h \<in> set (gos \<sigma>)" using that set_update_subset_insert[of "gos \<sigma>" n g'] by blast
    then show ?thesis using assms(1) by (simp add: systemOK_def)
  qed
  then show ?thesis using assms(1) f(1) supervise(1) by (simp add: systemOK_def sameTables_def)
next
  case (rescan_new clk clkA s' fresh)
  have "\<forall>a \<in> ran (installed (svr \<sigma>)). vouched (scanning env) (cfg (svr \<sigma>)) a"
    using assms(1) unfolding systemOK_def by blast
  note v = rescanForNew_vouched[OF rescan_new(3) this]
  show ?thesis unfolding rescan_new(1) by (rule startAll_OK) (use v assms(1) in \<open>simp_all add: systemOK_def\<close>)
next
  case (rescan_gone ids)
  have "ran (installed (rescanForGone ids (svr \<sigma>))) \<subseteq> ran (installed (svr \<sigma>))"
    by (auto simp: ran_def dest!: rescanForGone_Some)
  then show ?thesis unfolding rescan_gone(1) using assms(1) by (simp add: systemOK_def subset_iff)
next
  case (rescan_resume ids clkA s' resumed)
  have v: "cfg s' = cfg (svr \<sigma>)" "installed s' = installed (svr \<sigma>)" "set resumed \<subseteq> ran (installed (svr \<sigma>))"
    using rescanForResume_installed[OF rescan_resume(4)] by (auto simp: ran_def)
  then have "\<forall>a \<in> set resumed. vouched (scanning env) (cfg (svr \<sigma>)) a"
    using assms(1) unfolding systemOK_def by blast
  then show ?thesis unfolding rescan_resume(1) by (intro startAll_OK) (use v(1,2) assms(1) in \<open>simp_all add: systemOK_def\<close>)
qed (use assms(1) in \<open>simp_all add: systemOK_def\<close>)

interpretation supervision: transition_invariant "started env" "systemStep env" "systemOK env" for env
  by unfold_locales (rule started_OK, assumption, rule systemStep_OK)

text \<open>No \<^verbatim>\<open>.resume\<close> request is taken for an app that has a live goroutine.\<close>

definition quietResume :: "system \<Rightarrow> system \<Rightarrow> bool" where
  "quietResume \<sigma> \<sigma>' \<longleftrightarrow> (rescanAt \<sigma> = AfterGone \<longrightarrow>
     (\<forall>g \<in> set (drop (length (gos \<sigma>)) (gos \<sigma>')). \<forall>n. live (svr \<sigma>) (gos \<sigma>) n \<longrightarrow> gid (gos \<sigma>) n \<noteq> ID (Mf (gApp g))))"

definition orderlyStep :: "superviseEnv \<Rightarrow> system \<Rightarrow> system \<Rightarrow> bool" where
  "orderlyStep env \<sigma> \<sigma>' \<longleftrightarrow> systemStep env \<sigma> \<sigma>' \<and> quietResume \<sigma> \<sigma>'"

definition ownedSystem :: "system \<Rightarrow> bool" where
  "ownedSystem \<sigma> \<longleftrightarrow> owned (svr \<sigma>) (gos \<sigma>)"

lemma started_owned: "started env \<sigma> \<Longrightarrow> ownedSystem \<sigma>"
proof -
  assume "started env \<sigma>"
  then obtain c f clk s apps w t where
    s: "scanInstalled (scanning env) clk (newSupervisor c f) = (s, Inr apps)" and
    \<sigma>: "\<sigma> = startAll \<lparr> svr = registerInstalled t s apps, gos = [], world = w, now = t, daemonDone = False, rescanAt = Idle \<rparr> apps"
    by (auto simp: started_def)
  have e: "installed s = Map.empty" "appCancel s = Map.empty" "cancelled s = []" "crashes s = Map.empty"
    using scan_tables[OF s] by (auto simp: newSupervisor_def)
  have d: "distinct (map (\<lambda>a. ID (Mf a)) apps)" by (rule scan_distinct[OF s])
  have r: "installed (registerInstalled t s apps) = map_of (map (\<lambda>a. (ID (Mf a), a)) apps)"
    "appCancel (registerInstalled t s apps) = Map.empty" "cancelled (registerInstalled t s apps) = []"
    "crashes (registerInstalled t s apps) = Map.empty"
    using registerInstalled_all[OF d, of s t] e by simp_all
  have a: "map_of (map (\<lambda>a. (ID (Mf a), a)) apps) (ID (Mf a)) = Some a" if "a \<in> set apps" for a
    using that d by (intro map_of_is_SomeI) (auto simp: comp_def)
  have "owned (registerInstalled t s apps) []"
    using r by (auto simp: owned_def live_def dest!: map_of_SomeD)
  moreover have "\<forall>a \<in> set apps. awaiting (registerInstalled t s apps) [] a"
    using r a by (auto simp: awaiting_def live_def isSuspended_def)
  ultimately show ?thesis unfolding \<sigma> ownedSystem_def by (intro startAll_owned d) simp_all
qed

lemma owned_disk: "owned (s\<lparr>disk := f\<rparr>) gs = owned s gs"
  by (simp add: owned_def live_def isSuspended_def)

lemma rescanForNew_owned:
  assumes "rescanForNew env clk clkA s = (s', fresh)" and "owned s gs"
  shows "owned s' gs \<and> (\<forall>a \<in> set fresh. awaiting s' gs a) \<and> distinct (map (\<lambda>a. ID (Mf a)) fresh)"
proof -
  obtain s1 r where s1: "scanInstalled env clk s = (s1, r)" by fastforce
  have own1: "owned s1 gs" using assms(2) scan_tables[OF s1] by (simp add: owned_def live_def isSuspended_def)
  show ?thesis
  proof (cases r)
    case (Inl e)
    then show ?thesis using assms(1) s1 own1
      by (auto simp: rescanForNew_def owned_def live_def isSuspended_def sup_frame)
  next
    case (Inr apps)
    then have r: "rescanApps clkA (clearWarned s1 ''rescan'') apps = (s', fresh)" using assms(1) s1 by (simp add: rescanForNew_def)
    have "owned (clearWarned s1 ''rescan'') gs" using own1 by (simp add: owned_def live_def isSuspended_def sup_frame)
    note o = rescanApps_owned[OF r this scan_distinct[OF s1[unfolded Inr]]]
    then show ?thesis by blast
  qed
qed

lemma orderlyStep_owned:
  assumes own: "ownedSystem \<sigma>" and "orderlyStep env \<sigma> \<sigma>'"
  shows "ownedSystem \<sigma>'"
proof -
  have step: "systemStep env \<sigma> \<sigma>'" and quiet: "quietResume \<sigma> \<sigma>'" using assms(2) by (simp_all add: orderlyStep_def)
  from step show ?thesis
  proof cases
    case (outside t f w)
    then show ?thesis using own by (simp add: ownedSystem_def owned_disk)
  next
    case shutdown
    then show ?thesis using own by (simp add: ownedSystem_def)
  next
    case (supervise n s' w' g')
    have "owned s' ((gos \<sigma>)[n := g'])"
      by (rule superviseStep_owned[OF supervise(3)]) (use own supervise(2) in \<open>simp_all add: ownedSystem_def ctxDone_def\<close>)
    then show ?thesis using supervise(1) by (simp add: ownedSystem_def)
  next
    case (rescan_new clk clkA s' fresh)
    note o = rescanForNew_owned[OF rescan_new(3) own[unfolded ownedSystem_def]]
    show ?thesis unfolding rescan_new(1) ownedSystem_def by (rule startAll_owned) (use o in simp_all)
  next
    case (rescan_gone ids)
    then show ?thesis using own rescanForGone_owned by (simp add: ownedSystem_def)
  next
    case (rescan_resume ids clkA s' resumed)
    have "\<forall>a \<in> set resumed. \<forall>n. live (svr \<sigma>) (gos \<sigma>) n \<longrightarrow> gid (gos \<sigma>) n \<noteq> ID (Mf a)"
      using quiet rescan_resume(1,2) by (simp add: quietResume_def)
    then have o: "owned s' (gos \<sigma>) \<and> (\<forall>a \<in> set resumed. awaiting s' (gos \<sigma>) a) \<and> distinct (map (\<lambda>a. ID (Mf a)) resumed)"
      using rescanForResume_owned[OF rescan_resume(4) own[unfolded ownedSystem_def]] rescan_resume(3)
      by (simp add: enumerates_def)
    show ?thesis unfolding rescan_resume(1) ownedSystem_def by (rule startAll_owned) (use o in simp_all)
  qed
qed

interpretation ownership: transition_invariant "started env" "orderlyStep env" ownedSystem for env
  by unfold_locales (rule started_owned, assumption, rule orderlyStep_owned)

end
