(* ===== verification/Supervision.thy ===== *)
theory Supervision
  imports Lifecycle
begin

text \<open>
  What the supervisor guarantees at any time, in whatever order its goroutines, its rescans and the
  rest of the machine act; with an example of a run, and two states it should not reach and does.
\<close>

section \<open>An example run\<close>

definition exampleSEnv :: superviseEnv where
  "exampleSEnv = \<lparr> scanning = exampleEnv, osText = (\<lambda>_. ''error''), prlimit = (\<lambda>_ _ _. None), depsIdentity = NoIdentity \<rparr>"

text \<open>The binary is empty; in the example the digest of no bytes is thirty-two zero bytes.\<close>

definition runDisk :: files where
  "runDisk = scanDisk\<lparr>entries := (BinaryPath exampleApp, Regular []) # entries scanDisk\<rparr>"

lemma scan_one:
  assumes "scanInstalled env clk s = (s', Inr apps)" and "ReadDir (disk s) (InstallRoot (cfg s)) = Inr [(name, True)]"
    and "trustedInstall env s name a" and "dueNow env clk s a"
  shows "apps = [a]"
proof -
  have mem: "b \<in> set apps \<longleftrightarrow> trustedInstall env s name b \<and> dueNow env clk s b" for b
    using scanInstalled_mem[OF assms(1,2)] by simp
  have "b = a" if "b \<in> set apps" for b
  proof -
    have t: "trustedInstall env s name b" using that mem by blast
    then have "ID (Mf b) = ID (Mf a)" using assms(3) unfolding trustedInstall_def Let_def by metis
    then show ?thesis using trustedInstall_unique[OF assms(3) t] by simp
  qed
  moreover have "a \<in> set apps" using mem assms(3,4) by blast
  ultimately have one: "set apps = {a}" by blast
  have "distinct apps" using scan_distinct[OF assms(1)] by (simp add: distinct_map)
  then have "length apps = 1" using distinct_card[of apps] by (simp add: one)
  then obtain b where "apps = [b]" by (auto simp: length_Suc_conv)
  then show ?thesis using one by simp
qed

text \<open>A daemon that starts on an install root with one app has one goroutine, for that app.\<close>

lemma started_one:
  assumes "scanInstalled (scanning env) clk (newSupervisor c f) = (s, Inr [a])"
  shows "\<exists>\<sigma>. started env \<sigma> \<and> gos \<sigma> = [newGoroutine a] \<and> rescanAt \<sigma> = Idle
    \<and> daemonDone \<sigma> = False \<and> cancelled (svr \<sigma>) = [] \<and> now \<sigma> = 0"
proof -
  let ?\<sigma> = "startAll \<lparr> svr = registerInstalled 0 s [a], gos = [], world = exampleWorld, now = 0, daemonDone = False, rescanAt = Idle \<rparr> [a]"
  have "installed s = Map.empty" "cancelled s = []" using scan_tables[OF assms] by (simp_all add: newSupervisor_def)
  then have "cancelled (registerInstalled 0 s [a]) = []"
    using registerInstalled_all[OF scan_distinct[OF assms], of s 0] by simp
  moreover have "started env ?\<sigma>"
    using assms unfolding started_def by fastforce
  ultimately show ?thesis by (intro exI[of _ ?\<sigma>]) (simp add: startOne_def)
qed

lemma example_scanned: "\<exists>s. scanInstalled (scanning exampleSEnv) (\<lambda>_. 0) scanSupervisor = (s, Inr [exampleApp])"
proof -
  obtain s apps where s: "scanInstalled exampleEnv (\<lambda>_. 0) scanSupervisor = (s, Inr apps)" using scan_example_runs by blast
  then show ?thesis using scan_one[OF s scan_example_dir] scan_example_trusted by (simp add: exampleSEnv_def)
qed

lemma supervise_only:
  assumes "gos \<sigma> = [g]" "rescanAt \<sigma> = Idle" "daemonDone \<sigma> = False" "cancelled (svr \<sigma>) = []" "now \<sigma> = 0"
    and "superviseStep env False 0 (svr \<sigma>, world \<sigma>, g) (s', w', g')"
  shows "\<exists>\<sigma>'. orderlyStep env \<sigma> \<sigma>' \<and> svr \<sigma>' = s' \<and> gos \<sigma>' = [g'] \<and> rescanAt \<sigma>' = Idle \<and> daemonDone \<sigma>' = False
    \<and> cancelled (svr \<sigma>') = [] \<and> now \<sigma>' = 0"
proof -
  let ?\<sigma> = "\<sigma>\<lparr>svr := s', world := w', gos := (gos \<sigma>)[0 := g']\<rparr>"
  have "systemStep env \<sigma> ?\<sigma>"
    by (rule supervise) (use assms in \<open>simp_all add: ctxDone_def\<close>)
  then have "orderlyStep env \<sigma> ?\<sigma>" using assms(2) by (simp add: orderlyStep_def quietResume_def)
  moreover have "cancelled s' = []" using superviseStep_frame[OF assms(6)] assms(4) by (simp add: sameTables_def)
  ultimately show ?thesis using assms by (intro exI[of _ ?\<sigma>]) simp
qed

text \<open>And once a binary that passes the checks is in place, the app runs.\<close>

lemma running_one:
  assumes "scanInstalled (scanning env) clk (newSupervisor c f) = (s, Inr [a])"
    and v: "\<And>s. disk s = f' \<Longrightarrow> verifyBinary env s a = None" "\<And>s. disk s = f' \<Longrightarrow> verifyAtSpawn env s a = None"
  shows "\<exists>\<sigma> g. reach (started env) (orderlyStep env) \<sigma> \<and> gos \<sigma> = [g] \<and> gApp g = a
     \<and> phase g = Running 42 (contentAt f' (BinaryPath a)) \<and> cancelled (svr \<sigma>) = []"
proof -
  let ?R = "reach (started env) (orderlyStep env)"
  let ?g0 = "newGoroutine a"
  obtain \<sigma>0 where s0: "started env \<sigma>0" "gos \<sigma>0 = [?g0]" "rescanAt \<sigma>0 = Idle" "daemonDone \<sigma>0 = False"
    "cancelled (svr \<sigma>0) = []" "now \<sigma>0 = 0" using started_one[OF assms(1)] by blast
  obtain \<sigma>1 where s1: "orderlyStep env \<sigma>0 \<sigma>1" "gos \<sigma>1 = [setPhase ?g0 Top]" "rescanAt \<sigma>1 = Idle" "daemonDone \<sigma>1 = False"
    "cancelled (svr \<sigma>1) = []" "now \<sigma>1 = 0"
    using supervise_only[OF s0(2-6) begin_loop, of env] by auto
  let ?\<sigma>2 = "\<sigma>1\<lparr>svr := (svr \<sigma>1)\<lparr>disk := f'\<rparr>, world := exampleWorld, now := 0\<rparr>"
  have s2: "orderlyStep env \<sigma>1 ?\<sigma>2"
    using outside[where \<sigma> = \<sigma>1 and t = 0 and f = f' and w = exampleWorld] s1(3,6) by (simp add: orderlyStep_def quietResume_def)
  let ?g3 = "(setPhase ?g0 Top)\<lparr>verifyFails := 0, verifyBackoff := second_ns, phase := ToSpawn\<rparr>"
  have "superviseStep env False 0 (svr ?\<sigma>2, world ?\<sigma>2, setPhase ?g0 Top) (svr ?\<sigma>2, world ?\<sigma>2, ?g3)"
    by (rule loop_head) (use v in \<open>simp_all add: setPhase_def superviseTop_def\<close>)
  then obtain \<sigma>3 where s3: "orderlyStep env ?\<sigma>2 \<sigma>3" "svr \<sigma>3 = svr ?\<sigma>2" "gos \<sigma>3 = [?g3]" "rescanAt \<sigma>3 = Idle"
    "daemonDone \<sigma>3 = False" "cancelled (svr \<sigma>3) = []" "now \<sigma>3 = 0"
    using supervise_only[of ?\<sigma>2 "setPhase ?g0 Top" env "svr ?\<sigma>2" "world ?\<sigma>2" ?g3] s1 by auto
  obtain s4 w4 g4 where c: "spawnCheck env 0 (svr \<sigma>3) (world \<sigma>3) ?g3 = (s4, w4, g4)" using prod_cases3 by blast
  have g4: "g4 = ?g3\<lparr>phase := Checked (contentAt f' (BinaryPath a))\<rparr>"
    using c s3(2) v by (auto simp: spawnCheck_def Let_def setPhase_def split: prod.splits)
  obtain \<sigma>4 where s4: "orderlyStep env \<sigma>3 \<sigma>4" "gos \<sigma>4 = [g4]" "rescanAt \<sigma>4 = Idle"
    "daemonDone \<sigma>4 = False" "cancelled (svr \<sigma>4) = []" "now \<sigma>4 = 0"
    using supervise_only[OF s3(3-7) spawn_check[OF _ c]] by auto
  obtain s5 g5 where c5: "spawnStarted env 0 42 None (contentAt f' (BinaryPath a)) (svr \<sigma>4) g4 = (s5, g5)" by fastforce
  have g5: "phase g5 = Running 42 (contentAt f' (BinaryPath a))" "gApp g5 = a" using c5 g4 by (auto simp: spawnStarted_def Let_def setPhase_def)
  obtain \<sigma>5 where s5: "orderlyStep env \<sigma>4 \<sigma>5" "gos \<sigma>5 = [g5]" "cancelled (svr \<sigma>5) = []"
    using supervise_only[OF s4(2-6) superviseStep.started[OF _ _ c5]] g4 by auto
  have "?R \<sigma>0" using s0(1) by (rule reach_start)
  then have "?R \<sigma>1" using s1(1) by (rule reach_step)
  then have "?R ?\<sigma>2" using s2 by (rule reach_step)
  then have "?R \<sigma>3" using s3(1) by (rule reach_step)
  then have "?R \<sigma>4" using s4(1) by (rule reach_step)
  then have "?R \<sigma>5" using s5(1) by (rule reach_step)
  then show ?thesis using s5 g5 by blast
qed

lemma example_running:
  "\<exists>\<sigma> g. reach (started exampleSEnv) (orderlyStep exampleSEnv) \<sigma> \<and> gos \<sigma> = [g] \<and> gApp g = exampleApp
     \<and> phase g = Running 42 [] \<and> cancelled (svr \<sigma>) = []"
proof -
  have "Lstat runDisk (BinaryPath exampleApp) = Inr (Regular [])" "Stat runDisk (BinaryPath exampleApp) = Inr (Regular [])"
    "contentAt runDisk (BinaryPath exampleApp) = []"
    by (simp_all add: runDisk_def contentAt_def Stat_def maxLinks_def Lstat_def nodeAt_def scanDisk_def numeral_eq_Suc)
  moreover have "sha256Hex exampleCrypto [] = SHA256 (Binary (Mf exampleApp))" by code_simp
  ultimately have c: "Lstat runDisk (BinaryPath exampleApp) = Inr (Regular [])" "Stat runDisk (BinaryPath exampleApp) = Inr (Regular [])"
    "contentAt runDisk (BinaryPath exampleApp) = []" "sha256Hex exampleCrypto [] = SHA256 (Binary (Mf exampleApp))" by blast+
  have v: "verifyBinary exampleSEnv s exampleApp = None" "verifyAtSpawn exampleSEnv s exampleApp = None" if "disk s = runDisk" for s
    using c that by (simp_all add: verifyAtSpawn_def verifyBinary_def Let_def exampleSEnv_def exampleEnv_def)
  obtain s where "scanInstalled (scanning exampleSEnv) (\<lambda>_. 0) scanSupervisor = (s, Inr [exampleApp])" using example_scanned by blast
  then show ?thesis
    using running_one[where f' = runDisk and a = exampleApp, OF _ v] c(3) unfolding scanSupervisor_def by simp
qed

lemma example_reached:
  "\<exists>\<sigma> g. reach (started exampleSEnv) (systemStep exampleSEnv) \<sigma> \<and> gos \<sigma> = [g] \<and> gApp g = exampleApp \<and> phase g = Running 42 []"
proof -
  obtain \<sigma> g where r: "reach (started exampleSEnv) (orderlyStep exampleSEnv) \<sigma>" and g: "gos \<sigma> = [g]" "gApp g = exampleApp" "phase g = Running 42 []"
    using example_running by blast
  have "reach (started exampleSEnv) (systemStep exampleSEnv) \<sigma>"
    by (rule reach_mono[OF r]) (simp add: orderlyStep_def)
  then show ?thesis using g by blast
qed

section \<open>Properties\<close>



text \<open>At any time every goroutine has failed at most ten verifications in a row, and has returned if it
  is ten, and both its delays lie between one second and thirty.\<close>

theorem supervision_bounds:
  assumes "reach (started env) (systemStep env) \<sigma>" and "g \<in> set (gos \<sigma>)"
  shows "verifyFails g \<le> 10 \<and> (verifyFails g = 10 \<longrightarrow> phase g = Returned)
    \<and> backoff g \<in> {second_ns .. 30 * second_ns} \<and> verifyBackoff g \<in> {second_ns .. 30 * second_ns}"
proof -
  have "systemOK env \<sigma>" using assms(1) by (rule supervision.reach_inv)
  then have "goroutineOK env g" using assms(2) by (simp add: systemOK_def)
  then show ?thesis by (simp add: goroutineOK_def maxBackoff_def maxVerifyFails_def)
qed

theorem supervision_bounds_witness:
  "\<exists>\<sigma> g. reach (started exampleSEnv) (systemStep exampleSEnv) \<sigma> \<and> gos \<sigma> = [g] \<and> verifyFails g \<le> 10 \<and> backoff g \<le> 30 * second_ns"
proof -
  obtain \<sigma> g where r: "reach (started exampleSEnv) (systemStep exampleSEnv) \<sigma>" "gos \<sigma> = [g]" using example_reached by blast
  then show ?thesis using supervision_bounds[OF r(1), of g] by auto
qed



lemma systemStep_version:
  assumes "systemStep env \<sigma> \<sigma>'" and "installed (svr \<sigma>) i = Some x" and "installed (svr \<sigma>') i = Some y"
  shows "0 \<le> compareVersions (AppVersion (Mf y)) (AppVersion (Mf x))"
  using assms(1)
proof cases
  case (supervise n s' w' g')
  then have "installed (svr \<sigma>') = installed (svr \<sigma>)"
    using superviseStep_frame[OF supervise(3)] by (simp add: sameTables_def)
  then show ?thesis using assms(2,3) by (simp add: semver.compare_refl)
next
  case (rescan_new clk clkA s' fresh)
  then have "installed (svr \<sigma>') = installed s'" by simp
  then show ?thesis using rescanForNew_version[OF rescan_new(3) assms(2)] assms(3) by auto
next
  case (rescan_gone ids)
  then have "installed (rescanForGone ids (svr \<sigma>)) i = Some y" using assms(3) by simp
  then have "installed (svr \<sigma>) i = Some y" by (rule rescanForGone_Some)
  then show ?thesis using assms(2) by (simp add: semver.compare_refl)
next
  case (rescan_resume ids clkA s' resumed)
  then have "installed (svr \<sigma>') = installed (svr \<sigma>)" using rescanForResume_installed[OF rescan_resume(4)] by simp
  then show ?thesis using assms(2,3) by (simp add: semver.compare_refl)
qed (use assms in \<open>simp_all add: semver.compare_refl\<close>)

text \<open>The version the table of installed apps has.\<close>

definition versionOf :: "system \<Rightarrow> string \<Rightarrow> string" where
  "versionOf \<sigma> i = AppVersion (Mf (the (installed (svr \<sigma>) i)))"

text \<open>C6. No downgrade: along any run during which an app stays installed, its version never goes below
  one it had before.\<close>

theorem no_downgrade:
  assumes "\<And>k. Suc k < length run \<Longrightarrow> systemStep env (run ! k) (run ! Suc k)"
    and "\<And>k. k < length run \<Longrightarrow> installed (svr (run ! k)) i \<noteq> None" and "j \<le> k" "k < length run"
  shows "0 \<le> compareVersions (versionOf (run ! k) i) (versionOf (run ! j) i)"
proof -
  let ?vs = "map (\<lambda>\<sigma>. versionOf \<sigma> i) run"
  have "0 \<le> compareVersions (?vs ! Suc n) (?vs ! n)" if n: "Suc n < length ?vs" for n
  proof -
    obtain x y where "installed (svr (run ! n)) i = Some x" "installed (svr (run ! Suc n)) i = Some y"
      using assms(2)[of n] assms(2)[of "Suc n"] n by auto
    then show ?thesis using systemStep_version[OF assms(1)[of n], of i x y] n by (simp add: versionOf_def)
  qed
  then show ?thesis using semver.chain_not_below[of ?vs j k] assms(3,4) by simp
qed

theorem no_downgrade_witness:
  "\<exists>\<sigma> \<sigma>'. systemStep exampleSEnv \<sigma> \<sigma>' \<and> 0 \<le> compareVersions (versionOf \<sigma>' ''io.pilot.hello'') (versionOf \<sigma> ''io.pilot.hello'')"
proof -
  obtain \<sigma> g where r: "reach (started exampleSEnv) (orderlyStep exampleSEnv) \<sigma>" "gos \<sigma> = [g]" "gApp g = exampleApp"
    "phase g = Running 42 []" "cancelled (svr \<sigma>) = []" using example_running by blast
  have "owned (svr \<sigma>) (gos \<sigma>)" using ownership.reach_inv[OF r(1)] by (simp add: ownedSystem_def)
  moreover have "live (svr \<sigma>) (gos \<sigma>) 0" using r by (simp add: live_def)
  moreover have "gid (gos \<sigma>) 0 = ''io.pilot.hello''" using r by (simp add: gid_def exampleApp_def exampleSideload_def)
  ultimately have i: "installed (svr \<sigma>) ''io.pilot.hello'' = Some exampleApp" using r by (auto simp: owned_def)
  have step: "systemStep exampleSEnv \<sigma> (\<sigma>\<lparr>daemonDone := True\<rparr>)" by (rule shutdown)
  have "0 \<le> compareVersions (versionOf ([\<sigma>, \<sigma>\<lparr>daemonDone := True\<rparr>] ! 1) ''io.pilot.hello'') (versionOf ([\<sigma>, \<sigma>\<lparr>daemonDone := True\<rparr>] ! 0) ''io.pilot.hello'')"
    by (rule no_downgrade[where env = exampleSEnv]) (use i step in \<open>auto simp: less_Suc_eq\<close>)
  then show ?thesis using step by auto
qed

section \<open>States that should not occur\<close>

text \<open>A \<^verbatim>\<open>.resume\<close> marker in the directory of an app whose goroutine is live: the cancel function is
  dropped without being called, and the app has two live goroutines.\<close>

lemma resume_duplicates:
  assumes "rescanForResume clkA [i] s = (s', [a])" and "live s gs n" and "gid gs n = i" and "ID (Mf a) = i" and "\<forall>k \<in> set (cancelled s). k < length gs"
    and "svr \<sigma> = s'" "gos \<sigma> = gs"
  shows "live (svr (startAll \<sigma> [a])) (gos (startAll \<sigma> [a])) n \<and> live (svr (startAll \<sigma> [a])) (gos (startAll \<sigma> [a])) (length gs)
    \<and> gid (gos (startAll \<sigma> [a])) n = i \<and> gid (gos (startAll \<sigma> [a])) (length gs) = i \<and> n \<noteq> length gs
    \<and> appCancel (svr (startAll \<sigma> [a])) i = Some (length gs)"
proof -
  have "cancelled s' = cancelled s" using rescanForResume_installed[OF assms(1)] by simp
  then show ?thesis using assms(2-7) by (auto simp: live_def gid_def nth_append)
qed

text \<open>The goroutine that waits for the socket is not stopped when the process exits: if the socket is
  left behind, it marks the app ready after the exit was handled.\<close>

lemma ready_after_exit:
  assumes "phase g = BackoffWait u" and "d \<in> set (readyWaits g)" and "t < d" and "Stat (disk s) (SocketPath (gApp g)) = Inr n"
  shows "\<exists>s' g'. superviseStep env False t (s, w, g) (s', w, g') \<and> phase g' = BackoffWait u \<and> ready s' (ID (Mf (gApp g))) = Some True"
proof -
  have "waitReadyPoll t False s (gApp g) d = (markReady s (ID (Mf (gApp g))), False)"
    using assms(3,4) by (simp add: waitReadyPoll_def)
  from ready_poll[OF assms(2) this, of env w]
  have "superviseStep env False t (s, w, g)
    (markReady s (ID (Mf (gApp g))), w, g\<lparr>readyWaits := remove1 d (readyWaits g)\<rparr>)" by simp
  moreover have "phase (g\<lparr>readyWaits := remove1 d (readyWaits g)\<rparr>) = BackoffWait u" using assms(1) by simp
  moreover have "ready (markReady s (ID (Mf (gApp g)))) (ID (Mf (gApp g))) = Some True" by (simp add: markReady_def)
  ultimately show ?thesis by blast
qed

end
