(* ===== verification/Ipc.thy ===== *)
theory Ipc
  imports Prelude
begin

text \<open>
  \<^verbatim>\<open>pkg/ipc\<close>: envelopes (\<^verbatim>\<open>envelope.go\<close>), length-prefixed framing
  (\<^verbatim>\<open>frame.go\<close>), the server loop and dispatcher (\<^verbatim>\<open>server.go\<close>) and the
  client call (\<^verbatim>\<open>client.go\<close>). The JSON codec is a record of two functions the
  definitions take as an argument. A connection is what the peer still sends, what was written, how
  the input ends and how many writes succeed before the transport fails.
\<close>

section \<open>Envelopes\<close>

definition EnvReq :: string where "EnvReq = ''req''"
definition EnvReply :: string where "EnvReply = ''reply''"
definition EnvErr :: string where "EnvErr = ''err''"

record origin =
  Node :: string
  NodeID :: "32 word"
  Authenticated :: bool
  Trusted :: bool

record envelope =
  EType :: string
  ReqID :: string
  EMethod :: string
  AppID :: string
  EManifestVersion :: int
  Origin :: "origin option"
  Payload :: bytes
  EError :: string

definition emptyEnvelope :: envelope where
  "emptyEnvelope = \<lparr> EType = [], ReqID = [], EMethod = [], AppID = [], EManifestVersion = 0,
     Origin = None, Payload = [], EError = [] \<rparr>"

text \<open>\<^verbatim>\<open>json.Marshal\<close> and \<^verbatim>\<open>json.Unmarshal\<close> on envelopes.\<close>

record codec =
  emarshal :: "envelope \<Rightarrow> bytes option"
  eunmarshal :: "bytes \<Rightarrow> envelope option"

section \<open>Connections\<close>

datatype ioErr = EOF | UnexpectedEOF | IOFailed

record conn =
  unread :: bytes
  written :: bytes
  atEnd :: ioErr
  writesLeft :: "nat option"

text \<open>\<^verbatim>\<open>io.ReadFull\<close> of \<open>n\<close> bytes: an end of input before the first byte is reported as
  it is, an end of file after some bytes becomes an unexpected one.\<close>

definition readFull :: "nat \<Rightarrow> conn \<Rightarrow> conn \<times> (ioErr + bytes)" where
  "readFull n c =
     (if n \<le> length (unread c) then (c\<lparr>unread := drop n (unread c)\<rparr>, Inr (take n (unread c)))
      else (c\<lparr>unread := []\<rparr>,
            Inl (if unread c \<noteq> [] \<and> atEnd c = EOF then UnexpectedEOF else atEnd c)))"

definition connWrite :: "bytes \<Rightarrow> conn \<Rightarrow> conn \<times> ioErr option" where
  "connWrite b c =
     (case writesLeft c of
        None \<Rightarrow> (c\<lparr>written := written c @ b\<rparr>, None)
      | Some 0 \<Rightarrow> (c, Some IOFailed)
      | Some (Suc k) \<Rightarrow> (c\<lparr>written := written c @ b, writesLeft := Some k\<rparr>, None))"

section \<open>Frames\<close>

definition MaxFrameSize :: nat where
  "MaxFrameSize = 2 ^ 20"

datatype frameErr =
    MarshalEnvelope
  | ErrFrameTooLarge
  | WriteLength ioErr
  | WriteBody ioErr
  | ReadHeader ioErr
  | ZeroLengthFrame
  | ReadBody ioErr
  | UnmarshalEnvelope

text \<open>\<^verbatim>\<open>errors.Is(err, io.EOF)\<close>: the body error wraps its cause with \<^verbatim>\<open>%w\<close>.\<close>

definition isEOF :: "frameErr \<Rightarrow> bool" where
  "isEOF e = (e = ReadHeader EOF \<or> e = ReadBody EOF)"

definition putUint32 :: "32 word \<Rightarrow> bytes" where
  "putUint32 w =
     (let n = unat w in [char_of (n div 2 ^ 24), char_of (n div 2 ^ 16), char_of (n div 2 ^ 8), char_of n])"

fun getUint32 :: "bytes \<Rightarrow> 32 word" where
  "getUint32 (a # b # c # d # _) =
     word_of_nat (of_char a * 2 ^ 24 + of_char b * 2 ^ 16 + of_char c * 2 ^ 8 + of_char d)"
| "getUint32 _ = 0"

definition WriteFrame :: "codec \<Rightarrow> envelope \<Rightarrow> conn \<Rightarrow> conn \<times> frameErr option" where
  "WriteFrame cd env c =
     (case emarshal cd env of
        None \<Rightarrow> (c, Some MarshalEnvelope)
      | Some body \<Rightarrow>
          if length body > MaxFrameSize then (c, Some ErrFrameTooLarge)
          else (case connWrite (putUint32 (word_of_nat (length body))) c of
              (c1, Some e) \<Rightarrow> (c1, Some (WriteLength e))
            | (c1, None) \<Rightarrow>
                (case connWrite body c1 of
                   (c2, Some e) \<Rightarrow> (c2, Some (WriteBody e))
                 | (c2, None) \<Rightarrow> (c2, None))))"

definition ReadFrame :: "codec \<Rightarrow> conn \<Rightarrow> conn \<times> (frameErr + envelope)" where
  "ReadFrame cd c =
     (case readFull 4 c of
        (c1, Inl e) \<Rightarrow> (c1, Inl (ReadHeader e))
      | (c1, Inr hdr) \<Rightarrow>
          (let n = getUint32 hdr in
           if n = 0 then (c1, Inl ZeroLengthFrame)
           else if n > word_of_nat MaxFrameSize then (c1, Inl ErrFrameTooLarge)
           else (case readFull (unat n) c1 of
               (c2, Inl e) \<Rightarrow> (c2, Inl (ReadBody e))
             | (c2, Inr body) \<Rightarrow>
                 (case eunmarshal cd body of
                    None \<Rightarrow> (c2, Inl UnmarshalEnvelope)
                  | Some env \<Rightarrow> (c2, Inr env)))))"

section \<open>The server\<close>

text \<open>A handler runs in the application's state \<open>'st\<close>.\<close>

type_synonym 'st handler = "'st \<Rightarrow> envelope \<Rightarrow> 'st \<times> (string + bytes)"
type_synonym 'st dispatcher = "string \<rightharpoonup> 'st handler"

definition NewDispatcher :: "'st dispatcher" where
  "NewDispatcher = Map.empty"

definition RegisterHandler :: "'st dispatcher \<Rightarrow> string \<Rightarrow> 'st handler \<Rightarrow> 'st dispatcher" where
  "RegisterHandler d method h = d(method \<mapsto> h)"

text \<open>\<^verbatim>\<open>Methods\<close> lists the keys in the order \<open>ord\<close> the map iteration gives.\<close>

definition DispatcherMethods :: "string list \<Rightarrow> 'st dispatcher \<Rightarrow> string list" where
  "DispatcherMethods ord d = filter (\<lambda>m. d m \<noteq> None) ord"

definition dispatchOne :: "'st dispatcher \<Rightarrow> 'st \<Rightarrow> envelope \<Rightarrow> 'st \<times> envelope" where
  "dispatchOne d st req =
     (case d (EMethod req) of
        None \<Rightarrow> (st, emptyEnvelope\<lparr>EType := EnvErr, ReqID := ReqID req,
                       EError := ''method not found: '' @ EMethod req\<rparr>)
      | Some h \<Rightarrow>
          (case h st req of
             (st', Inl err) \<Rightarrow> (st', emptyEnvelope\<lparr>EType := EnvErr, ReqID := ReqID req, EError := err\<rparr>)
           | (st', Inr payload) \<Rightarrow>
               (st', emptyEnvelope\<lparr>EType := EnvReply, ReqID := ReqID req, Payload := payload\<rparr>)))"

datatype serveErr = ServeCtx string | ServeRead frameErr | ServeWrite frameErr

lemma connWrite_input [simp]: "unread (fst (connWrite b c)) = unread c"
  by (auto simp: connWrite_def split: option.splits nat.splits)

lemma WriteFrame_input [simp]: "unread (fst (WriteFrame cd env c)) = unread c"
proof -
  have "unread c1 = unread c" if "connWrite b c = (c1, r)" for b c c1 r
    using connWrite_input[of b c] that by simp
  then show ?thesis
    unfolding WriteFrame_def by (auto split: option.splits prod.splits)
qed

lemma WriteFrame_unreadD: "WriteFrame cd env c = (c', r) \<Longrightarrow> unread c' = unread c"
  using WriteFrame_input[of cd env c] by simp

lemma ReadFrame_shrinks:
  "ReadFrame cd c = (c', Inr env) \<Longrightarrow> length (unread c') < length (unread c)"
  by (auto simp: ReadFrame_def readFull_def Let_def split: if_splits option.splits)

text \<open>\<open>ctxErr k\<close> is what \<^verbatim>\<open>ctx.Err()\<close> reports at the start of iteration \<open>k\<close>.\<close>

function Serve :: "(nat \<Rightarrow> string option) \<Rightarrow> codec \<Rightarrow> 'st dispatcher \<Rightarrow> nat \<Rightarrow> conn \<Rightarrow> 'st \<Rightarrow>
    conn \<times> 'st \<times> serveErr option" where
  "Serve ctxErr cd d k c st =
     (case ctxErr k of
        Some e \<Rightarrow> (c, st, Some (ServeCtx e))
      | None \<Rightarrow>
          (case ReadFrame cd c of
             (c1, Inl err) \<Rightarrow> (c1, st, if isEOF err then None else Some (ServeRead err))
           | (c1, Inr req) \<Rightarrow>
               if EType req \<noteq> EnvReq then Serve ctxErr cd d (Suc k) c1 st
               else (case dispatchOne d st req of
                 (st', reply) \<Rightarrow>
                   (case WriteFrame cd reply c1 of
                      (c2, Some e) \<Rightarrow> (c2, st', Some (ServeWrite e))
                    | (c2, None) \<Rightarrow> Serve ctxErr cd d (Suc k) c2 st'))))"
  by pat_completeness auto
termination
  by (relation "measure (\<lambda>(ctxErr, cd, d, k, c, st). length (unread c))")
     (auto dest!: ReadFrame_shrinks[OF sym] WriteFrame_unreadD[OF sym])

declare Serve.simps [simp del]

section \<open>The client\<close>

datatype callErr =
    ReqIDErr
  | MarshalArgs
  | CallWrite frameErr
  | ServerClosed
  | CallRead frameErr
  | ReqIDMismatch string string
  | ErrServerError string
  | UnmarshalResult
  | UnexpectedType string

text \<open>
  \<open>reqID\<close> is the outcome of \<^verbatim>\<open>randReqID\<close>; \<open>args\<close> is the outcome of marshalling
  the arguments (\<open>None\<close> for nil arguments); \<open>result\<close> decodes the reply into the caller's
  result (\<open>None\<close> for a nil result); \<open>peer\<close> gives the bytes the peer sends once it has seen
  everything written so far.
\<close>

definition requestEnvelope :: "string \<Rightarrow> string \<Rightarrow> origin option \<Rightarrow> bytes \<Rightarrow> envelope" where
  "requestEnvelope rid method origin payload =
     emptyEnvelope\<lparr>EType := EnvReq, ReqID := rid, EMethod := method, Origin := origin, Payload := payload\<rparr>"

definition CallWithOrigin :: "codec \<Rightarrow> (bytes \<Rightarrow> bytes) \<Rightarrow> string option \<Rightarrow> string \<Rightarrow> bytes option option \<Rightarrow>
    (bytes \<Rightarrow> 'r option) option \<Rightarrow> origin option \<Rightarrow> conn \<Rightarrow> conn \<times> (callErr + 'r option)" where
  "CallWithOrigin cd peer reqID method args result origin c =
     (case reqID of
        None \<Rightarrow> (c, Inl ReqIDErr)
      | Some rid \<Rightarrow>
          (case args of
             Some None \<Rightarrow> (c, Inl MarshalArgs)
           | _ \<Rightarrow>
             (let payload = (case args of Some (Some b) \<Rightarrow> b | _ \<Rightarrow> []);
                  req = requestEnvelope rid method origin payload
              in case WriteFrame cd req c of
                   (c1, Some e) \<Rightarrow> (c1, Inl (CallWrite e))
                 | (c1, None) \<Rightarrow>
                     (case ReadFrame cd (c1\<lparr>unread := unread c1 @ peer (written c1)\<rparr>) of
                        (c2, Inl e) \<Rightarrow> (c2, Inl (if isEOF e then ServerClosed else CallRead e))
                      | (c2, Inr reply) \<Rightarrow>
                          (c2,
                           if ReqID reply \<noteq> rid then Inl (ReqIDMismatch (ReqID reply) rid)
                           else if EType reply = EnvErr then Inl (ErrServerError (EError reply))
                           else if EType reply = EnvReply then
                             (case result of
                                None \<Rightarrow> Inr None
                              | Some dec \<Rightarrow>
                                  if length (Payload reply) = 0 then Inr None
                                  else (case dec (Payload reply) of
                                    None \<Rightarrow> Inl UnmarshalResult
                                  | Some r \<Rightarrow> Inr (Some r)))
                           else Inl (UnexpectedType (EType reply)))))))"

definition Call :: "codec \<Rightarrow> (bytes \<Rightarrow> bytes) \<Rightarrow> string option \<Rightarrow> string \<Rightarrow> bytes option option \<Rightarrow>
    (bytes \<Rightarrow> 'r option) option \<Rightarrow> conn \<Rightarrow> conn \<times> (callErr + 'r option)" where
  "Call cd peer reqID method args result c = CallWithOrigin cd peer reqID method args result None c"

text \<open>\<^verbatim>\<open>randReqID\<close>: eight random bytes in hexadecimal, or the reader's failure.\<close>

definition randReqID :: "bytes option \<Rightarrow> string option" where
  "randReqID rnd = map_option hexEncode rnd"

section \<open>Framing lemmas\<close>

definition frame :: "bytes \<Rightarrow> bytes" where
  "frame body = putUint32 (word_of_nat (length body)) @ body"

text \<open>An envelope fits the wire if it marshals to a non-empty body within the limit; it
  round-trips if the decoder gives it back.\<close>

definition encodesTo :: "codec \<Rightarrow> envelope \<Rightarrow> bytes \<Rightarrow> bool" where
  "encodesTo cd env body \<longleftrightarrow> emarshal cd env = Some body \<and> body \<noteq> [] \<and> length body \<le> MaxFrameSize"

definition roundtrips :: "codec \<Rightarrow> envelope \<Rightarrow> bytes \<Rightarrow> bool" where
  "roundtrips cd env body \<longleftrightarrow> encodesTo cd env body \<and> eunmarshal cd body = Some env"

lemma length_putUint32 [simp]: "length (putUint32 w) = 4"
  by (simp add: putUint32_def Let_def)

lemma base256:
  fixes n :: nat
  assumes "n < 4294967296"
  shows "n div 16777216 mod 256 * 16777216 + n div 65536 mod 256 * 65536 + n div 256 mod 256 * 256 + n mod 256 = n"
proof -
  have "n div 16777216 mod 256 = n div 16777216" using assms by simp
  moreover have "n div 65536 div 256 = n div 16777216" "n div 256 div 256 = n div 65536"
    by (simp_all add: div_mult2_eq[symmetric])
  ultimately show ?thesis
    using div_mult_mod_eq[of "n div 65536" 256] div_mult_mod_eq[of "n div 256" 256]
      div_mult_mod_eq[of n 256] by linarith
qed

lemma getUint32_putUint32 [simp]: "getUint32 (putUint32 w) = w"
proof -
  have "unat w < 2 ^ LENGTH(32)" by (rule unsigned_less)
  then have lt: "unat w < 4294967296" by simp
  have p: "(2::nat) ^ 24 = 16777216" "(2::nat) ^ 16 = 65536" "(2::nat) ^ 8 = 256" by simp_all
  have "getUint32 (putUint32 w) = word_of_nat (unat w)"
    by (simp only: putUint32_def Let_def getUint32.simps of_char_of p base256[OF lt])
  then show ?thesis by simp
qed

lemma MaxFrameSize_word: "length body \<le> MaxFrameSize \<Longrightarrow> unat (word_of_nat (length body) :: 32 word) = length body"
  by (simp add: unsigned_of_nat take_bit_nat_eq_self MaxFrameSize_def)

lemma WriteFrame_ok:
  assumes "encodesTo cd env body" and "writesLeft c = None"
  shows "WriteFrame cd env c = (c\<lparr>written := written c @ frame body\<rparr>, None)"
  using assms by (simp add: WriteFrame_def encodesTo_def connWrite_def frame_def)

lemma ReadFrame_ok:
  assumes "roundtrips cd env body" and "unread c = frame body @ rest"
  shows "ReadFrame cd c = (c\<lparr>unread := rest\<rparr>, Inr env)"
proof -
  let ?n = "word_of_nat (length body) :: 32 word"
  have b: "body \<noteq> []" "length body \<le> MaxFrameSize" "eunmarshal cd body = Some env"
    using assms by (auto simp: roundtrips_def encodesTo_def)
  have un: "unat ?n = length body" using MaxFrameSize_word[OF b(2)] .
  then have "?n \<noteq> 0" using b(1) by auto
  moreover have "\<not> ?n > word_of_nat MaxFrameSize"
    using b(2) un by (simp add: word_less_nat_alt MaxFrameSize_def)
  moreover have "readFull 4 c = (c\<lparr>unread := body @ rest\<rparr>, Inr (putUint32 ?n))"
    using assms(2) by (simp add: readFull_def frame_def)
  ultimately show ?thesis
    using b(3) un by (simp add: ReadFrame_def readFull_def)
qed

lemma write_read:
  assumes "roundtrips cd env body" and "writesLeft w = None" and "unread r = written w' @ rest"
    and "WriteFrame cd env (w\<lparr>written := []\<rparr>) = (w', err)"
  shows "err = None \<and> written w' = frame body \<and> ReadFrame cd r = (r\<lparr>unread := rest\<rparr>, Inr env)"
proof -
  have "(w', err) = (w\<lparr>written := frame body\<rparr>, None)"
    using assms WriteFrame_ok[of cd env body "w\<lparr>written := []\<rparr>"] by (simp add: roundtrips_def)
  then show ?thesis using ReadFrame_ok[OF assms(1), of r rest] assms(3) by simp
qed

text \<open>What a successful read consumed.\<close>

lemma ReadFrame_Inr:
  assumes "ReadFrame cd c = (c', Inr env)"
  shows "\<exists>body hdr. unread c = hdr @ body @ unread c' \<and> length hdr = 4
    \<and> unat (getUint32 hdr) = length body \<and> 0 < length body \<and> length body \<le> MaxFrameSize
    \<and> eunmarshal cd body = Some env"
proof -
  from assms obtain hdr n where hdr: "hdr = take 4 (unread c)" "length hdr = 4" "n = getUint32 hdr"
    "n \<noteq> 0" "\<not> n > word_of_nat MaxFrameSize"
    and body: "unat n \<le> length (drop 4 (unread c))" "eunmarshal cd (take (unat n) (drop 4 (unread c))) = Some env"
      "unread c' = drop (unat n) (drop 4 (unread c))"
    by (auto simp: ReadFrame_def readFull_def Let_def split: if_splits option.splits)
  have "unat n \<le> MaxFrameSize"
    using hdr(5) by (simp add: not_less word_le_nat_alt MaxFrameSize_def)
  moreover have "0 < unat n" using hdr(4) by (simp add: unat_gt_0)
  moreover have "unread c = hdr @ take (unat n) (drop 4 (unread c)) @ unread c'"
    by (metis append_take_drop_id hdr(1) body(3))
  ultimately show ?thesis
    using hdr body by (intro exI[of _ "take (unat n) (drop 4 (unread c))"] exI[of _ hdr]) simp
qed

section \<open>The server loop on whole frames\<close>

fun serveAll :: "'st dispatcher \<Rightarrow> 'st \<Rightarrow> envelope list \<Rightarrow> 'st \<times> envelope list" where
  "serveAll d st [] = (st, [])"
| "serveAll d st (req # reqs) =
     (if EType req \<noteq> EnvReq then serveAll d st reqs
      else (let (st1, reply) = dispatchOne d st req; (st2, replies) = serveAll d st1 reqs
            in (st2, reply # replies)))"

definition wire :: "codec \<Rightarrow> envelope list \<Rightarrow> bytes" where
  "wire cd es = concat (map (\<lambda>e. frame (the (emarshal cd e))) es)"

definition fits :: "codec \<Rightarrow> envelope \<Rightarrow> bool" where
  "fits cd e = encodesTo cd e (the (emarshal cd e))"

definition decodes :: "codec \<Rightarrow> envelope \<Rightarrow> bool" where
  "decodes cd e = roundtrips cd e (the (emarshal cd e))"

lemma dispatchOne_ReqID: "dispatchOne d st req = (st', reply) \<Longrightarrow> ReqID reply = ReqID req"
  by (auto simp: dispatchOne_def split: option.splits prod.splits sum.splits)

lemma serveAll_ReqID:
  "serveAll d st reqs = (st', replies) \<Longrightarrow>
     map ReqID replies = map ReqID (filter (\<lambda>e. EType e = EnvReq) reqs)"
proof (induction reqs arbitrary: st replies)
  case (Cons req reqs)
  then show ?case
    by (auto split: prod.splits if_splits dest: dispatchOne_ReqID)
qed simp

lemma ReadFrame_end: "unread c = [] \<Longrightarrow> ReadFrame cd c = (c\<lparr>unread := []\<rparr>, Inl (ReadHeader (atEnd c)))"
  by (simp add: ReadFrame_def readFull_def)

lemma Serve_wire:
  assumes "\<And>k. ctxErr k = None" and "unread c = wire cd reqs" and "atEnd c = EOF" and "writesLeft c = None"
    and "list_all (decodes cd) reqs" and "serveAll d st reqs = (st', replies)" and "list_all (fits cd) replies"
  shows "Serve ctxErr cd d k c st = (c\<lparr>unread := [], written := written c @ wire cd replies\<rparr>, st', None)"
  using assms(2-)
proof (induction reqs arbitrary: k c st replies)
  case Nil
  then show ?case
    by (subst Serve.simps) (simp add: assms(1)[of k] ReadFrame_end wire_def isEOF_def)
next
  case (Cons req reqs)
  let ?b = "the (emarshal cd req)"
  have rd: "ReadFrame cd c = (c\<lparr>unread := wire cd reqs\<rparr>, Inr req)"
    using Cons.prems(1,4) by (intro ReadFrame_ok[of _ _ ?b]) (auto simp: wire_def decodes_def)
  show ?case
  proof (cases "EType req = EnvReq")
    case False
    then show ?thesis
      using Cons.IH[of "c\<lparr>unread := wire cd reqs\<rparr>" st replies "Suc k"] Cons.prems rd
      by (subst Serve.simps) (simp add: assms(1)[of k])
  next
    case True
    obtain st1 reply where d1: "dispatchOne d st req = (st1, reply)" by fastforce
    obtain rs where rs: "serveAll d st1 reqs = (st', rs)" "replies = reply # rs"
      using Cons.prems(5) True d1 by (auto split: prod.splits)
    let ?c1 = "c\<lparr>unread := wire cd reqs\<rparr>"
    let ?c2 = "?c1\<lparr>written := written c @ frame (the (emarshal cd reply))\<rparr>"
    have w: "WriteFrame cd reply ?c1 = (?c2, None)"
      using Cons.prems rs by (subst WriteFrame_ok) (auto simp: fits_def)
    have "Serve ctxErr cd d k c st = Serve ctxErr cd d (Suc k) ?c2 st1"
      using rd True d1 w by (subst Serve.simps) (simp add: assms(1)[of k])
    also have "\<dots> = (?c2\<lparr>unread := [], written := written ?c2 @ wire cd rs\<rparr>, st', None)"
      using Cons.prems rs by (intro Cons.IH) auto
    finally show ?thesis by (simp add: rs wire_def)
  qed
qed

section \<open>Properties\<close>

text \<open>Writing an envelope and reading it back: a frame that fits is appended to the peer's input
  and reading it returns the same envelope and leaves exactly the bytes that follow the frame, for
  every codec that decodes what it encoded.\<close>

theorem frame_roundtrip:
  assumes "roundtrips cd env body" and "writesLeft w = None" and "unread r = written w' @ rest"
    and "WriteFrame cd env (w\<lparr>written := []\<rparr>) = (w', err)"
  shows "err = None \<and> written w' = frame body \<and> ReadFrame cd r = (r\<lparr>unread := rest\<rparr>, Inr env)"
  using assms by (rule write_read)

text \<open>A small codec on which the properties are exercised: the type, request id, method, payload and
  error of an envelope, separated by bars.\<close>

definition barCodec :: codec where
  "barCodec = \<lparr>
     emarshal = (\<lambda>e. Some (EType e @ ''|'' @ ReqID e @ ''|'' @ EMethod e @ ''|'' @ Payload e @ ''|'' @ EError e)),
     eunmarshal = (\<lambda>b. case splitOn CHR ''|'' b of
         [t, r, m, p, e] \<Rightarrow> Some (emptyEnvelope\<lparr>EType := t, ReqID := r, EMethod := m, Payload := p, EError := e\<rparr>)
       | _ \<Rightarrow> None) \<rparr>"

definition exampleReq :: envelope where
  "exampleReq = requestEnvelope ''01'' ''echo'' None ''hi''"

definition freshConn :: conn where
  "freshConn = \<lparr> unread = [], written = [], atEnd = EOF, writesLeft = None \<rparr>"

definition echoDispatcher :: "nat dispatcher" where
  "echoDispatcher = RegisterHandler NewDispatcher ''echo'' (\<lambda>n req. (Suc n, Inr (Payload req)))"

definition echoReply :: envelope where
  "echoReply = emptyEnvelope\<lparr>EType := EnvReply, ReqID := ''01'', Payload := ''hi''\<rparr>"

lemmas example_defs = barCodec_def exampleReq_def requestEnvelope_def emptyEnvelope_def freshConn_def
  echoDispatcher_def echoReply_def EnvReq_def EnvReply_def EnvErr_def MaxFrameSize_def
  roundtrips_def encodesTo_def decodes_def fits_def

lemma example_roundtrips:
  "roundtrips barCodec exampleReq (the (emarshal barCodec exampleReq))"
  "decodes barCodec exampleReq" "decodes barCodec echoReply" "fits barCodec echoReply"
  by (simp_all add: example_defs)

lemma example_dispatch: "dispatchOne echoDispatcher 0 exampleReq = (1, echoReply)"
  by (simp add: example_defs dispatchOne_def RegisterHandler_def)

theorem frame_roundtrip_witness:
  "snd (ReadFrame barCodec (freshConn\<lparr>unread := written (fst (WriteFrame barCodec exampleReq freshConn)) @ ''xyz''\<rparr>))
     = Inr exampleReq"
proof -
  have w: "writesLeft freshConn = None" "freshConn\<lparr>written := []\<rparr> = freshConn" by (simp_all add: freshConn_def)
  obtain w' err where wf: "WriteFrame barCodec exampleReq freshConn = (w', err)" by fastforce
  have "unread (freshConn\<lparr>unread := written w' @ ''xyz''\<rparr>) = written w' @ ''xyz''" by simp
  moreover have "WriteFrame barCodec exampleReq (freshConn\<lparr>written := []\<rparr>) = (w', err)"
    by (simp only: w(2) wf)
  ultimately have "ReadFrame barCodec (freshConn\<lparr>unread := written w' @ ''xyz''\<rparr>) =
      (freshConn\<lparr>unread := written w' @ ''xyz'', unread := ''xyz''\<rparr>, Inr exampleReq)"
    by (rule frame_roundtrip[OF example_roundtrips(1) w(1), THEN conjunct2, THEN conjunct2])
  then show ?thesis by (simp only: wf fst_conv snd_conv)
qed

text \<open>A frame is only ever accepted with a body between one byte and one mebibyte, the body is
  exactly as long as its header says, and nothing beyond it is consumed.\<close>

theorem ReadFrame_bounded:
  assumes "ReadFrame cd c = (c', Inr env)"
  shows "\<exists>hdr body. unread c = hdr @ body @ unread c' \<and> length hdr = 4
    \<and> unat (getUint32 hdr) = length body \<and> 0 < length body \<and> length body \<le> 1048576
    \<and> eunmarshal cd body = Some env"
proof -
  have "MaxFrameSize = 1048576" by (simp add: MaxFrameSize_def)
  then show ?thesis using ReadFrame_Inr[OF assms] by metis
qed

theorem ReadFrame_bounded_witness:
  "\<exists>hdr body. frame (the (emarshal barCodec exampleReq)) @ ''rest'' = hdr @ body @ ''rest'' \<and> length hdr = 4
    \<and> unat (getUint32 hdr) = length body \<and> 0 < length body \<and> length body \<le> 1048576
    \<and> eunmarshal barCodec body = Some exampleReq"
proof -
  let ?c = "freshConn\<lparr>unread := frame (the (emarshal barCodec exampleReq)) @ ''rest''\<rparr>"
  have "ReadFrame barCodec ?c = (?c\<lparr>unread := ''rest''\<rparr>, Inr exampleReq)"
    by (rule ReadFrame_ok[OF example_roundtrips(1)]) simp
  from ReadFrame_bounded[OF this] show ?thesis by simp
qed



text \<open>A connection that ends right after a frame's header is reported as a clean end: the
  read fails with an error that wraps end-of-file, and the server returns without an error although
  a frame was cut short.\<close>

theorem Serve_truncated_header:
  assumes "unread c = hdr" and "length hdr = 4" and "atEnd c = EOF" and "ctxErr k = None"
    and "getUint32 hdr \<noteq> 0" and "getUint32 hdr \<le> word_of_nat MaxFrameSize"
  shows "snd (ReadFrame cd c) = Inl (ReadBody EOF) \<and> isEOF (ReadBody EOF)
    \<and> Serve ctxErr cd d k c st = (c\<lparr>unread := []\<rparr>, st, None)"
proof -
  have "0 < unat (getUint32 hdr)" using assms(5) by (simp add: unat_gt_0)
  then have r: "ReadFrame cd c = (c\<lparr>unread := []\<rparr>, Inl (ReadBody EOF))"
    using assms by (simp add: ReadFrame_def readFull_def Let_def)
  then show ?thesis
    by (subst Serve.simps) (simp add: assms(4) isEOF_def)
qed

theorem Serve_truncated_header_witness:
  "Serve (\<lambda>_. None) barCodec echoDispatcher 0 (freshConn\<lparr>unread := [CHR 0x00, CHR 0x00, CHR 0x00, CHR 0x05]\<rparr>) 7
     = (freshConn, 7, None)"
proof -
  let ?h = "[CHR 0x00, CHR 0x00, CHR 0x00, CHR 0x05]"
  let ?c = "freshConn\<lparr>unread := ?h\<rparr>"
  have "getUint32 ?h \<noteq> 0" "getUint32 ?h \<le> word_of_nat MaxFrameSize" by (simp_all add: MaxFrameSize_def)
  moreover have "?c\<lparr>unread := []\<rparr> = freshConn" by (simp add: freshConn_def)
  ultimately show ?thesis
    using Serve_truncated_header[of ?c ?h "\<lambda>_. None" 0 barCodec echoDispatcher 7]
    by (simp add: freshConn_def del: getUint32.simps)
qed

text \<open>The bytes a server over a fresh connection writes for the bytes it is sent.\<close>

definition serverPeer :: "(nat \<Rightarrow> string option) \<Rightarrow> codec \<Rightarrow> 'st dispatcher \<Rightarrow> 'st \<Rightarrow> bytes \<Rightarrow> bytes" where
  "serverPeer ctxErr cd d st bs = written (fst (Serve ctxErr cd d 0 (freshConn\<lparr>unread := bs\<rparr>) st))"

lemma serverPeer_one:
  assumes "\<And>k. ctxErr k = None" and "decodes cd req" and "EType req = EnvReq"
    and "dispatchOne d st req = (st', reply)" and "fits cd reply"
  shows "serverPeer ctxErr cd d st (frame (the (emarshal cd req))) = frame (the (emarshal cd reply))"
proof -
  let ?c = "freshConn\<lparr>unread := frame (the (emarshal cd req))\<rparr>"
  have "Serve ctxErr cd d 0 ?c st = (?c\<lparr>unread := [], written := written ?c @ wire cd [reply]\<rparr>, st', None)"
    by (rule Serve_wire[where reqs = "[req]"]) (use assms in \<open>simp_all add: wire_def freshConn_def\<close>)
  then show ?thesis by (simp add: serverPeer_def wire_def freshConn_def)
qed

lemma call_handler:
  assumes "\<And>k. ctxErr k = None" and "d method = Some h"
    and "h st (requestEnvelope rid method origin args) = (st', out)"
    and "decodes cd (requestEnvelope rid method origin args)"
    and "decodes cd (snd (dispatchOne d st (requestEnvelope rid method origin args)))"
  shows "snd (CallWithOrigin cd (serverPeer ctxErr cd d st) (Some rid) method (Some (Some args)) (Some dec)
      origin freshConn) =
    (case out of
       Inl err \<Rightarrow> Inl (ErrServerError err)
     | Inr payload \<Rightarrow> if payload = [] then Inr None
         else (case dec payload of None \<Rightarrow> Inl UnmarshalResult | Some r \<Rightarrow> Inr (Some r)))"
proof -
  define req where "req = requestEnvelope rid method origin args"
  obtain st2 reply where dr: "dispatchOne d st req = (st2, reply)" by fastforce
  have rq: "EType req = EnvReq" "EMethod req = method" "ReqID req = rid"
    by (simp_all add: req_def requestEnvelope_def)
  have dec: "decodes cd req" "decodes cd reply" "fits cd reply"
    using assms(4,5) dr by (simp_all add: req_def decodes_def roundtrips_def fits_def)
  have w: "WriteFrame cd req freshConn = (freshConn\<lparr>written := frame (the (emarshal cd req))\<rparr>, None)"
    using dec(1) by (subst WriteFrame_ok) (auto simp: decodes_def roundtrips_def freshConn_def)
  have rd: "ReadFrame cd (freshConn\<lparr>written := x, unread := frame (the (emarshal cd reply))\<rparr>) =
      (freshConn\<lparr>written := x, unread := []\<rparr>, Inr reply)" for x
    using dec(2) by (subst ReadFrame_ok[where rest = "[]"]) (auto simp: decodes_def)
  have reply: "reply = (case out of
      Inl err \<Rightarrow> emptyEnvelope\<lparr>EType := EnvErr, ReqID := rid, EError := err\<rparr>
    | Inr payload \<Rightarrow> emptyEnvelope\<lparr>EType := EnvReply, ReqID := rid, Payload := payload\<rparr>)"
    using assms(2,3) dr rq by (auto simp: dispatchOne_def req_def[symmetric] split: sum.splits)
  have u: "unread freshConn = []" by (simp add: freshConn_def)
  have "snd (CallWithOrigin cd (serverPeer ctxErr cd d st) (Some rid) method (Some (Some args)) (Some dec)
      origin freshConn) =
      (if ReqID reply \<noteq> rid then Inl (ReqIDMismatch (ReqID reply) rid)
       else if EType reply = EnvErr then Inl (ErrServerError (EError reply))
       else if EType reply = EnvReply then
         (if length (Payload reply) = 0 then Inr None
          else (case dec (Payload reply) of None \<Rightarrow> Inl UnmarshalResult | Some r \<Rightarrow> Inr (Some r)))
       else Inl (UnexpectedType (EType reply)))"
    using w rd serverPeer_one[of ctxErr cd req d st st2 reply, OF assms(1) dec(1) rq(1) dr dec(3)]
    by (simp add: CallWithOrigin_def req_def[symmetric] u)
  then show ?thesis
    by (simp add: reply emptyEnvelope_def EnvErr_def EnvReply_def split: sum.splits)
qed

text \<open>A call and a server compose: when the peer is the server loop over the request's bytes and
  request and reply survive the codec, the caller gets the handler's payload decoded, or the handler's
  error text as a server error; the handler sees the method, the arguments and the origin sent.\<close>

theorem call_reaches_handler:
  assumes "\<And>k. ctxErr k = None" and "d method = Some h"
    and "h st (requestEnvelope rid method origin args) = (st', out)"
    and "decodes cd (requestEnvelope rid method origin args)"
    and "decodes cd (snd (dispatchOne d st (requestEnvelope rid method origin args)))"
  shows "snd (CallWithOrigin cd (serverPeer ctxErr cd d st) (Some rid) method (Some (Some args)) (Some dec)
      origin freshConn) =
    (case out of
       Inl err \<Rightarrow> Inl (ErrServerError err)
     | Inr payload \<Rightarrow> if payload = [] then Inr None
         else (case dec payload of None \<Rightarrow> Inl UnmarshalResult | Some r \<Rightarrow> Inr (Some r)))"
  using assms by (rule call_handler)

theorem call_reaches_handler_witness:
  "snd (CallWithOrigin barCodec (serverPeer (\<lambda>_. None) barCodec echoDispatcher 0) (Some ''01'') ''echo''
     (Some (Some ''hi'')) (Some Some) None freshConn) = Inr (Some ''hi'')"
proof -
  have h: "echoDispatcher ''echo'' = Some (\<lambda>n req. (Suc n, Inr (Payload req)))"
    by (simp add: echoDispatcher_def RegisterHandler_def)
  show ?thesis
    using call_reaches_handler[of "\<lambda>_. None" echoDispatcher "''echo''" "\<lambda>n req. (Suc n, Inr (Payload req))"
        0 "''01''" None "''hi''" 1 "Inr ''hi''" barCodec Some]
      h example_roundtrips example_dispatch
    by (simp add: exampleReq_def) (simp add: requestEnvelope_def)
qed

end
