(* ===== verification/Limiters.thy ===== *)
theory Limiters
  imports Prelude
begin

text \<open>
  The two rate limiters: the token bucket of \<^verbatim>\<open>pkg/extend/ratelimit.go\<close> and the sliding
  window of \<^verbatim>\<open>pkg/appkit/limiter.go\<close>. Every operation takes the clock reading its source
  makes as the argument \<open>t\<close>. Token counts are exact rationals where the source has a
  \<^verbatim>\<open>float64\<close>. The locale \<open>admission\<close> is the contract the callers of both rely
  on: what one key does never changes what another key is allowed.
\<close>

section \<open>The token bucket\<close>

record tokenBucket =
  tokens :: rat
  lastRefill :: gotime

record rateLimiter =
  rate :: rat
  burst :: rat
  buckets :: "string \<rightharpoonup> tokenBucket"

definition newRateLimiter :: "rat \<Rightarrow> int \<Rightarrow> rateLimiter" where
  "newRateLimiter ratePerSec bst = \<lparr> rate = ratePerSec, burst = of_int bst, buckets = Map.empty \<rparr>"

definition refill :: "rateLimiter \<Rightarrow> gotime \<Rightarrow> tokenBucket \<Rightarrow> tokenBucket" where
  "refill rl t b =
     (let elapsed = of_int (timeSub t (lastRefill b)) / 1000000000 :: rat in
      if elapsed > 0 then
        (let tk = tokens b + elapsed * rate rl in
         b\<lparr>tokens := (if tk > burst rl then burst rl else tk), lastRefill := t\<rparr>)
      else b)"

definition allow :: "rateLimiter \<Rightarrow> gotime \<Rightarrow> string \<Rightarrow> rateLimiter \<times> bool" where
  "allow rl t key =
     (let b0 = (case buckets rl key of None \<Rightarrow> \<lparr> tokens = burst rl, lastRefill = t \<rparr> | Some b \<Rightarrow> b);
          b = refill rl t b0
      in if tokens b \<ge> 1 then (rl\<lparr>buckets := (buckets rl)(key \<mapsto> b\<lparr>tokens := tokens b - 1\<rparr>)\<rparr>, True)
         else (rl\<lparr>buckets := (buckets rl)(key \<mapsto> b)\<rparr>, False))"

section \<open>The sliding window\<close>

record nodeLimiter =
  maxReqs :: int
  window :: duration
  hits :: "string \<rightharpoonup> gotime list"
  lastSweep :: gotime

definition PerNodeLimiter :: "int \<Rightarrow> duration \<Rightarrow> nodeLimiter" where
  "PerNodeLimiter mx w = \<lparr> maxReqs = mx, window = w, hits = Map.empty, lastSweep = zeroTime \<rparr>"

fun pruneBefore :: "gotime list \<Rightarrow> gotime \<Rightarrow> gotime list" where
  "pruneBefore [] cutoff = []"
| "pruneBefore (h # hs) cutoff = (if h < cutoff then pruneBefore hs cutoff else h # hs)"

definition sweepLocked :: "nodeLimiter \<Rightarrow> gotime \<Rightarrow> nodeLimiter" where
  "sweepLocked l t =
     (if timeSub t (lastSweep l) < window l then l
      else l\<lparr>lastSweep := t,
             hits := (\<lambda>node. case hits l node of
                         None \<Rightarrow> None
                       | Some hs \<Rightarrow> if length hs = 0 \<or> last hs < t - window l then None else Some hs)\<rparr>)"

definition hitsOf :: "nodeLimiter \<Rightarrow> string \<Rightarrow> gotime list" where
  "hitsOf l node = (case hits l node of None \<Rightarrow> [] | Some hs \<Rightarrow> hs)"

definition Allow :: "nodeLimiter \<Rightarrow> gotime \<Rightarrow> string \<Rightarrow> nodeLimiter \<times> bool" where
  "Allow l0 t node =
     (let l = sweepLocked l0 t;
          kept = pruneBefore (hitsOf l node) (t - window l)
      in if int (length kept) \<ge> maxReqs l then (l\<lparr>hits := (hits l)(node \<mapsto> kept)\<rparr>, False)
         else (l\<lparr>hits := (hits l)(node \<mapsto> kept @ [t])\<rparr>, True))"

section \<open>Runs\<close>

text \<open>A sequence of requests, each a clock reading and a key, and what was decided for each.\<close>

fun runOn :: "('l \<Rightarrow> gotime \<Rightarrow> string \<Rightarrow> 'l \<times> bool) \<Rightarrow> 'l \<Rightarrow> (gotime \<times> string) list \<Rightarrow>
    (gotime \<times> string \<times> bool) list" where
  "runOn al l [] = []"
| "runOn al l ((t, k) # es) = (let (l', ok) = al l t k in (t, k, ok) # runOn al l' es)"

text \<open>The clock readings of a run never go back before \<open>t\<close> or before an earlier reading.\<close>

fun clockFrom :: "gotime \<Rightarrow> (gotime \<times> string) list \<Rightarrow> bool" where
  "clockFrom t [] = True"
| "clockFrom t ((u, k) # es) = (t \<le> u \<and> clockFrom u es)"

definition forKey :: "string \<Rightarrow> (gotime \<times> string \<times> bool) list \<Rightarrow> (gotime \<times> string \<times> bool) list" where
  "forKey k ds = filter (\<lambda>(t, k', ok). k' = k) ds"

section \<open>The contract\<close>

locale admission =
  fixes allow_op :: "'l \<Rightarrow> gotime \<Rightarrow> string \<Rightarrow> 'l \<times> bool"
    and view :: "'l \<Rightarrow> gotime \<Rightarrow> string \<Rightarrow> 'v"
    and invar :: "'l \<Rightarrow> gotime \<Rightarrow> bool"
  assumes decision_by_view:
      "invar l t \<Longrightarrow> invar l' t \<Longrightarrow> view l t k = view l' t k \<Longrightarrow> snd (allow_op l t k) = snd (allow_op l' t k)"
    and own_view:
      "invar l t \<Longrightarrow> invar l' t \<Longrightarrow> view l t k = view l' t k \<Longrightarrow> t \<le> u \<Longrightarrow>
         view (fst (allow_op l t k)) u k = view (fst (allow_op l' t k)) u k"
    and other_view:
      "invar l t \<Longrightarrow> t \<le> u \<Longrightarrow> k' \<noteq> k \<Longrightarrow> view (fst (allow_op l t k)) u k' = view l u k'"
    and invar_step: "invar l t \<Longrightarrow> invar (fst (allow_op l t k)) t"
    and invar_later: "invar l t \<Longrightarrow> t \<le> u \<Longrightarrow> invar l u"
begin

lemma isolated_from:
  assumes "clockFrom t es" and "invar l t" and "invar l' t"
    and "\<And>u. t \<le> u \<Longrightarrow> view l u k = view l' u k"
  shows "forKey k (runOn allow_op l es) = runOn allow_op l' (filter (\<lambda>(t, k'). k' = k) es)"
  using assms
proof (induction es arbitrary: t l l')
  case Nil
  then show ?case by (simp add: forKey_def)
next
  case (Cons e es)
  obtain u k' where e: "e = (u, k')" by fastforce
  have tu: "t \<le> u" and cl: "clockFrom u es" using Cons.prems(1) e by auto
  have iu: "invar l u" "invar l' u" using Cons.prems tu invar_later by blast+
  show ?case
  proof (cases "k' = k")
    case True
    have "forKey k (runOn allow_op (fst (allow_op l u k)) es) =
        runOn allow_op (fst (allow_op l' u k)) (filter (\<lambda>(t, k'). k' = k) es)"
      using Cons.IH[OF cl] invar_step[OF iu(1)] invar_step[OF iu(2)]
        own_view[OF iu] Cons.prems(4) tu by simp
    moreover have "snd (allow_op l u k) = snd (allow_op l' u k)"
      using decision_by_view[OF iu] Cons.prems(4) tu by blast
    ultimately show ?thesis
      by (cases "allow_op l u k"; cases "allow_op l' u k") (simp add: e True forKey_def)
  next
    case False
    have "view (fst (allow_op l u k')) v k = view l' v k" if "u \<le> v" for v
      using other_view[OF iu(1) that] Cons.prems(4)[of v] False tu that by simp
    then have "forKey k (runOn allow_op (fst (allow_op l u k')) es) =
        runOn allow_op l' (filter (\<lambda>(t, k'). k' = k) es)"
      by (rule Cons.IH[OF cl invar_step[OF iu(1)] iu(2)])
    with False show ?thesis by (cases "allow_op l u k'") (simp add: e forKey_def)
  qed
qed

lemma isolated:
  assumes "clockFrom t es" and "invar l t"
  shows "forKey k (runOn allow_op l es) = runOn allow_op l (filter (\<lambda>(t, k'). k' = k) es)"
  using isolated_from[OF assms assms(2)] by simp

end

section \<open>Both limiters meet it\<close>

definition bucketView :: "rateLimiter \<Rightarrow> gotime \<Rightarrow> string \<Rightarrow> rat \<times> rat \<times> tokenBucket option" where
  "bucketView rl t k = (rate rl, burst rl, buckets rl k)"

lemma refill_params: "rate rl = rate rl' \<Longrightarrow> burst rl = burst rl' \<Longrightarrow> refill rl = refill rl'"
  by (simp add: refill_def Let_def fun_eq_iff)

interpretation bucket: admission allow bucketView "\<lambda>_ _. True"
proof unfold_locales
  fix l l' :: rateLimiter and t u k
  assume v: "bucketView l t k = bucketView l' t k"
  then have r: "refill l = refill l'" by (intro refill_params) (auto simp: bucketView_def)
  show "snd (allow l t k) = snd (allow l' t k)"
    using v r by (simp add: allow_def bucketView_def Let_def split: option.splits)
  show "bucketView (fst (allow l t k)) u k = bucketView (fst (allow l' t k)) u k"
    using v r by (simp add: allow_def bucketView_def Let_def split: option.splits)
qed (auto simp: bucketView_def allow_def Let_def)

definition windowView :: "nodeLimiter \<Rightarrow> gotime \<Rightarrow> string \<Rightarrow> int \<times> duration \<times> gotime list" where
  "windowView l t k = (maxReqs l, window l, pruneBefore (hitsOf l k) (t - window l))"

definition windowInv :: "nodeLimiter \<Rightarrow> gotime \<Rightarrow> bool" where
  "windowInv l t = (\<forall>k. sorted (hitsOf l k) \<and> (\<forall>h \<in> set (hitsOf l k). h \<le> t))"

lemma pruneBefore_filter: "sorted hs \<Longrightarrow> pruneBefore hs c = filter (\<lambda>h. c \<le> h) hs"
proof (induction hs)
  case (Cons h hs)
  have "filter ((\<le>) c) hs = hs" if "c \<le> h"
    using Cons.prems that by (auto intro!: filter_True)
  with Cons show ?case by simp
qed simp

lemma set_pruneBefore: "set (pruneBefore hs c) \<subseteq> set hs"
  by (induction hs) auto

lemma sorted_pruneBefore: "sorted hs \<Longrightarrow> sorted (pruneBefore hs c)"
  by (simp add: pruneBefore_filter sorted_wrt_filter)

lemma sweep_params [simp]: "maxReqs (sweepLocked l t) = maxReqs l" "window (sweepLocked l t) = window l"
  by (simp_all add: sweepLocked_def)

lemma hitsOf_sweep: "hitsOf (sweepLocked l t) k = hitsOf l k \<or>
    (hitsOf (sweepLocked l t) k = [] \<and> (hitsOf l k = [] \<or> last (hitsOf l k) < t - window l))"
  by (auto simp: sweepLocked_def hitsOf_def split: option.splits)

lemma sorted_le_last: "sorted (hs :: gotime list) \<Longrightarrow> h \<in> set hs \<Longrightarrow> h \<le> last hs"
  by (induction hs) (auto dest: last_in_set)

lemma prune_sweep:
  assumes "windowInv l t" and "t \<le> u"
  shows "pruneBefore (hitsOf (sweepLocked l t) k) (u - window l) = pruneBefore (hitsOf l k) (u - window l)"
proof -
  have s: "sorted (hitsOf l k)" using assms by (simp add: windowInv_def)
  have "pruneBefore (hitsOf l k) (u - window l) = []" if "hitsOf l k = [] \<or> last (hitsOf l k) < t - window l"
  proof -
    have "h \<le> last (hitsOf l k)" if "h \<in> set (hitsOf l k)" for h
      using s that by (rule sorted_le_last)
    with that assms(2) s show ?thesis by (fastforce simp: pruneBefore_filter filter_empty_conv)
  qed
  with hitsOf_sweep[of l t k] show ?thesis by auto
qed

lemma windowInv_sweep: "windowInv l t \<Longrightarrow> windowInv (sweepLocked l t) t"
  unfolding windowInv_def using hitsOf_sweep[of l t] by (metis empty_iff list.set(1) sorted_simps(1))

lemma hitsOf_Allow:
  "hitsOf (fst (Allow l t k)) k' =
     (let kept = pruneBefore (hitsOf (sweepLocked l t) k) (t - window l)
      in if k' = k then (if int (length kept) \<ge> maxReqs l then kept else kept @ [t])
         else hitsOf (sweepLocked l t) k')"
  by (auto simp: Allow_def Let_def hitsOf_def)

lemma Allow_params [simp]: "maxReqs (fst (Allow l t k)) = maxReqs l" "window (fst (Allow l t k)) = window l"
  by (simp_all add: Allow_def Let_def)

lemma snd_Allow:
  "windowInv l t \<Longrightarrow> snd (Allow l t k) = (int (length (pruneBefore (hitsOf l k) (t - window l))) < maxReqs l)"
  using prune_sweep[of l t t k] by (auto simp: Allow_def Let_def)

lemma windowInv_Allow: "windowInv l t \<Longrightarrow> windowInv (fst (Allow l t k)) t"
proof -
  assume "windowInv l t"
  then have s: "windowInv (sweepLocked l t) t" by (rule windowInv_sweep)
  have "sorted (pruneBefore (hitsOf (sweepLocked l t) k) c @ [t])" for c
    using s set_pruneBefore[of "hitsOf (sweepLocked l t) k" c]
    by (auto simp: windowInv_def sorted_append sorted_pruneBefore)
  with s show ?thesis
    using set_pruneBefore
    by (fastforce simp: windowInv_def hitsOf_Allow Let_def sorted_pruneBefore)
qed

lemma windowInv_later: "windowInv l t \<Longrightarrow> t \<le> u \<Longrightarrow> windowInv l u"
  unfolding windowInv_def by (meson order_trans)

lemma prune_prune: "c \<le> c' \<Longrightarrow> pruneBefore (pruneBefore hs c) c' = pruneBefore hs c'"
  by (induction hs) auto

interpretation sliding: admission Allow windowView windowInv
proof unfold_locales
  fix l l' :: nodeLimiter and t u :: gotime and k k'
  assume i: "windowInv l t" and i': "windowInv l' t" and v: "windowView l t k = windowView l' t k"
  show "snd (Allow l t k) = snd (Allow l' t k)"
    using v unfolding snd_Allow[OF i] snd_Allow[OF i'] windowView_def by (auto simp del: pruneBefore.simps)
  show "windowView (fst (Allow l t k)) u k = windowView (fst (Allow l' t k)) u k" if "t \<le> u"
    using v unfolding windowView_def hitsOf_Allow prune_sweep[OF i order_refl] prune_sweep[OF i' order_refl]
    by (auto simp: Let_def)
next
  fix l :: nodeLimiter and t u :: gotime and k k' :: string
  assume "windowInv l t" "t \<le> u" "k' \<noteq> k"
  then show "windowView (fst (Allow l t k)) u k' = windowView l u k'"
    by (simp add: windowView_def hitsOf_Allow prune_sweep)
qed (auto intro: windowInv_Allow windowInv_later)

section \<open>Bounds on what is admitted\<close>

definition admitted :: "string \<Rightarrow> gotime \<Rightarrow> gotime \<Rightarrow> (gotime \<times> string \<times> bool) list \<Rightarrow> int" where
  "admitted k t0 t1 ds = int (length (filter (\<lambda>(t, k', ok). ok \<and> k' = k \<and> t0 \<le> t \<and> t \<le> t1) ds))"

lemma admitted_simps [simp]:
  "admitted k t0 t1 [] = 0"
  "admitted k t0 t1 ((t, k', ok) # ds) =
     (if ok \<and> k' = k \<and> t0 \<le> t \<and> t \<le> t1 then 1 else 0) + admitted k t0 t1 ds"
  by (simp_all add: admitted_def)

lemma admitted_after: "clockFrom t es \<Longrightarrow> t1 < t \<Longrightarrow> admitted k t0 t1 (runOn al l es) = 0"
proof (induction es arbitrary: t l)
  case (Cons e es)
  then show ?case by (cases e) (auto simp: split: prod.splits)
qed simp

lemma runOn_Cons: "runOn al l ((t, k) # es) = (t, k, snd (al l t k)) # runOn al (fst (al l t k)) es"
  by (simp add: case_prod_beta)

declare runOn.simps(2) [simp del]

subsection \<open>Token bucket\<close>

text \<open>The tokens a key could spend at time \<open>t\<close>.\<close>

definition avail :: "rateLimiter \<Rightarrow> string \<Rightarrow> gotime \<Rightarrow> rat" where
  "avail rl k t = (case buckets rl k of
      None \<Rightarrow> burst rl
    | Some b \<Rightarrow> min (burst rl) (tokens b + rate rl * of_int (t - lastRefill b) / 1000000000))"

definition bucketInv :: "rateLimiter \<Rightarrow> gotime \<Rightarrow> bool" where
  "bucketInv rl t \<longleftrightarrow> 0 \<le> rate rl \<and> 0 \<le> burst rl \<and>
     (\<forall>k b. buckets rl k = Some b \<longrightarrow> 0 \<le> tokens b \<and> tokens b \<le> burst rl \<and> lastRefill b \<le> t)"

lemma timeSub_bounds: "u \<le> t \<Longrightarrow> 0 \<le> timeSub t u \<and> timeSub t u \<le> t - u \<and> (timeSub t u = 0 \<longrightarrow> t = u)"
  by (auto simp: timeSub_def Let_def)

lemma refill_bounds:
  assumes "0 \<le> rate rl" "0 \<le> tokens b" "tokens b \<le> burst rl" "lastRefill b \<le> t"
  shows "lastRefill (refill rl t b) = t" "0 \<le> tokens (refill rl t b)"
    "tokens (refill rl t b) \<le> min (burst rl) (tokens b + rate rl * of_int (t - lastRefill b) / 1000000000)"
proof -
  let ?d = "timeSub t (lastRefill b)"
  have d: "0 \<le> ?d" "?d \<le> t - lastRefill b" "?d = 0 \<Longrightarrow> t = lastRefill b"
    using timeSub_bounds[OF assms(4)] by auto
  have "(of_int ?d :: rat) \<le> of_int (t - lastRefill b)" using d(2) by (simp only: of_int_le_iff)
  then have m: "rate rl * of_int ?d \<le> rate rl * of_int (t - lastRefill b)"
    using assms(1) by (rule mult_left_mono)
  have z: "0 \<le> rate rl * of_int ?d" using assms(1) d(1) by simp
  show "lastRefill (refill rl t b) = t" using d by (auto simp: refill_def Let_def)
  show "0 \<le> tokens (refill rl t b)"
    using assms z by (auto simp: refill_def Let_def field_simps)
  show "tokens (refill rl t b) \<le> min (burst rl) (tokens b + rate rl * of_int (t - lastRefill b) / 1000000000)"
    using assms m z by (auto simp: refill_def Let_def mult.commute divide_right_mono)
qed

lemma avail_nonneg: "bucketInv rl t \<Longrightarrow> 0 \<le> avail rl k t"
  by (auto simp: avail_def bucketInv_def split: option.splits)

lemma avail_burst: "avail rl k t \<le> burst rl"
  by (simp add: avail_def split: option.splits)

lemma avail_grows:
  assumes "0 \<le> rate rl" "t \<le> u"
  shows "avail rl k u \<le> avail rl k t + rate rl * of_int (u - t) / 1000000000"
proof -
  have nn: "0 \<le> rate rl * (of_int (u - t) :: rat) / 1000000000" using assms by simp
  have eq: "rate rl * of_int (u - s) / 1000000000
      = rate rl * of_int (t - s) / 1000000000 + rate rl * of_int (u - t) / 1000000000" for s
    by (simp add: field_simps)
  have "min b (x + (y + d)) \<le> min b (x + y) + d" if "0 \<le> d" for b x y d :: rat
    using that by (simp add: min_def)
  note grow = this[OF nn]
  show ?thesis
  proof (cases "buckets rl k")
    case None
    then show ?thesis using nn by (simp add: avail_def)
  next
    case (Some b)
    then show ?thesis
      using grow[of "burst rl" "tokens b" "rate rl * of_int (t - lastRefill b) / 1000000000"]
      unfolding avail_def by (simp only: Some option.case eq[of "lastRefill b"])
  qed
qed

lemma bucketInv_later: "bucketInv rl t \<Longrightarrow> t \<le> u \<Longrightarrow> bucketInv rl u"
  unfolding bucketInv_def by (meson order_trans)

lemma allow_params [simp]: "rate (fst (allow rl t k)) = rate rl" "burst (fst (allow rl t k)) = burst rl"
  by (simp_all add: allow_def Let_def)

lemma allow_other: "k' \<noteq> k \<Longrightarrow> buckets (fst (allow rl t k)) k' = buckets rl k'"
  by (simp add: allow_def Let_def)

lemma avail_other: "k \<noteq> k' \<Longrightarrow> avail (fst (allow rl t k')) k u = avail rl k u"
  by (simp add: avail_def allow_other split: option.split)

lemma allow_own:
  assumes "bucketInv rl t"
  obtains b where "buckets (fst (allow rl t k)) k = Some b" "lastRefill b = t" "0 \<le> tokens b"
    "tokens b + (if snd (allow rl t k) then 1 else 0) \<le> avail rl k t"
proof -
  define b0 where "b0 = (case buckets rl k of None \<Rightarrow> \<lparr> tokens = burst rl, lastRefill = t \<rparr> | Some b \<Rightarrow> b)"
  have b0: "0 \<le> tokens b0" "tokens b0 \<le> burst rl" "lastRefill b0 \<le> t" "0 \<le> rate rl"
    using assms by (auto simp: b0_def bucketInv_def split: option.splits)
  have av: "avail rl k t = min (burst rl) (tokens b0 + rate rl * of_int (t - lastRefill b0) / 1000000000)"
    by (simp add: avail_def b0_def split: option.splits)
  note rb = refill_bounds[OF b0(4) b0(1-3)]
  have al: "allow rl t k = (if tokens (refill rl t b0) \<ge> 1
      then (rl\<lparr>buckets := (buckets rl)(k \<mapsto> (refill rl t b0)\<lparr>tokens := tokens (refill rl t b0) - 1\<rparr>)\<rparr>, True)
      else (rl\<lparr>buckets := (buckets rl)(k \<mapsto> refill rl t b0)\<rparr>, False))"
    by (simp add: allow_def b0_def Let_def)
  show ?thesis
  proof (cases "tokens (refill rl t b0) \<ge> 1")
    case True
    then show ?thesis using rb by (intro that[of "(refill rl t b0)\<lparr>tokens := tokens (refill rl t b0) - 1\<rparr>"])
      (simp_all add: al av)
  next
    case False
    then show ?thesis using rb by (intro that[of "refill rl t b0"]) (simp_all add: al av)
  qed
qed

lemma bucketInv_allow:
  assumes "bucketInv rl t"
  shows "bucketInv (fst (allow rl t k)) t"
proof -
  obtain b where b: "buckets (fst (allow rl t k)) k = Some b" "lastRefill b = t" "0 \<le> tokens b"
      "tokens b + (if snd (allow rl t k) then 1 else 0) \<le> avail rl k t"
    using allow_own[OF assms] .
  have "tokens b \<le> burst rl" using b(4) avail_burst[of rl k t] by (auto split: if_splits)
  with b assms show ?thesis
    unfolding bucketInv_def allow_params by (metis allow_other option.inject order_refl)
qed

lemma avail_allow:
  assumes "bucketInv rl t"
  shows "avail (fst (allow rl t k)) k t + (if snd (allow rl t k) then 1 else 0) \<le> avail rl k t"
proof -
  obtain b where "buckets (fst (allow rl t k)) k = Some b" "lastRefill b = t" "0 \<le> tokens b"
      "tokens b + (if snd (allow rl t k) then 1 else 0) \<le> avail rl k t"
    using allow_own[OF assms] .
  then show ?thesis by (auto simp: avail_def)
qed

lemma admitted_avail:
  assumes "clockFrom t es" "bucketInv rl t" "t \<le> t1"
  shows "of_int (admitted k t0 t1 (runOn allow rl es)) \<le> avail rl k t + rate rl * of_int (t1 - t) / 1000000000"
  using assms
proof (induction es arbitrary: t rl)
  case Nil
  then show ?case using avail_nonneg[of rl t k] by (simp add: bucketInv_def)
next
  case (Cons e es)
  obtain u k' where e: "e = (u, k')" by fastforce
  have tu: "t \<le> u" and cl: "clockFrom u es" using Cons.prems(1) e by auto
  have inv: "bucketInv rl u" using Cons.prems(2) tu by (rule bucketInv_later)
  have r: "0 \<le> rate rl" using inv by (simp add: bucketInv_def)
  have g: "avail rl k u \<le> avail rl k t + rate rl * of_int (u - t) / 1000000000" by (rule avail_grows[OF r tu])
  have pos: "0 \<le> avail rl k t + rate rl * of_int (t1 - t) / 1000000000"
    using avail_nonneg[OF Cons.prems(2), of k] r Cons.prems(3) by simp
  show ?case
  proof (cases "u \<le> t1")
    case False
    then show ?thesis using admitted_after[OF cl, of t1 k t0 allow] pos by (simp add: e runOn_Cons)
  next
    case True
    let ?l = "fst (allow rl u k')"
    have ih: "of_int (admitted k t0 t1 (runOn allow ?l es)) \<le> avail ?l k u + rate rl * of_int (t1 - u) / 1000000000"
      using Cons.IH[OF cl bucketInv_allow[OF inv] True] by simp
    have st: "avail ?l k u + (if snd (allow rl u k') \<and> k' = k then 1 else 0) \<le> avail rl k u"
      using avail_allow[OF inv, of k] avail_other[of k k' rl u u] by (cases "k' = k") (auto split: if_splits)
    have "rate rl * of_int (u - t) / 1000000000 + rate rl * of_int (t1 - u) / 1000000000
        = rate rl * of_int (t1 - t) / 1000000000" by (simp add: field_simps)
    moreover have "(of_int (admitted k t0 t1 (runOn allow rl (e # es))) :: rat)
        \<le> (if snd (allow rl u k') \<and> k' = k then 1 else 0) + of_int (admitted k t0 t1 (runOn allow ?l es))"
      by (cases "k' = k") (simp_all add: e runOn_Cons)
    ultimately show ?thesis using ih st g by linarith
  qed
qed

lemma admitted_window:
  assumes "clockFrom t es" "bucketInv rl t" "t0 \<le> t1"
  shows "of_int (admitted k t0 t1 (runOn allow rl es)) \<le> burst rl + rate rl * of_int (t1 - t0) / 1000000000"
  using assms
proof (induction es arbitrary: t rl)
  case Nil
  then show ?case by (simp add: bucketInv_def)
next
  case (Cons e es)
  obtain u k' where e: "e = (u, k')" by fastforce
  have tu: "t \<le> u" and cl: "clockFrom u es" using Cons.prems(1) e by auto
  have inv: "bucketInv rl u" using Cons.prems(2) tu by (rule bucketInv_later)
  show ?case
  proof (cases "t0 \<le> u")
    case True
    have r: "0 \<le> rate rl" "0 \<le> burst rl" using inv by (simp_all add: bucketInv_def)
    show ?thesis
    proof (cases "u \<le> t1")
      case False
      then show ?thesis using admitted_after[OF cl, of t1 k t0 allow "fst (allow rl u k')"] r Cons.prems(3) by (simp add: e runOn_Cons)
    next
      case True
      have "rate rl * of_int (t1 - u) / 1000000000 \<le> rate rl * of_int (t1 - t0) / 1000000000"
        using \<open>t0 \<le> u\<close> r by (intro divide_right_mono mult_left_mono) simp_all
      moreover have "clockFrom u (e # es)" using cl e by simp
      ultimately show ?thesis
        using admitted_avail[OF _ inv True, of "e # es" k t0] avail_burst[of rl k u] by linarith
    qed
  next
    case False
    then show ?thesis using Cons.IH[OF cl bucketInv_allow[OF inv] Cons.prems(3), of k'] by (simp add: e runOn_Cons)
  qed
qed

lemma bucketInv_new: "0 \<le> r \<Longrightarrow> 0 \<le> b \<Longrightarrow> bucketInv (newRateLimiter r b) t"
  by (simp add: bucketInv_def newRateLimiter_def)



text \<open>Keys do not interfere: in any run of the token bucket or of the sliding window (the latter
  under a clock that does not go back), what is decided for one key is what would be decided if no
  other key had made a request.\<close>

theorem limiter_isolation:
  assumes "clockFrom t es"
  shows "forKey k (runOn allow (newRateLimiter r b) es)
      = runOn allow (newRateLimiter r b) (filter (\<lambda>(t, k'). k' = k) es)
    \<and> forKey k (runOn Allow (PerNodeLimiter mx w) es)
      = runOn Allow (PerNodeLimiter mx w) (filter (\<lambda>(t, k'). k' = k) es)"
proof -
  have "windowInv (PerNodeLimiter mx w) t"
    by (simp add: windowInv_def hitsOf_def PerNodeLimiter_def)
  then show ?thesis using bucket.isolated[OF assms] sliding.isolated[OF assms] by blast
qed

theorem limiter_isolation_witness:
  "forKey ''a'' (runOn Allow (PerNodeLimiter 1 10) [(0, ''a''), (1, ''b''), (2, ''a''), (20, ''a'')])
     = runOn Allow (PerNodeLimiter 1 10) [(0, ''a''), (2, ''a''), (20, ''a'')]"
  using limiter_isolation[of 0 "[(0, ''a''), (1, ''b''), (2, ''a''), (20, ''a'')]" "''a''" 1 1 1 10] by simp

subsection \<open>Sliding window\<close>

text \<open>The specification: remember every admitted request for ever and admit while fewer than
  \<open>mx\<close> of the node's requests are in the window that ends now.\<close>

definition specAllow :: "int \<Rightarrow> duration \<Rightarrow> (gotime \<times> string) list \<Rightarrow> gotime \<Rightarrow> string \<Rightarrow>
    (gotime \<times> string) list \<times> bool" where
  "specAllow mx w h t k =
     (if int (length (filter (\<lambda>(u, k'). k' = k \<and> t - w \<le> u) h)) < mx then (h @ [(t, k)], True) else (h, False))"

definition represents :: "nodeLimiter \<Rightarrow> (gotime \<times> string) list \<Rightarrow> gotime \<Rightarrow> bool" where
  "represents l h t \<longleftrightarrow> windowInv l t \<and>
     (\<forall>k u. t \<le> u \<longrightarrow> pruneBefore (hitsOf l k) (u - window l)
        = map fst (filter (\<lambda>(v, k'). k' = k \<and> u - window l \<le> v) h))"

lemma represents_later: "represents l h t \<Longrightarrow> t \<le> u \<Longrightarrow> represents l h u"
  by (auto simp: represents_def intro: windowInv_later)

lemma pruneBefore_snoc: "sorted (hs @ [t]) \<Longrightarrow>
    pruneBefore (hs @ [t]) c = pruneBefore hs c @ (if c \<le> t then [t] else [])"
  by (simp add: pruneBefore_filter sorted_append)

lemma hitsOf_Allow_own:
  assumes "windowInv l t"
  shows "hitsOf (fst (Allow l t k)) k =
    pruneBefore (hitsOf l k) (t - window l) @ (if snd (Allow l t k) then [t] else [])"
  by (simp add: hitsOf_Allow snd_Allow[OF assms] prune_sweep[OF assms order_refl] Let_def)

lemma represents_Allow:
  assumes "represents l h t"
  shows "snd (Allow l t k) = snd (specAllow (maxReqs l) (window l) h t k)"
    and "represents (fst (Allow l t k)) (fst (specAllow (maxReqs l) (window l) h t k)) t"
proof -
  have inv: "windowInv l t" using assms by (simp add: represents_def)
  have rep: "pruneBefore (hitsOf l k') (u - window l)
      = map fst (filter (\<lambda>(v, k''). k'' = k' \<and> u - window l \<le> v) h)" if "t \<le> u" for k' u
    using assms that by (simp add: represents_def)
  show ok: "snd (Allow l t k) = snd (specAllow (maxReqs l) (window l) h t k)"
    by (simp add: snd_Allow[OF inv] rep specAllow_def)
  have "pruneBefore (hitsOf (fst (Allow l t k)) k') (u - window l)
      = map fst (filter (\<lambda>(v, k''). k'' = k' \<and> u - window l \<le> v) (fst (specAllow (maxReqs l) (window l) h t k)))"
    if "t \<le> u" for k' u
  proof (cases "k' = k")
    case True
    have pp: "pruneBefore (pruneBefore (hitsOf l k) (t - window l)) (u - window l) = pruneBefore (hitsOf l k) (u - window l)"
      using that by (intro prune_prune) simp
    have "sorted (hitsOf (fst (Allow l t k)) k)" using windowInv_Allow[OF inv] by (simp add: windowInv_def)
    then show ?thesis
      using rep[OF that, of k] ok
      by (auto simp: True hitsOf_Allow_own[OF inv] pruneBefore_snoc pp specAllow_def split: if_splits)
  next
    case False
    then show ?thesis
      using rep[OF that, of k'] prune_sweep[OF inv that, of k'] by (auto simp: hitsOf_Allow specAllow_def)
  qed
  then show "represents (fst (Allow l t k)) (fst (specAllow (maxReqs l) (window l) h t k)) t"
    using windowInv_Allow[OF inv] by (simp add: represents_def)
qed

lemma runOn_represents:
  assumes "clockFrom t es" and "represents l h t"
  shows "runOn Allow l es = runOn (specAllow (maxReqs l) (window l)) h es"
  using assms
proof (induction es arbitrary: t l h)
  case (Cons e es)
  obtain u k where e: "e = (u, k)" by fastforce
  have r: "represents l h u" and cl: "clockFrom u es" using Cons.prems e represents_later by auto
  show ?case
    using represents_Allow[OF r, of k] Cons.IH[OF cl represents_Allow(2)[OF r, of k]] by (simp add: e runOn_Cons)
qed simp

lemma runOn_new:
  assumes "clockFrom t es"
  shows "runOn Allow (PerNodeLimiter mx w) es = runOn (specAllow mx w) [] es"
proof -
  have "represents (PerNodeLimiter mx w) [] t"
    by (simp add: represents_def windowInv_def hitsOf_def PerNodeLimiter_def)
  from runOn_represents[OF assms this] show ?thesis by (simp add: PerNodeLimiter_def)
qed

text \<open>C22. The sliding window refines its specification: with pruning, opportunistic sweeping and
  forgotten buckets, every decision of a new limiter is the one taken by remembering all admitted
  requests and counting those of the node in the window that ends now.\<close>

theorem nodeLimiter_refines:
  assumes "clockFrom t es"
  shows "runOn Allow (PerNodeLimiter mx w) es = runOn (specAllow mx w) [] es"
  using assms by (rule runOn_new)

theorem nodeLimiter_refines_witness:
  "runOn Allow (PerNodeLimiter 1 10) [(0, ''a''), (10, ''a''), (11, ''a'')]
     = [(0, ''a'', True), (10, ''a'', False), (11, ''a'', True)]"
  using nodeLimiter_refines[of 0 "[(0, ''a''), (10, ''a''), (11, ''a'')]" 1 10]
  by (simp add: runOn_Cons specAllow_def)

lemma specAllow_bound:
  assumes "int (length (filter (\<lambda>(u, k'). k' = k \<and> t0 \<le> u \<and> u \<le> t1) h)) \<le> max 0 mx" and "t1 - t0 \<le> w"
  shows "int (length (filter (\<lambda>(u, k'). k' = k \<and> t0 \<le> u \<and> u \<le> t1) h))
    + admitted k t0 t1 (runOn (specAllow mx w) h es) \<le> max 0 mx"
  using assms
proof (induction es arbitrary: h)
  case (Cons e es)
  obtain u k' where e: "e = (u, k')" by fastforce
  let ?n = "\<lambda>h. int (length (filter (\<lambda>(u, k'). k' = k \<and> t0 \<le> u \<and> u \<le> t1) h))"
  let ?in = "k' = k \<and> t0 \<le> u \<and> u \<le> t1"
  let ?ok = "snd (specAllow mx w h u k')" and ?h = "fst (specAllow mx w h u k')"
  have step: "?n ?h = ?n h + (if ?ok \<and> ?in then 1 else 0)" by (auto simp: specAllow_def)
  have "?n h < mx" if "?ok" "?in"
  proof -
    have "filter (\<lambda>(v, k'). k' = k \<and> t0 \<le> v \<and> v \<le> t1) h
        = filter (\<lambda>(v, k'). t0 \<le> v \<and> v \<le> t1) (filter (\<lambda>(v, k'). k' = k \<and> u - w \<le> v) h)"
      using that Cons.prems(2) by (auto intro!: filter_cong)
    then have "?n h \<le> int (length (filter (\<lambda>(v, k'). k' = k \<and> u - w \<le> v) h))"
      by (simp only: of_nat_le_iff length_filter_le)
    then show ?thesis using that by (auto simp: specAllow_def split: if_splits)
  qed
  then have "?n ?h \<le> max 0 mx" using step Cons.prems(1) by auto
  from Cons.IH[OF this Cons.prems(2)] step show ?case by (simp add: e runOn_Cons)
qed simp

lemma admitted_sliding:
  "clockFrom t es \<Longrightarrow> t1 - t0 \<le> w \<Longrightarrow> admitted k t0 t1 (runOn Allow (PerNodeLimiter mx w) es) \<le> max 0 mx"
  using specAllow_bound[of k t0 t1 "[]" mx w es] by (simp add: runOn_new)

text \<open>No interval as long as the window or shorter, wherever it starts, holds more admitted
  requests of one node than the limiter allows.\<close>

theorem nodeLimiter_bound:
  assumes "clockFrom t es" and "t1 - t0 \<le> w"
  shows "admitted k t0 t1 (runOn Allow (PerNodeLimiter mx w) es) \<le> max 0 mx"
  using assms by (rule admitted_sliding)

theorem nodeLimiter_bound_witness:
  "admitted ''a'' 0 10 (runOn Allow (PerNodeLimiter 1 10) [(0, ''a''), (10, ''a''), (11, ''a'')]) \<le> 1"
  using nodeLimiter_bound[of 0 "[(0, ''a''), (10, ''a''), (11, ''a'')]" 10 0 10 "''a''" 1] by simp

end
