(* ===== verification/Appkit.thy ===== *)
theory Appkit
  imports Ipc Limiters Json
begin

text \<open>
  \<^verbatim>\<open>pkg/appkit/appkit.go\<close>: the middleware an app puts around its IPC handlers. A handler that
  holds a limiter runs in the record \<open>guarded\<close>: the limiter, the clock it reads and the state of
  the wrapped handler. The app's \<^verbatim>\<open>VerifyFunc\<close> is an argument.
\<close>

section \<open>The middleware\<close>

record verifyResult =
  Valid :: bool
  VNode :: string
  VNodeID :: "32 word"
  VAuthenticated :: bool
  VTrusted :: bool
  VOnline :: bool

definition ErrOriginRequired :: string where
  "ErrOriginRequired = ''appkit: authenticated origin required''"
definition ErrRateLimited :: string where
  "ErrRateLimited = ''appkit: rate limit exceeded''"
definition ErrEnvelopeRequired :: string where
  "ErrEnvelopeRequired = ''appkit: pilot_envelope and pilot_signature required''"
definition ErrEnvelopeInvalid :: string where
  "ErrEnvelopeInvalid = ''appkit: envelope verification failed''"

definition RequireOrigin :: "'st handler \<Rightarrow> 'st handler" where
  "RequireOrigin nxt st req =
     (case Origin req of
        None \<Rightarrow> (st, Inl ErrOriginRequired)
      | Some o' \<Rightarrow> if \<not> Authenticated o' then (st, Inl ErrOriginRequired) else nxt st req)"

record 'st guarded =
  limiter :: nodeLimiter
  clock :: gotime
  inner :: 'st

definition LimitPerNode :: "'st handler \<Rightarrow> 'st guarded handler" where
  "LimitPerNode nxt st req =
     (case Origin req of
        None \<Rightarrow> (st, Inl ErrOriginRequired)
      | Some o' \<Rightarrow>
          if Node o' = [] then (st, Inl ErrOriginRequired)
          else (case Allow (limiter st) (clock st) (Node o') of
              (l, False) \<Rightarrow> (st\<lparr>limiter := l\<rparr>, Inl (ErrRateLimited @ '': '' @ Node o'))
            | (l, True) \<Rightarrow>
                (case nxt (inner st) req of
                   (st', r) \<Rightarrow> (st\<lparr>limiter := l, inner := st'\<rparr>, r))))"

text \<open>The struct a signed payload is decoded to.\<close>

record wrap =
  WEnvelope :: string
  WSignature :: string

definition zeroWrap :: wrap where
  "zeroWrap = \<lparr> WEnvelope = [], WSignature = [] \<rparr>"

definition wrapFields :: "wrap fields" where
  "wrapFields =
     [(''pilot_envelope'', fieldDec decString WEnvelope (\<lambda>v. WEnvelope_update (\<lambda>_. v))),
      (''pilot_signature'', fieldDec decString WSignature (\<lambda>v. WSignature_update (\<lambda>_. v)))]"

text \<open>\<open>errText\<close> is the text of the decoder's error.\<close>

definition RequireEnvelope :: "(bytes \<Rightarrow> string) \<Rightarrow>
    ('st \<Rightarrow> string \<Rightarrow> string \<Rightarrow> 'st \<times> (string + verifyResult)) \<Rightarrow> 'st handler \<Rightarrow> 'st handler" where
  "RequireEnvelope errText verify nxt st req =
     (if length (Payload req) = 0 then (st, Inl ErrEnvelopeRequired)
      else (case unmarshal (decStruct wrapFields) zeroWrap (Payload req) of
          None \<Rightarrow> (st, Inl (ErrEnvelopeRequired @ '': '' @ errText (Payload req)))
        | Some w \<Rightarrow>
            if WEnvelope w = [] \<or> WSignature w = [] then (st, Inl ErrEnvelopeRequired)
            else (case verify st (WEnvelope w) (WSignature w) of
                (st', Inl err) \<Rightarrow> (st', Inl (''appkit: verify envelope: '' @ err))
              | (st', Inr res) \<Rightarrow>
                  if \<not> Valid res then (st', Inl ErrEnvelopeInvalid)
                  else nxt st' (req\<lparr>Origin := Some \<lparr> Node = VNode res, NodeID = VNodeID res,
                         Authenticated = VAuthenticated res, Trusted = VTrusted res \<rparr>\<rparr>))))"

section \<open>What reaches the wrapped handler\<close>

text \<open>\<open>logged nxt\<close> is \<open>nxt\<close> with every request it is called with remembered in its state.\<close>

definition logged :: "'st handler \<Rightarrow> ('st \<times> envelope list) handler" where
  "logged nxt st req = (case nxt (fst st) req of (st', r) \<Rightarrow> ((st', snd st @ [req]), r))"

text \<open>The calls of the wrapped handler during a run over timed requests.\<close>

fun invocations :: "('st \<times> envelope list) guarded handler \<Rightarrow> ('st \<times> envelope list) guarded \<Rightarrow>
    (gotime \<times> envelope) list \<Rightarrow> (gotime \<times> envelope) list" where
  "invocations h st [] = []"
| "invocations h st ((t, req) # evs) =
     (let st' = fst (h (st\<lparr>clock := t\<rparr>) req)
      in map (Pair t) (drop (length (snd (inner st))) (snd (inner st'))) @ invocations h st' evs)"

definition fromAuthenticated :: "envelope \<Rightarrow> bool" where
  "fromAuthenticated req = (case Origin req of None \<Rightarrow> False | Some o' \<Rightarrow> Authenticated o' \<and> Node o' \<noteq> [])"

definition nodeOf :: "envelope \<Rightarrow> string" where
  "nodeOf req = (case Origin req of None \<Rightarrow> [] | Some o' \<Rightarrow> Node o')"

fun clockRuns :: "gotime \<Rightarrow> (gotime \<times> 'e) list \<Rightarrow> bool" where
  "clockRuns t [] = True"
| "clockRuns t ((u, e) # evs) = (t \<le> u \<and> clockRuns u evs)"

definition keyed :: "(gotime \<times> envelope) list \<Rightarrow> (gotime \<times> string) list" where
  "keyed evs = map (\<lambda>(t, req). (t, nodeOf req)) (filter (\<lambda>(t, req). fromAuthenticated req) evs)"

lemma clockFrom_keyed: "clockRuns t evs \<Longrightarrow> t' \<le> t \<Longrightarrow> clockFrom t' (keyed evs)"
proof (induction evs arbitrary: t t')
  case (Cons e evs)
  then show ?case by (cases e) (force simp: keyed_def)
qed (simp add: keyed_def)

lemma guarded_step:
  "fromAuthenticated req \<Longrightarrow>
     limiter (fst (RequireOrigin (LimitPerNode (logged nxt)) st req)) = fst (Allow (limiter st) (clock st) (nodeOf req))
   \<and> snd (inner (fst (RequireOrigin (LimitPerNode (logged nxt)) st req))) =
       snd (inner st) @ (if snd (Allow (limiter st) (clock st) (nodeOf req)) then [req] else [])"
  "\<not> fromAuthenticated req \<Longrightarrow> fst (RequireOrigin (LimitPerNode (logged nxt)) st req) = st"
  by (auto simp: RequireOrigin_def LimitPerNode_def logged_def fromAuthenticated_def nodeOf_def
      split: option.splits prod.splits bool.splits)

lemma invocations_admitted:
  "int (length (filter (\<lambda>(t, req). nodeOf req = k \<and> t0 \<le> t \<and> t \<le> t1)
      (invocations (RequireOrigin (LimitPerNode (logged nxt))) st evs)))
    = admitted k t0 t1 (runOn Allow (limiter st) (keyed evs))
   \<and> list_all (\<lambda>(t, req). fromAuthenticated req \<and> (t, req) \<in> set evs)
      (invocations (RequireOrigin (LimitPerNode (logged nxt))) st evs)"
proof (induction evs arbitrary: st)
  case (Cons e evs)
  obtain t req where e: "e = (t, req)" by fastforce
  let ?st = "st\<lparr>clock := t\<rparr>"
  show ?case
  proof (cases "fromAuthenticated req")
    case True
    note gs = guarded_step(1)[OF True, of nxt ?st]
    show ?thesis
      using Cons.IH[of "fst (RequireOrigin (LimitPerNode (logged nxt)) ?st req)"] gs True
      by (auto simp: e keyed_def Let_def runOn_Cons list_all_iff)
  next
    case False
    then show ?thesis using guarded_step(2)[OF False, of nxt ?st] Cons.IH[of ?st]
      by (auto simp: e keyed_def Let_def list_all_iff)
  qed
qed (simp add: keyed_def)

text \<open>C23. Behind \<^verbatim>\<open>RequireOrigin(LimitPerNode(l, h))\<close> over a new limiter, whatever
  requests arrive at whatever non-decreasing times: the handler is only called with requests that
  arrived, each from a named and authenticated origin, and no node gets more than the budget of calls
  through in any interval as long as the window.\<close>

theorem middleware_guards:
  assumes "clockRuns t evs" and "t1 - t0 \<le> w" and "limiter st = PerNodeLimiter mx w"
  shows "list_all (\<lambda>(t, req). fromAuthenticated req \<and> (t, req) \<in> set evs)
      (invocations (RequireOrigin (LimitPerNode (logged nxt))) st evs)
    \<and> int (length (filter (\<lambda>(t, req). nodeOf req = k \<and> t0 \<le> t \<and> t \<le> t1)
        (invocations (RequireOrigin (LimitPerNode (logged nxt))) st evs))) \<le> max 0 mx"
  using invocations_admitted[of k t0 t1 nxt st evs] admitted_sliding[OF clockFrom_keyed[OF assms(1) order_refl] assms(2), of k mx]
  by (simp add: assms(3))

definition exampleOrigin :: origin where
  "exampleOrigin = \<lparr> Node = ''1:0001'', NodeID = 1, Authenticated = True, Trusted = False \<rparr>"

definition exampleGuarded :: "(nat \<times> envelope list) guarded" where
  "exampleGuarded = \<lparr> limiter = PerNodeLimiter 1 10, clock = 0, inner = (0, []) \<rparr>"

theorem middleware_guards_witness:
  "list_all (\<lambda>(t, req). fromAuthenticated req \<and>
        (t, req) \<in> set [(0, emptyEnvelope\<lparr>Origin := Some exampleOrigin\<rparr>), (3, emptyEnvelope)])
      (invocations (RequireOrigin (LimitPerNode (logged (\<lambda>n req. (Suc n, Inr []))))) exampleGuarded
        [(0, emptyEnvelope\<lparr>Origin := Some exampleOrigin\<rparr>), (3, emptyEnvelope)])"
  using middleware_guards[of 0 "[(0, emptyEnvelope\<lparr>Origin := Some exampleOrigin\<rparr>), (3, emptyEnvelope)]"
      10 0 10 exampleGuarded 1 "\<lambda>n req. (Suc n, Inr [])"]
  by (simp add: exampleGuarded_def)

section \<open>Signed payloads\<close>

text \<open>The payload as a sender prints it.\<close>

definition wrapJSON :: "wrap \<Rightarrow> bytes" where
  "wrapJSON w = jsonObj [(''pilot_envelope'', jsonQuote (WEnvelope w)), (''pilot_signature'', jsonQuote (WSignature w))]"

definition typedWrap :: "wrap \<Rightarrow> bool" where
  "typedWrap w = (validUTF8 (WEnvelope w) \<and> validUTF8 (WSignature w))"

interpretation jw: json_codec wrapJSON "decStruct wrapFields" zeroWrap typedWrap 1
proof unfold_locales
  fix w :: wrap
  have v: "\<forall>m \<in> set [(''pilot_envelope'', jsonQuote (WEnvelope w)), (''pilot_signature'', jsonQuote (WSignature w))].
      isValue d (snd m)" for d by simp
  show "isValue 1 (wrapJSON w)" using isValue_jsonObj[OF v[of 0]] by (simp add: wrapJSON_def)
  show "tight (wrapJSON w)" unfolding wrapJSON_def by (rule tight_jsonObj) (auto simp: tight_jsonQuote)
  assume "typedWrap w"
  then show "decStruct wrapFields (wrapJSON w) zeroWrap = Some w"
    unfolding wrapJSON_def decStruct_jsonObj[OF v]
    by (simp add: wrapFields_def zeroWrap_def typedWrap_def lookupField_def fieldDec_def validUTF8_ascii)
qed (simp add: maxNestingDepth_def)

text \<open>Whatever the payload is, what is decoded from it is valid UTF-8.\<close>

lemma wrap_typed:
  assumes "unmarshal (decStruct wrapFields) zeroWrap payload = Some w"
  shows "typedWrap w"
proof -
  obtain raw where raw: "isValue maxNestingDepth raw" "decStruct wrapFields raw zeroWrap = Some w"
    using assms by (rule unmarshalE)
  have k: "maxNestingDepth = Suc (maxNestingDepth - 1)" by (simp add: maxNestingDepth_def)
  show ?thesis
  proof (rule decStruct_inv[where P = typedWrap and d = "maxNestingDepth - 1", OF _ _ _ _ raw(2)])
    fix dec v r r'
    assume "dec \<in> snd ` set wrapFields" and "typedWrap r" and "dec v r = Some r'"
    then show "typedWrap r'"
      using decString_valid[of v] by (auto simp: wrapFields_def fieldDec_def typedWrap_def)
  qed (use raw(1) k in \<open>simp_all add: typedWrap_def zeroWrap_def\<close>)
qed

text \<open>The requests the wrapped handler is called with.\<close>

definition attestedCalls :: "('st \<Rightarrow> string \<Rightarrow> string \<Rightarrow> 'st \<times> (string + verifyResult)) \<Rightarrow>
    'st handler \<Rightarrow> 'st \<Rightarrow> envelope \<Rightarrow> envelope list" where
  "attestedCalls verify nxt st req =
     snd (fst (RequireEnvelope (\<lambda>_. [])
       (\<lambda>st env sig. case verify (fst st) env sig of (s, r) \<Rightarrow> ((s, snd st), r)) (logged nxt) (st, []) req))"

lemma attestedCalls_iff:
  "attestedCalls verify nxt st req =
     (case unmarshal (decStruct wrapFields) zeroWrap (Payload req) of
        None \<Rightarrow> []
      | Some w \<Rightarrow>
          if Payload req = [] \<or> WEnvelope w = [] \<or> WSignature w = [] then []
          else (case snd (verify st (WEnvelope w) (WSignature w)) of
             Inl e \<Rightarrow> []
           | Inr res \<Rightarrow>
               if Valid res then [req\<lparr>Origin := Some \<lparr> Node = VNode res, NodeID = VNodeID res,
                 Authenticated = VAuthenticated res, Trusted = VTrusted res \<rparr>\<rparr>] else []))"
  by (auto simp: attestedCalls_def RequireEnvelope_def logged_def split: sum.splits prod.splits option.splits)



end
