(* ===== verification/Broker.thy ===== *)
theory Broker
  imports Supervision Appkit
begin

text \<open>
  The broker of \<^verbatim>\<open>plugin/appstore/supervisor.go\<close> (\<^verbatim>\<open>Apps\<close>, \<^verbatim>\<open>Get\<close>, \<^verbatim>\<open>Call\<close>,
  \<^verbatim>\<open>CallFrom\<close>, \<^verbatim>\<open>CallWithOrigin\<close>) and the usage events of \<^verbatim>\<open>telemetry.go\<close>. The transport is a
  record: what dialing a socket gives, the clock, whether the context is done and the ready bit is set
  at a time, how long the call takes, and the texts of foreign errors.
\<close>

section \<open>Operations\<close>

record telemetryEvent =
  TAppID :: string
  TMethod :: string
  TCallerID :: string
  TOK :: bool
  TDurMs :: int
  TErrMsg :: string

text \<open>An emitter is known by whether it panics on an event.\<close>

type_synonym emitter = "telemetryEvent \<Rightarrow> bool"

definition noopEmitter :: emitter where "noopEmitter = (\<lambda>_. False)"

record transport =
  bcodec :: codec
  dial :: "string \<Rightarrow> string + conn \<times> (bytes \<Rightarrow> bytes)"
  newReqID :: "string option"
  telemetry :: "emitter option"
  calledAt :: gotime
  ctxErrAt :: "gotime \<Rightarrow> bool"
  readyBitAt :: "gotime \<Rightarrow> bool"
  callMillis :: int
  quote :: "string \<Rightarrow> string"
  ipcText :: "callErr \<Rightarrow> string"

datatype brokerErr =
    ErrAppNotInstalled string
  | ErrMethodNotExposed string string
  | ErrCallerNotInstalled string
  | ErrGrantMissing string string
  | ErrAppNotReady string
  | DialErr string string
  | IpcErr callErr

fun brokerText :: "transport \<Rightarrow> brokerErr \<Rightarrow> string" where
  "brokerText b (ErrAppNotInstalled i) = ''appstore: app not installed: '' @ i"
| "brokerText b (ErrMethodNotExposed i m) = ''appstore: method not exposed by app: '' @ i @ ''.'' @ m"
| "brokerText b (ErrCallerNotInstalled c) = ''appstore: caller lacks ipc.call grant for target: caller '' @ quote b c @ '' not installed''"
| "brokerText b (ErrGrantMissing c target) = ''appstore: caller lacks ipc.call grant for target: '' @ c @ '' -> '' @ target"
| "brokerText b (ErrAppNotReady i) = ''appstore: app not ready: '' @ i"
| "brokerText b (DialErr i e) = ''appstore call '' @ i @ '': dial: '' @ e"
| "brokerText b (IpcErr e) = ipcText b e"

text \<open>What a call leaves behind: the supervisor, the events emitted, the socket dialed and the bytes
  written to it, and the result.\<close>

record 'r callOutcome =
  after :: supervisor
  emitted :: "telemetryEvent list"
  dialed :: "string option"
  sent :: bytes
  outcome :: "brokerErr + 'r option"

definition emitUsage :: "transport \<Rightarrow> supervisor \<Rightarrow> string \<Rightarrow> string \<Rightarrow> string \<Rightarrow> bool \<Rightarrow> int \<Rightarrow> string \<Rightarrow>
    supervisor \<times> telemetryEvent list" where
  "emitUsage b s callerID appID method ok durMs errMsg =
     (case telemetry b of
        None \<Rightarrow> (s, [])
      | Some emit \<Rightarrow>
          (let ev = \<lparr> TAppID = appID, TMethod = method, TCallerID = callerID, TOK = ok, TDurMs = durMs, TErrMsg = errMsg \<rparr>
           in (if emit ev then logs_add TelemetryPanicked s else s, [ev])))"

text \<open>The poll of the ready bit, every 25 milliseconds.\<close>

function awaitReady :: "(gotime \<Rightarrow> bool) \<Rightarrow> (gotime \<Rightarrow> bool) \<Rightarrow> gotime \<Rightarrow> gotime \<Rightarrow> bool" where
  "awaitReady ctxErr readyBit t deadline =
     (if t < deadline then
        if ctxErr t then False else if readyBit t then True
        else awaitReady ctxErr readyBit (t + 25 * millisecond) deadline
      else False)"
  by pat_completeness auto
termination
  by (relation "measure (\<lambda>(c, r, t, deadline). nat (deadline - t))") (auto simp: millisecond_def)

declare awaitReady.simps [simp del]

definition refuse :: "transport \<Rightarrow> supervisor \<Rightarrow> string \<Rightarrow> string \<Rightarrow> string \<Rightarrow> brokerErr \<Rightarrow> 'r callOutcome" where
  "refuse b s callerID appID method e =
     (case emitUsage b s callerID appID method False 0 (brokerText b e) of
        (s', evs) \<Rightarrow> \<lparr> after = s', emitted = evs, dialed = None, sent = [], outcome = Inl e \<rparr>)"

text \<open>Dialing the app's socket and one IPC call over it.\<close>

definition dispatch :: "transport \<Rightarrow> supervisor \<Rightarrow> string \<Rightarrow> string \<Rightarrow> string \<Rightarrow> installedApp \<Rightarrow> bytes option option \<Rightarrow>
    (bytes \<Rightarrow> 'r option) option \<Rightarrow> origin option \<Rightarrow> 'r callOutcome" where
  "dispatch b s callerID appID method app args out og =
     (case dial b (SocketPath app) of
        Inl e \<Rightarrow> \<lparr> after = s, emitted = [], dialed = Some (SocketPath app), sent = [], outcome = Inl (DialErr appID e) \<rparr>
      | Inr (c, peer) \<Rightarrow>
          (case CallWithOrigin (bcodec b) peer (newReqID b) method args out og c of
             (c', Inl e) \<Rightarrow>
               (case emitUsage b s callerID appID method False (callMillis b) (ipcText b e) of
                  (s', evs) \<Rightarrow> \<lparr> after = s', emitted = evs, dialed = Some (SocketPath app), sent = written c', outcome = Inl (IpcErr e) \<rparr>)
           | (c', Inr r) \<Rightarrow>
               (case emitUsage b s callerID appID method True (callMillis b) [] of
                  (s', evs) \<Rightarrow> \<lparr> after = s', emitted = evs, dialed = Some (SocketPath app), sent = written c', outcome = Inr r \<rparr>)))"

definition callFrom :: "transport \<Rightarrow> supervisor \<Rightarrow> string \<Rightarrow> string \<Rightarrow> string \<Rightarrow> bytes option option \<Rightarrow>
    (bytes \<Rightarrow> 'r option) option \<Rightarrow> origin option \<Rightarrow> 'r callOutcome" where
  "callFrom b s callerID appID method args out og =
     (let og = (if callerID \<noteq> [] then None else og);
          isReady = (ready s appID = Some True);
          no = (\<lambda>e. refuse b s callerID appID method e);
          go = (\<lambda>app. if \<not> isReady \<and> \<not> awaitReady (ctxErrAt b) (readyBitAt b) (calledAt b) (calledAt b + second_ns)
                      then no (ErrAppNotReady appID)
                      else dispatch b s callerID appID method app args out og)
      in case installed s appID of
           None \<Rightarrow> no (ErrAppNotInstalled appID)
         | Some app \<Rightarrow>
             if \<not> ExposesMethod (Mf app) method then no (ErrMethodNotExposed appID method)
             else if callerID \<noteq> [] then
               (case installed s callerID of
                  None \<Rightarrow> no (ErrCallerNotInstalled callerID)
                | Some caller \<Rightarrow>
                    (let target = appID @ ''.'' @ method in
                     if \<not> HasGrant (Mf caller) ''ipc.call'' target then no (ErrGrantMissing callerID target) else go app))
             else go app)"

definition supCall :: "transport \<Rightarrow> supervisor \<Rightarrow> string \<Rightarrow> string \<Rightarrow> bytes option option \<Rightarrow> (bytes \<Rightarrow> 'r option) option \<Rightarrow> 'r callOutcome" where
  "supCall b s appID method args out = callFrom b s [] appID method args out None"

definition supCallWithOrigin :: "transport \<Rightarrow> supervisor \<Rightarrow> string \<Rightarrow> string \<Rightarrow> bytes option option \<Rightarrow> (bytes \<Rightarrow> 'r option) option \<Rightarrow>
    origin option \<Rightarrow> 'r callOutcome" where
  "supCallWithOrigin b s appID method args out og = callFrom b s [] appID method args out og"

definition supCallFrom :: "transport \<Rightarrow> supervisor \<Rightarrow> string \<Rightarrow> string \<Rightarrow> string \<Rightarrow> bytes option option \<Rightarrow> (bytes \<Rightarrow> 'r option) option \<Rightarrow> 'r callOutcome" where
  "supCallFrom b s callerID appID method args out = callFrom b s callerID appID method args out None"

record appInfo =
  InfoID :: string
  InfoVersion :: string
  InfoManifestVersion :: int
  Methods :: "string list"
  InfoProtection :: string
  Ready :: bool
  Suspended :: bool

text \<open>\<open>ids\<close> is the order in which Go walks the table.\<close>

definition supApps :: "supervisor \<Rightarrow> string list \<Rightarrow> appInfo list" where
  "supApps s ids = concat (map (\<lambda>i. case installed s i of
       None \<Rightarrow> []
     | Some app \<Rightarrow> [\<lparr> InfoID = i, InfoVersion = AppVersion (Mf app), InfoManifestVersion = ManifestVersion (Mf app),
         Methods = Exposes (Mf app), InfoProtection = Protection (Mf app), Ready = (ready s i = Some True),
         Suspended = (case crashes s i of None \<Rightarrow> False | Some rec \<Rightarrow> suspended rec) \<rparr>]) ids)"

definition supGet :: "supervisor \<Rightarrow> string \<Rightarrow> installedApp option" where
  "supGet s appID = installed s appID"

section \<open>Authorization\<close>

text \<open>What the documentation asks of a call: the app is installed and exposes the method, and a calling
  app is installed and was granted the target.\<close>

definition authorized :: "supervisor \<Rightarrow> string \<Rightarrow> string \<Rightarrow> string \<Rightarrow> installedApp \<Rightarrow> bool" where
  "authorized s callerID appID method app \<longleftrightarrow>
     installed s appID = Some app \<and> method \<in> set (Exposes (Mf app)) \<and>
     (callerID = [] \<or> (\<exists>caller g. installed s callerID = Some caller \<and> g \<in> set (Grants (Mf caller)) \<and> Cap g = ''ipc.call''
        \<and> matchGrantTarget (Target g) (appID @ ''.'' @ method)))"

definition reachable :: "transport \<Rightarrow> supervisor \<Rightarrow> string \<Rightarrow> bool" where
  "reachable b s appID \<longleftrightarrow> ready s appID = Some True \<or>
     awaitReady (ctxErrAt b) (readyBitAt b) (calledAt b) (calledAt b + second_ns)"

lemma emitUsage_frame: "emitUsage b s c a m ok d e = (s', evs) \<Longrightarrow> installed s' = installed s"
  by (auto simp: emitUsage_def Let_def logs_add_def split: option.splits if_splits)

lemma authorized_iff:
  "authorized s callerID appID method app \<longleftrightarrow> installed s appID = Some app \<and> ExposesMethod (Mf app) method \<and>
     (callerID = [] \<or> (\<exists>caller. installed s callerID = Some caller \<and> HasGrant (Mf caller) ''ipc.call'' (appID @ ''.'' @ method)))"
  by (auto simp: authorized_def ExposesMethod_def HasGrant_def list_ex_iff)

lemma callFrom_pass:
  assumes "authorized s callerID appID method app" and "reachable b s appID"
  shows "callFrom b s callerID appID method args out og =
    dispatch b s callerID appID method app args out (if callerID \<noteq> [] then None else og)"
  using assms by (auto simp: authorized_iff reachable_def callFrom_def Let_def)

lemma callFrom_refused:
  assumes "\<And>app. \<not> (authorized s callerID appID method app \<and> reachable b s appID)"
  shows "\<exists>e. callFrom b s callerID appID method args out og = refuse b s callerID appID method e \<and> (\<forall>i t. e \<noteq> DialErr i t) \<and> (\<forall>x. e \<noteq> IpcErr x)"
proof (cases "installed s appID")
  case None
  then show ?thesis by (auto simp: callFrom_def Let_def)
next
  case (Some app)
  have "\<not> authorized s callerID appID method app \<or> \<not> reachable b s appID" using assms by blast
  then show ?thesis using Some
    by (auto simp: callFrom_def Let_def authorized_iff reachable_def split: option.splits)
qed

lemma refuse_fields:
  "dialed (refuse b s callerID appID method e) = None" "sent (refuse b s callerID appID method e) = []"
  "outcome (refuse b s callerID appID method e) = Inl e"
  by (simp_all add: refuse_def split: prod.splits)

lemma dispatch_dialed: "dialed (dispatch b s callerID appID method app args out og) = Some (SocketPath app)"
  by (auto simp: dispatch_def split: sum.splits prod.splits)

text \<open>C4. The broker dials an app's socket exactly for the calls that are authorized and find the app
  ready, now or within a second, and dials no other socket.\<close>

theorem broker_dials_iff:
  "dialed (callFrom b s callerID appID method args out og) = Some p \<longleftrightarrow>
     (\<exists>app. authorized s callerID appID method app \<and> reachable b s appID \<and> p = SocketPath app)"
proof (cases "\<exists>app. authorized s callerID appID method app \<and> reachable b s appID")
  case True
  then obtain app where a: "authorized s callerID appID method app" "reachable b s appID" by blast
  have "app' = app" if "authorized s callerID appID method app'" for app'
    using that a(1) by (simp add: authorized_def)
  then have "(\<exists>app'. authorized s callerID appID method app' \<and> reachable b s appID \<and> p = SocketPath app') \<longleftrightarrow> SocketPath app = p"
    using a by blast
  moreover have "dialed (callFrom b s callerID appID method args out og) = Some (SocketPath app)"
    unfolding callFrom_pass[OF a] by (rule dispatch_dialed)
  ultimately show ?thesis by simp
next
  case False
  then obtain e where "callFrom b s callerID appID method args out og = refuse b s callerID appID method e"
    using callFrom_refused[where b = b and s = s and og = og] by blast
  then have "dialed (callFrom b s callerID appID method args out og) = None" by (simp add: refuse_fields)
  then show ?thesis using False by (metis option.distinct(1))
qed

text \<open>With an emitter, every call emits exactly one usage event, which names the call and tells
  success, except that a failed dial emits none.\<close>

theorem usage_accounted:
  assumes "telemetry b = Some emit"
  shows "(case emitted (callFrom b s callerID appID method args out og) of
      [] \<Rightarrow> \<exists>e. outcome (callFrom b s callerID appID method args out og) = Inl (DialErr appID e)
    | [ev] \<Rightarrow> TAppID ev = appID \<and> TMethod ev = method \<and> TCallerID ev = callerID
        \<and> (case outcome (callFrom b s callerID appID method args out og) of
             Inl e \<Rightarrow> \<not> TOK ev \<and> TErrMsg ev = brokerText b e | Inr r \<Rightarrow> TOK ev \<and> TErrMsg ev = [])
    | _ \<Rightarrow> False)"
proof (cases "\<exists>app. authorized s callerID appID method app \<and> reachable b s appID")
  case True
  then obtain app where a: "authorized s callerID appID method app" "reachable b s appID" by blast
  show ?thesis unfolding callFrom_pass[OF a]
    using assms by (auto simp: dispatch_def emitUsage_def Let_def split: sum.splits prod.splits)
next
  case False
  then obtain e where "callFrom b s callerID appID method args out og = refuse b s callerID appID method e"
    using callFrom_refused[where b = b and s = s and og = og] by blast
  then show ?thesis using assms by (simp add: refuse_def emitUsage_def Let_def)
qed

section \<open>Delivery\<close>

text \<open>The app's process: its server loop over its dispatcher.\<close>

definition serves :: "transport \<Rightarrow> installedApp \<Rightarrow> 'st dispatcher \<Rightarrow> 'st \<Rightarrow> bool" where
  "serves b app d st \<longleftrightarrow> dial b (SocketPath app) = Inr (freshConn, serverPeer (\<lambda>_. None) (bcodec b) d st)"

lemma dispatch_outcome:
  assumes "dial b (SocketPath app) = Inr (c, peer)"
  shows "outcome (dispatch b s callerID appID method app args out og) =
    (case snd (CallWithOrigin (bcodec b) peer (newReqID b) method args out og c) of Inl e \<Rightarrow> Inl (IpcErr e) | Inr r \<Rightarrow> Inr r)"
  using assms by (auto simp: dispatch_def split: sum.splits prod.splits)

lemma delivers:
  assumes "authorized s callerID appID method app" and "reachable b s appID" and "serves b app d st" and "newReqID b = Some rid"
    and "d method = Some h" and req: "req = requestEnvelope rid method (if callerID \<noteq> [] then None else og) args"
    and "decodes (bcodec b) req" and "decodes (bcodec b) (snd (dispatchOne d st req))"
  shows "outcome (callFrom b s callerID appID method (Some (Some args)) (Some dec) og) =
    (case snd (h st req) of
       Inl err \<Rightarrow> Inl (IpcErr (ErrServerError err))
     | Inr payload \<Rightarrow> if payload = [] then Inr None
         else (case dec payload of None \<Rightarrow> Inl (IpcErr UnmarshalResult) | Some r \<Rightarrow> Inr (Some r)))"
proof -
  obtain st' res where h: "h st req = (st', res)" by fastforce
  have "snd (CallWithOrigin (bcodec b) (serverPeer (\<lambda>_. None) (bcodec b) d st) (newReqID b) method (Some (Some args)) (Some dec)
      (if callerID \<noteq> [] then None else og) freshConn) =
    (case res of Inl err \<Rightarrow> Inl (ErrServerError err)
     | Inr payload \<Rightarrow> if payload = [] then Inr None else (case dec payload of None \<Rightarrow> Inl UnmarshalResult | Some r \<Rightarrow> Inr (Some r)))"
    unfolding assms(4)
    by (rule call_handler[where h = h and st' = st']) (use assms h in simp_all)
  then show ?thesis
    unfolding callFrom_pass[OF assms(1,2)] dispatch_outcome[OF assms(3)[unfolded serves_def]]
    by (simp add: h split: sum.splits option.splits)
qed

text \<open>C8. An authorized call to a ready app reaches the handler its process registered for the method,
  and returns what the handler returns; the handler sees the daemon's origin if there is no calling
  app, and no origin at all if there is one.\<close>

theorem broker_delivers:
  assumes "authorized s callerID appID method app" and "reachable b s appID" and "serves b app d st" and "newReqID b = Some rid"
    and "d method = Some h"
    and "decodes (bcodec b) (requestEnvelope rid method (if callerID \<noteq> [] then None else og) args)"
    and "decodes (bcodec b) (snd (dispatchOne d st (requestEnvelope rid method (if callerID \<noteq> [] then None else og) args)))"
  shows "outcome (callFrom b s callerID appID method (Some (Some args)) (Some dec) og) =
    (case snd (h st (requestEnvelope rid method (if callerID \<noteq> [] then None else og) args)) of
       Inl err \<Rightarrow> Inl (IpcErr (ErrServerError err))
     | Inr payload \<Rightarrow> if payload = [] then Inr None
         else (case dec payload of None \<Rightarrow> Inl (IpcErr UnmarshalResult) | Some r \<Rightarrow> Inr (Some r)))"
  by (rule delivers[OF assms(1-5) refl assms(6,7)])

text \<open>C3. No forged origin: whatever origin the caller passes, a call made by an app to a method behind
  \<^verbatim>\<open>RequireOrigin\<close> is answered with the error that an authenticated origin is required.\<close>

theorem origin_not_forged:
  assumes "callerID \<noteq> []" and "authorized s callerID appID method app" and "reachable b s appID" and "serves b app d st"
    and "newReqID b = Some rid" and "d method = Some (RequireOrigin h)"
    and "decodes (bcodec b) (requestEnvelope rid method None args)"
    and "decodes (bcodec b) (snd (dispatchOne d st (requestEnvelope rid method None args)))"
  shows "outcome (callFrom b s callerID appID method (Some (Some args)) (Some dec) og) = Inl (IpcErr (ErrServerError ErrOriginRequired))"
  using delivers[OF assms(2-6), of _ og args dec, OF refl] assms(1,7,8) by (simp add: RequireOrigin_def requestEnvelope_def)

text \<open>C7. At any time of the supervisor's life, a call on behalf of a sideloaded app is refused before any
  socket is dialed.\<close>

theorem sideloaded_cannot_call:
  assumes "reach (started env) (systemStep env) \<sigma>" and "installed (svr \<sigma>) callerID = Some caller" and "Sideloaded caller" and "callerID \<noteq> []"
  shows "dialed (callFrom b (svr \<sigma>) callerID appID method args out og) = None"
proof -
  have "systemOK env \<sigma>" using assms(1) by (rule supervision.reach_inv)
  then have "vouched (scanning env) (cfg (svr \<sigma>)) caller" using assms(2) by (auto simp: systemOK_def ran_def)
  then have "\<not> HasGrant (Mf caller) ''ipc.call'' (appID @ ''.'' @ method)"
    using assms(3) by (auto simp: vouched_def Let_def EnforceSideloadPolicy_None_iff HasGrant_def list_ex_iff sideload_grant_ok_def)
  then have "\<not> authorized (svr \<sigma>) callerID appID method app" for app
    using assms(2,4) by (simp add: authorized_iff)
  then obtain e where "callFrom b (svr \<sigma>) callerID appID method args out og = refuse b (svr \<sigma>) callerID appID method e"
    using callFrom_refused[where b = b and s = "svr \<sigma>" and og = og] by blast
  then show ?thesis using refuse_fields(1) by simp
qed

section \<open>Examples\<close>

definition echoApp :: installedApp where
  "echoApp = exampleApp\<lparr>Mf := exampleSideload\<lparr>Exposes := [''echo'']\<rparr>\<rparr>"

definition callingApp :: installedApp where
  "callingApp = exampleApp\<lparr>Mf := exampleSideload\<lparr>ID := ''io.pilot.caller'',
     Grants := [\<lparr> Cap = ''ipc.call'', Target = ''io.pilot.hello.*'', Cond = None \<rparr>]\<rparr>\<rparr>"

definition brokerSupervisor :: supervisor where
  "brokerSupervisor = exampleSupervisor\<lparr>installed := [''io.pilot.hello'' \<mapsto> echoApp, ''io.pilot.caller'' \<mapsto> callingApp],
     ready := [''io.pilot.hello'' \<mapsto> True]\<rparr>"

definition transportTo :: "nat dispatcher \<Rightarrow> transport" where
  "transportTo d = \<lparr> bcodec = barCodec, dial = (\<lambda>_. Inr (freshConn, serverPeer (\<lambda>_. None) barCodec d 0)), newReqID = Some ''01'',
     telemetry = Some noopEmitter, calledAt = 0, ctxErrAt = (\<lambda>_. False), readyBitAt = (\<lambda>_. False), callMillis = 1,
     quote = id, ipcText = (\<lambda>_. ''ipc error'') \<rparr>"

lemma broker_example:
  "authorized brokerSupervisor [] ''io.pilot.hello'' ''echo'' echoApp"
  "authorized brokerSupervisor ''io.pilot.caller'' ''io.pilot.hello'' ''echo'' echoApp"
  "reachable (transportTo d) brokerSupervisor ''io.pilot.hello''" "serves (transportTo d) echoApp d 0"
  "newReqID (transportTo d) = Some ''01''" "bcodec (transportTo d) = barCodec" "telemetry (transportTo d) = Some noopEmitter"
proof -
  have "matchGrantTarget ''io.pilot.hello.*'' ''io.pilot.hello.echo''" by code_simp
  then show "authorized brokerSupervisor ''io.pilot.caller'' ''io.pilot.hello'' ''echo'' echoApp"
    by (simp add: authorized_def brokerSupervisor_def callingApp_def echoApp_def)
qed (simp_all add: authorized_def brokerSupervisor_def echoApp_def reachable_def serves_def transportTo_def)

theorem usage_accounted_witness:
  "case emitted (callFrom (transportTo echoDispatcher) exampleSupervisor [] ''io.pilot.none'' ''echo'' None (Some Some) None) of
     [] \<Rightarrow> \<exists>e. outcome (callFrom (transportTo echoDispatcher) exampleSupervisor [] ''io.pilot.none'' ''echo'' None (Some Some) None)
       = Inl (DialErr ''io.pilot.none'' e)
   | [ev] \<Rightarrow> TAppID ev = ''io.pilot.none''
   | _ \<Rightarrow> False"
  using usage_accounted[OF broker_example(7), of echoDispatcher exampleSupervisor "[]" "''io.pilot.none''" "''echo''" None "Some Some" None]
  by (auto split: list.splits)

theorem broker_delivers_witness:
  "outcome (callFrom (transportTo echoDispatcher) brokerSupervisor [] ''io.pilot.hello'' ''echo'' (Some (Some ''hi'')) (Some Some) None)
     = Inr (Some ''hi'')"
proof -
  have h: "echoDispatcher ''echo'' = Some (\<lambda>n req. (Suc n, Inr (Payload req)))"
    by (simp add: echoDispatcher_def RegisterHandler_def)
  have "decodes (bcodec (transportTo echoDispatcher)) (requestEnvelope ''01'' ''echo'' (if [] \<noteq> ([] :: string) then None else None) ''hi'')"
    "decodes (bcodec (transportTo echoDispatcher))
       (snd (dispatchOne echoDispatcher 0 (requestEnvelope ''01'' ''echo'' (if [] \<noteq> ([] :: string) then None else None) ''hi'')))"
    using example_roundtrips example_dispatch by (simp_all add: broker_example exampleReq_def)
  from broker_delivers[OF broker_example(1,3,4,5) h this, of Some] show ?thesis
    by (simp add: requestEnvelope_def)
qed

text \<open>An app that guards its method with \<^verbatim>\<open>RequireOrigin\<close>.\<close>

definition guardedDispatcher :: "nat dispatcher" where
  "guardedDispatcher = RegisterHandler NewDispatcher ''echo'' (RequireOrigin (\<lambda>n req. (Suc n, Inr (Payload req))))"

theorem origin_not_forged_witness:
  "outcome (callFrom (transportTo guardedDispatcher) brokerSupervisor ''io.pilot.caller'' ''io.pilot.hello'' ''echo'' (Some (Some ''hi''))
       (Some (Some :: bytes \<Rightarrow> bytes option)) (Some \<lparr> Node = ''0:0001.0000.0007'', NodeID = 7, Authenticated = True, Trusted = True \<rparr>))
     = Inl (IpcErr (ErrServerError ErrOriginRequired))"
proof -
  have h: "guardedDispatcher ''echo'' = Some (RequireOrigin (\<lambda>n req. (Suc n, Inr (Payload req))))"
    by (simp add: guardedDispatcher_def RegisterHandler_def)
  have r: "dispatchOne guardedDispatcher 0 (requestEnvelope ''01'' ''echo'' None ''hi'') =
      (0, emptyEnvelope\<lparr>EType := EnvErr, ReqID := ''01'', EError := ErrOriginRequired\<rparr>)"
    by (simp add: dispatchOne_def guardedDispatcher_def RegisterHandler_def RequireOrigin_def requestEnvelope_def emptyEnvelope_def EnvReq_def)
  have "decodes (bcodec (transportTo guardedDispatcher)) (requestEnvelope ''01'' ''echo'' None ''hi'')"
    "decodes (bcodec (transportTo guardedDispatcher)) (snd (dispatchOne guardedDispatcher 0 (requestEnvelope ''01'' ''echo'' None ''hi'')))"
    using example_roundtrips(2) unfolding r by (simp_all add: broker_example example_defs ErrOriginRequired_def)
  from origin_not_forged[OF _ broker_example(2,3,4,5) h this] show ?thesis by simp
qed

theorem sideloaded_cannot_call_witness:
  "\<exists>\<sigma>. reach (started exampleSEnv) (systemStep exampleSEnv) \<sigma>
     \<and> dialed (callFrom (transportTo echoDispatcher) (svr \<sigma>) ''io.pilot.hello'' ''io.pilot.hello'' ''hello.echo'' None (Some (Some :: bytes \<Rightarrow> bytes option)) None) = None"
proof -
  obtain \<sigma> g where r: "reach (started exampleSEnv) (orderlyStep exampleSEnv) \<sigma>" "gos \<sigma> = [g]" "gApp g = exampleApp"
    "phase g = Running 42 []" "cancelled (svr \<sigma>) = []" using example_running by blast
  have rs: "reach (started exampleSEnv) (systemStep exampleSEnv) \<sigma>" by (rule reach_mono[OF r(1)]) (simp add: orderlyStep_def)
  have "owned (svr \<sigma>) (gos \<sigma>)" using ownership.reach_inv[OF r(1)] by (simp add: ownedSystem_def)
  moreover have "live (svr \<sigma>) (gos \<sigma>) 0" using r by (simp add: live_def)
  moreover have "gid (gos \<sigma>) 0 = ''io.pilot.hello''" using r by (simp add: gid_def exampleApp_def exampleSideload_def)
  ultimately have i: "installed (svr \<sigma>) ''io.pilot.hello'' = Some exampleApp" using r by (auto simp: owned_def)
  have "dialed (callFrom (transportTo echoDispatcher) (svr \<sigma>) ''io.pilot.hello'' ''io.pilot.hello'' ''hello.echo'' None
      (Some (Some :: bytes \<Rightarrow> bytes option)) None) = None"
    by (rule sideloaded_cannot_call[OF rs i]) (simp_all add: exampleApp_def)
  then show ?thesis using rs by blast
qed

text \<open>A grant for a method with a dot in its name also reaches the app whose id is longer by the part
  before the dot.\<close>

lemma grant_ambiguous:
  "HasGrant m ''ipc.call'' (appID @ ''.'' @ (part @ ''.'' @ method)) = HasGrant m ''ipc.call'' ((appID @ ''.'' @ part) @ ''.'' @ method)"
  by simp

text \<open>The poll sees the ready bit exactly if it is set at one of its readings, with the context alive up
  to then.\<close>

lemma awaitReady_iff:
  "awaitReady ctxErr readyBit t deadline \<longleftrightarrow>
     (\<exists>k. t + int k * (25 * millisecond) < deadline \<and> readyBit (t + int k * (25 * millisecond))
        \<and> (\<forall>j \<le> k. \<not> ctxErr (t + int j * (25 * millisecond))))"
proof (induction ctxErr readyBit t deadline rule: awaitReady.induct)
  case (1 ctxErr readyBit t deadline)
  let ?P = "\<lambda>t k. t + int k * (25 * millisecond) < deadline \<and> readyBit (t + int k * (25 * millisecond))
        \<and> (\<forall>j \<le> k. \<not> ctxErr (t + int j * (25 * millisecond)))"
  have "(\<forall>j \<le> Suc k. Q j) \<longleftrightarrow> Q 0 \<and> (\<forall>j \<le> k. Q (Suc j))" for Q k
    by (simp only: less_Suc_eq_le[symmetric] All_less_Suc2)
  then have shift: "?P t (Suc k) \<longleftrightarrow> \<not> ctxErr t \<and> ?P (t + 25 * millisecond) k" for k
    by (simp add: algebra_simps conj_ac)
  have "(\<exists>k. Q k) \<longleftrightarrow> Q 0 \<or> (\<exists>k. Q (Suc k))" for Q :: "nat \<Rightarrow> bool" by (metis not0_implies_Suc)
  from this[of "?P t"] have split: "(\<exists>k. ?P t k) \<longleftrightarrow> ?P t 0 \<or> (\<not> ctxErr t \<and> (\<exists>k. ?P (t + 25 * millisecond) k))"
    unfolding shift by blast
  have late: "\<not> ?P u k" if "\<not> u < deadline" for u k using that by (simp add: millisecond_def)
  show ?case
  proof (cases "t < deadline")
    case True
    then show ?thesis unfolding split using "1.IH"[OF True] by (subst awaitReady.simps) simp
  next
    case False
    then have "\<not> awaitReady ctxErr readyBit t deadline" by (subst awaitReady.simps) simp
    then show ?thesis using late[OF False] by blast
  qed
qed

end
