(* ===== verification/Service.thy ===== *)
theory Service
  imports Broker
begin

text \<open>
  \<^verbatim>\<open>plugin/appstore/service.go\<close>: the plugin the daemon starts and stops. The home directory,
  \<^verbatim>\<open>os.MkdirAll\<close> and the moment the supervisor's \<^verbatim>\<open>run\<close> returns are given from outside.
\<close>

section \<open>Operations\<close>

definition EmbeddedCatalogPubkey :: bytes where "EmbeddedCatalogPubkey = replicate 32 (CHR 0x00)"

definition catalogPubkeyIsPlaceholder :: "bytes \<Rightarrow> bool" where
  "catalogPubkeyIsPlaceholder pk = (if length pk = 0 then True else \<not> list_ex (\<lambda>b. b \<noteq> CHR 0x00) pk)"

text \<open>The run of a supervisor: the scan before it failed, it is going on, or it has returned and closed
  \<^verbatim>\<open>doneCh\<close>.\<close>

datatype runState = ScanFailed | Going | Drained

datatype svcLine = DevTrustAnchor | StartingLine string nat | StopDeadlineLine

record service =
  svcConfig :: config
  CatalogPubkey :: bytes
  svcSup :: "supervisor option"
  runState :: runState
  runCancelled :: bool
  svcLogs :: "svcLine list"

text \<open>A catalogue key that was not given is \<open>None\<close>; \<open>home\<close> is \<^verbatim>\<open>os.UserHomeDir\<close>.\<close>

definition NewService :: "string option \<Rightarrow> config \<Rightarrow> bytes option \<Rightarrow> service" where
  "NewService home c key =
     (let c = (if InstallRoot c = [] then
                 c\<lparr>InstallRoot := (case home of Some h \<Rightarrow> Join [h, ''.pilot'', ''apps''] | None \<Rightarrow> ''.pilot/apps'')\<rparr>
               else c);
          key = (case key of None \<Rightarrow> EmbeddedCatalogPubkey | Some k \<Rightarrow> k)
      in \<lparr> svcConfig = c, CatalogPubkey = key, svcSup = None, runState = Drained, runCancelled = False, svcLogs = [] \<rparr>)"

definition Name :: string where "Name = ''appstore''"
definition Order :: int where "Order = 120"

datatype svcErr = AlreadyStarted | InstallRootErr fsErr | ScanErr fsErr | StopDeadline | NotStarted

record startEnv =
  startScan :: scanEnv
  MkdirAll :: "files \<Rightarrow> string \<Rightarrow> fsErr + files"
  scanClock :: "string \<Rightarrow> gotime"
  startTime :: gotime

definition Start :: "startEnv \<Rightarrow> files \<Rightarrow> service \<Rightarrow> service \<times> svcErr option" where
  "Start env f v =
     (if svcSup v \<noteq> None then (v, Some AlreadyStarted)
      else case MkdirAll env f (InstallRoot (svcConfig v)) of
        Inl e \<Rightarrow> (v, Some (InstallRootErr e))
      | Inr f' \<Rightarrow>
          (let v = (if catalogPubkeyIsPlaceholder (CatalogPubkey v) then v\<lparr>svcLogs := svcLogs v @ [DevTrustAnchor]\<rparr> else v);
               v = v\<lparr>runCancelled := False\<rparr>
           in case scanInstalled (startScan env) (scanClock env) (newSupervisor (svcConfig v) f') of
                (s, Inl e) \<Rightarrow> (v\<lparr>svcSup := Some s, runState := ScanFailed, runCancelled := True\<rparr>, Some (ScanErr e))
              | (s, Inr apps) \<Rightarrow>
                  (v\<lparr>svcSup := Some (registerInstalled (startTime env) s apps), runState := Going,
                     svcLogs := svcLogs v @ [StartingLine (InstallRoot (svcConfig v)) (length apps)]\<rparr>, None)))"

text \<open>The outcome of \<^verbatim>\<open>Stop\<close>, which may also wait forever. \<open>ctxEnded\<close>: the caller's context ends;
  \<open>preferDone\<close>: which ready branch of the \<^verbatim>\<open>select\<close> is taken when both are.\<close>

datatype stopOutcome = StopOK | StopErr svcErr | StopWaits

definition Stop :: "bool \<Rightarrow> bool \<Rightarrow> service \<Rightarrow> service \<times> stopOutcome" where
  "Stop ctxEnded preferDone v =
     (if svcSup v = None then (v, StopOK)
      else (let v = v\<lparr>runCancelled := True\<rparr> in
        if runState v = Drained \<and> (preferDone \<or> \<not> ctxEnded) then (v\<lparr>svcSup := None\<rparr>, StopOK)
        else if ctxEnded then (v\<lparr>svcLogs := svcLogs v @ [StopDeadlineLine]\<rparr>, StopErr StopDeadline)
        else (v, StopWaits)))"

text \<open>\<^verbatim>\<open>run\<close> returns once it has been cancelled and its goroutines have.\<close>

definition drain :: "service \<Rightarrow> service" where
  "drain v = (if runState v = Going \<and> runCancelled v then v\<lparr>runState := Drained\<rparr> else v)"

definition svcApps :: "service \<Rightarrow> string list \<Rightarrow> appInfo list option" where
  "svcApps v ids = (case svcSup v of None \<Rightarrow> None | Some s \<Rightarrow> Some (supApps s ids))"

definition svcCall :: "transport \<Rightarrow> service \<Rightarrow> string \<Rightarrow> string \<Rightarrow> bytes option option \<Rightarrow> (bytes \<Rightarrow> 'r option) option \<Rightarrow>
    svcErr + 'r callOutcome" where
  "svcCall b v appID method args out =
     (case svcSup v of None \<Rightarrow> Inl NotStarted | Some s \<Rightarrow> Inr (supCall b s appID method args out))"

definition svcCallFrom :: "transport \<Rightarrow> service \<Rightarrow> string \<Rightarrow> string \<Rightarrow> string \<Rightarrow> bytes option option \<Rightarrow> (bytes \<Rightarrow> 'r option) option \<Rightarrow>
    svcErr + 'r callOutcome" where
  "svcCallFrom b v callerID appID method args out =
     (case svcSup v of None \<Rightarrow> Inl NotStarted | Some s \<Rightarrow> Inr (supCallFrom b s callerID appID method args out))"

definition svcCallWithOrigin :: "transport \<Rightarrow> service \<Rightarrow> string \<Rightarrow> string \<Rightarrow> bytes option option \<Rightarrow> (bytes \<Rightarrow> 'r option) option \<Rightarrow>
    origin option \<Rightarrow> svcErr + 'r callOutcome" where
  "svcCallWithOrigin b v appID method args out og =
     (case svcSup v of None \<Rightarrow> Inl NotStarted | Some s \<Rightarrow> Inr (supCallWithOrigin b s appID method args out og))"

section \<open>Starting\<close>

lemma newSupervisor_due: "dueNow env clk (newSupervisor c f) a \<longleftrightarrow>
    Sideloaded a \<or> (\<exists>bs. ReadFile f (manifestPath (Dir a)) = Inr bs)"
  by (auto simp: dueNow_def newSupervisor_def shouldAttemptSignature_def)

lemma registered_iff:
  assumes "scanInstalled env clk (newSupervisor c f) = (s, Inr apps)" and "ReadDir f (InstallRoot c) = Inr es"
  shows "installed (registerInstalled t s apps) i = Some a \<longleftrightarrow> (i, True) \<in> set es \<and> trustedInstall env (newSupervisor c f) i a"
proof -
  let ?n = "newSupervisor c f"
  have n: "cfg ?n = c" "disk ?n = f" "installed ?n = Map.empty" by (simp_all add: newSupervisor_def)
  have d: "distinct (map (\<lambda>a. ID (Mf a)) apps)" by (rule scan_distinct[OF assms(1)])
  have "installed s = Map.empty" using scan_tables[OF assms(1)] n by simp
  then have inst: "installed (registerInstalled t s apps) = map_of (map (\<lambda>a. (ID (Mf a), a)) apps)"
    using registerInstalled_all[OF d, of s t] by simp
  have "map_of (map (\<lambda>a. (ID (Mf a), a)) apps) i = Some a \<longleftrightarrow> a \<in> set apps \<and> ID (Mf a) = i"
  proof -
    have "distinct (map fst (map (\<lambda>a. (ID (Mf a), a)) apps))" using d by (simp add: comp_def)
    then show ?thesis by (auto simp: map_of_eq_Some_iff image_iff)
  qed
  moreover have "a \<in> set apps \<longleftrightarrow> (\<exists>name. (name, True) \<in> set es \<and> trustedInstall env ?n name a \<and> dueNow env clk ?n a)"
    by (rule scanInstalled_mem[OF assms(1)]) (use assms(2) n in simp)
  moreover have "name = ID (Mf a) \<and> dueNow env clk ?n a" if "trustedInstall env ?n name a" for name
    using that n by (auto simp: trustedInstall_def newSupervisor_due Let_def)
  ultimately show ?thesis unfolding inst by blast
qed

lemma Start_result:
  assumes "svcSup v = None" and "MkdirAll env f (InstallRoot (svcConfig v)) = Inr f'"
    and "scanInstalled (startScan env) (scanClock env) (newSupervisor (svcConfig v) f') = (s, r)"
  shows "svcSup (fst (Start env f v)) = Some (case r of Inl e \<Rightarrow> s | Inr apps \<Rightarrow> registerInstalled (startTime env) s apps)
    \<and> snd (Start env f v) = (case r of Inl e \<Rightarrow> Some (ScanErr e) | Inr apps \<Rightarrow> None)
    \<and> runState (fst (Start env f v)) = (case r of Inl e \<Rightarrow> ScanFailed | Inr apps \<Rightarrow> Going)"
  using assms by (cases "catalogPubkeyIsPlaceholder (CatalogPubkey v)"; cases r) (simp_all add: Start_def Let_def)

lemma Start_None: "Start env f v = (v', None) \<Longrightarrow> svcSup v = None"
  by (cases "svcSup v") (simp_all add: Start_def)

lemma supApps_ids: "InfoID ` set (supApps s ids) = {i \<in> set ids. installed s i \<noteq> None}"
proof (induction ids)
  case (Cons i ids)
  have "supApps s (i # ids) = supApps s [i] @ supApps s ids" by (simp add: supApps_def)
  moreover have "InfoID ` set (supApps s [i]) = (if installed s i = None then {} else {i})"
    by (cases "installed s i") (simp_all add: supApps_def)
  ultimately show ?case using Cons.IH by (auto simp: image_Un split: if_splits)
qed (simp add: supApps_def)

text \<open>C35. What the service lists the moment \<^verbatim>\<open>Start\<close> has returned: exactly the trusted installs below the
  install root, whatever the order the table is walked in.\<close>

theorem start_lists_trusted:
  assumes "Start env f v = (v', None)" and "MkdirAll env f (InstallRoot (svcConfig v)) = Inr f'"
    and "ReadDir f' (InstallRoot (svcConfig v)) = Inr es"
    and "svcSup v' = Some s" and "enumerates ids (installed s)" and "svcApps v' ids = Some infos"
  shows "i \<in> InfoID ` set infos \<longleftrightarrow>
    (i, True) \<in> set es \<and> (\<exists>a. trustedInstall (startScan env) (newSupervisor (svcConfig v) f') i a)"
proof -
  obtain s0 r where s0: "scanInstalled (startScan env) (scanClock env) (newSupervisor (svcConfig v) f') = (s0, r)"
    by fastforce
  note res = Start_result[OF Start_None[OF assms(1)] assms(2) s0]
  obtain apps where r: "r = Inr apps" using res assms(1) by (cases r) simp_all
  then have s: "s = registerInstalled (startTime env) s0 apps" using res assms(1,4) by simp
  have "infos = supApps s ids" using assms(4,6) by (simp add: svcApps_def)
  then have "i \<in> InfoID ` set infos \<longleftrightarrow> i \<in> set ids \<and> installed s i \<noteq> None"
    by (simp add: supApps_ids)
  also have "\<dots> \<longleftrightarrow> (\<exists>a. installed s i = Some a)" using assms(5) by (auto simp: enumerates_def)
  also have "\<dots> \<longleftrightarrow> (i, True) \<in> set es \<and> (\<exists>a. trustedInstall (startScan env) (newSupervisor (svcConfig v) f') i a)"
    using registered_iff[OF s0[unfolded r] assms(3)] unfolding s by blast
  finally show ?thesis .
qed

section \<open>Starting and stopping\<close>

datatype svcOp = OpStart startEnv files | OpStop bool bool | OpDrain

fun svcStep :: "service \<Rightarrow> svcOp \<Rightarrow> service" where
  "svcStep v (OpStart env f) = fst (Start env f v)"
| "svcStep v (OpStop ctxEnded preferDone) = fst (Stop ctxEnded preferDone v)"
| "svcStep v OpDrain = drain v"

text \<open>The service never replaces a supervisor that is in place: only \<^verbatim>\<open>Stop\<close> removes it, and only when
  its run has returned.\<close>

lemma svcStep_keeps:
  assumes "svcSup v = Some s" and "\<not> (runState v = Drained \<and> (\<exists>c p. op = OpStop c p))"
  shows "svcSup (svcStep v op) = Some s"
  using assms by (cases op) (auto simp: Start_def Stop_def drain_def Let_def)

text \<open>A stop in time: once the run has returned, \<^verbatim>\<open>Stop\<close> succeeds and the service can start again.\<close>

lemma stop_restart:
  assumes "svcSup v = Some s" and "runState v = Going" and "Stop False p v = (v', r)"
  shows "r = StopWaits \<and> snd (Stop False p (drain v')) = StopOK \<and> svcSup (fst (Stop False p (drain v'))) = None"
  using assms by (auto simp: Stop_def drain_def Let_def)

text \<open>The start failed in the scan and the service has been in use since.\<close>

lemma failed_start_kept:
  assumes "svcSup v \<noteq> None" and "runState v = ScanFailed"
  shows "svcSup (foldl svcStep v ops) \<noteq> None \<and> runState (foldl svcStep v ops) = ScanFailed"
  using assms
proof (induction ops arbitrary: v)
  case (Cons op ops)
  have "svcSup (svcStep v op) \<noteq> None \<and> runState (svcStep v op) = ScanFailed"
    using Cons.prems by (cases op) (auto simp: Start_def Stop_def drain_def Let_def)
  then show ?case using Cons.IH by simp
qed simp

text \<open>C36. A start that fails in the scan cannot be undone: after any further operations, \<^verbatim>\<open>Start\<close> answers
  that the service is already started, and \<^verbatim>\<open>Stop\<close> never succeeds but waits for its context.\<close>

theorem failed_start_sticks:
  assumes "Start env f v = (v', Some (ScanErr e))"
  shows "snd (Start env' f' (foldl svcStep v' ops)) = Some AlreadyStarted
    \<and> snd (Stop c p (foldl svcStep v' ops)) = (if c then StopErr StopDeadline else StopWaits)"
proof -
  have "svcSup v' \<noteq> None \<and> runState v' = ScanFailed"
    using assms(1) by (auto simp: Start_def Let_def split: if_splits sum.splits prod.splits)
  then have "svcSup (foldl svcStep v' ops) \<noteq> None \<and> runState (foldl svcStep v' ops) = ScanFailed"
    using failed_start_kept by blast
  then show ?thesis by (auto simp: Start_def Stop_def Let_def)
qed

section \<open>Examples\<close>

definition exampleStart :: startEnv where
  "exampleStart = \<lparr> startScan = exampleEnv, MkdirAll = (\<lambda>f p. Inr f), scanClock = (\<lambda>_. 0), startTime = 0 \<rparr>"

text \<open>The install root is there but cannot be read.\<close>

definition deniedDisk :: files where
  "deniedDisk = \<lparr> entries = [(''/apps'', Directory)], denied = [''/apps''] \<rparr>"

definition exampleService :: service where
  "exampleService = NewService (Some ''/home/op'') exampleConfig None"

lemma exampleService_fields: "svcConfig exampleService = exampleConfig" "svcSup exampleService = None" "InstallRoot exampleConfig = ''/apps''"
  by (simp_all add: exampleService_def NewService_def exampleConfig_def)

theorem failed_start_sticks_witness:
  "\<exists>v'. Start exampleStart deniedDisk exampleService = (v', Some (ScanErr (FsError ''/apps''))) \<and>
     snd (Start exampleStart scanDisk (foldl svcStep v' [OpStop True True])) = Some AlreadyStarted"
proof -
  have "ReadDir deniedDisk ''/apps'' = Inl (FsError ''/apps'')" by code_simp
  then have "\<exists>v'. Start exampleStart deniedDisk exampleService = (v', Some (ScanErr (FsError ''/apps'')))"
    by (auto simp: Start_def Let_def exampleService_fields exampleStart_def scanInstalled_def newSupervisor_def)
  then obtain v' where v': "Start exampleStart deniedDisk exampleService = (v', Some (ScanErr (FsError ''/apps'')))" by blast
  then show ?thesis using failed_start_sticks[OF v', of exampleStart scanDisk "[OpStop True True]"] by blast
qed

theorem start_lists_trusted_witness:
  "\<exists>v' s ids infos. Start exampleStart scanDisk exampleService = (v', None) \<and> svcSup v' = Some s \<and> enumerates ids (installed s)
     \<and> svcApps v' ids = Some infos \<and> ''io.pilot.hello'' \<in> InfoID ` set infos"
proof -
  have n: "newSupervisor (svcConfig exampleService) scanDisk = scanSupervisor"
    by (simp add: exampleService_fields exampleStart_def scanSupervisor_def)
  obtain s0 apps where s0: "scanInstalled exampleEnv (\<lambda>_. 0) scanSupervisor = (s0, Inr apps)" using scan_example_runs by blast
  have s0': "scanInstalled (startScan exampleStart) (scanClock exampleStart)
      (newSupervisor (svcConfig exampleService) scanDisk) = (s0, Inr apps)"
    unfolding n using s0 by (simp add: exampleStart_def)
  have "\<exists>v'. Start exampleStart scanDisk exampleService = (v', None) \<and> svcSup v' = Some (registerInstalled 0 s0 apps)"
    using s0' by (auto simp: Start_def Let_def exampleService_fields exampleStart_def)
  then obtain v' where v': "Start exampleStart scanDisk exampleService = (v', None)" "svcSup v' = Some (registerInstalled 0 s0 apps)"
    by blast
  have "finite (dom (installed (registerInstalled 0 s0 apps)))"
  proof -
    have "installed s0 = Map.empty" using scan_tables[OF s0] by (simp add: scanSupervisor_fields)
    then show ?thesis using registerInstalled_all[OF scan_distinct[OF s0], of s0 0] by (simp add: finite_dom_map_of)
  qed
  then obtain ids where ids: "enumerates ids (installed (registerInstalled 0 s0 apps))"
    unfolding enumerates_def using finite_distinct_list by metis
  have mk: "MkdirAll exampleStart scanDisk (InstallRoot (svcConfig exampleService)) = Inr scanDisk" by (simp add: exampleStart_def)
  have dir: "ReadDir scanDisk (InstallRoot (svcConfig exampleService)) = Inr [(''io.pilot.hello'', True)]"
    using scan_example_dir by (simp add: scanSupervisor_fields exampleService_fields)
  have infos: "svcApps v' ids = Some (supApps (registerInstalled 0 s0 apps) ids)" by (simp add: svcApps_def v'(2))
  have "''io.pilot.hello'' \<in> InfoID ` set (supApps (registerInstalled 0 s0 apps) ids)"
    unfolding start_lists_trusted[OF v'(1) mk dir v'(2) ids infos] n
    using scan_example_trusted by (auto simp: exampleStart_def)
  then show ?thesis using v' ids infos by blast
qed

end
