(* ===== verification/Platform.thy ===== *)
theory Platform
  imports Service Json
begin

text \<open>
  What differs by system and what connects the service to the daemon: process listing and child
  attributes (\<^verbatim>\<open>procargs_linux.go\<close>, \<^verbatim>\<open>procargs_darwin.go\<close>, \<^verbatim>\<open>procargs_other.go\<close>,
  \<^verbatim>\<open>rlimit_other.go\<close>), the levelled logger (\<^verbatim>\<open>logging.go\<close>) and the adapter
  (\<^verbatim>\<open>integration/adapter.go\<close>).
\<close>

section \<open>Levelled log lines\<close>

datatype level = LevelInfo | LevelWarn

text \<open>What each destination has received; a destination that was not given is \<open>None\<close>.\<close>

record appLogger =
  stdLines :: "string list option"
  slogLines :: "(level \<times> string) list option"

definition newAppLogger :: "string list option \<Rightarrow> (level \<times> string) list option \<Rightarrow> appLogger" where
  "newAppLogger std sl = \<lparr> stdLines = std, slogLines = sl \<rparr>"

text \<open>Logging to a logger that is neither is a panic.\<close>

definition logf :: "level \<Rightarrow> string \<Rightarrow> appLogger \<Rightarrow> appLogger option" where
  "logf lv text l =
     (case slogLines l of
        Some ls \<Rightarrow> Some (l\<lparr>slogLines := Some (ls @ [(lv, ''appstore: '' @ text)])\<rparr>)
      | None \<Rightarrow>
          (case stdLines l of
             Some ls \<Rightarrow> Some (l\<lparr>stdLines := Some (ls @ [text])\<rparr>)
           | None \<Rightarrow> None))"

definition Printf :: "string \<Rightarrow> appLogger \<Rightarrow> appLogger option" where
  "Printf text l = logf LevelInfo text l"

definition Warnf :: "string \<Rightarrow> appLogger \<Rightarrow> appLogger option" where
  "Warnf text l = logf LevelWarn text l"

fun logAll :: "(level \<times> string) list \<Rightarrow> appLogger \<Rightarrow> appLogger option" where
  "logAll [] l = Some l"
| "logAll ((lv, text) # ms) l = (case logf lv text l of None \<Rightarrow> None | Some l' \<Rightarrow> logAll ms l')"

text \<open>The logger of the service and of its supervisor: a standard logger is made when none is given.\<close>

definition serviceLogger :: "string list option \<Rightarrow> (level \<times> string) list option \<Rightarrow> appLogger" where
  "serviceLogger std sl = newAppLogger (case std of None \<Rightarrow> Some [] | Some ls \<Rightarrow> Some ls) sl"

lemma logAll_slog:
  "logAll ms \<lparr> stdLines = std, slogLines = Some ls \<rparr> =
     Some \<lparr> stdLines = std, slogLines = Some (ls @ map (apsnd (append ''appstore: '')) ms) \<rparr>"
  by (induction ms arbitrary: ls) (auto simp: logf_def)

lemma logAll_std:
  "logAll ms \<lparr> stdLines = Some ls, slogLines = None \<rparr> = Some \<lparr> stdLines = Some (ls @ map snd ms), slogLines = None \<rparr>"
  by (induction ms arbitrary: ls) (auto simp: logf_def)

text \<open>Every message of the service arrives, once and in order, and never panics.\<close>

lemma serviceLogger_delivers:
  "logAll ms (serviceLogger std sl) = Some (case sl of
     Some ls \<Rightarrow> \<lparr> stdLines = stdLines (serviceLogger std sl), slogLines = Some (ls @ map (apsnd (append ''appstore: '')) ms) \<rparr>
   | None \<Rightarrow> \<lparr> stdLines = Some ((case std of None \<Rightarrow> [] | Some ls \<Rightarrow> ls) @ map snd ms), slogLines = None \<rparr>)"
  by (auto simp: serviceLogger_def newAppLogger_def logAll_slog logAll_std split: option.splits)

section \<open>Limits on other systems\<close>

definition limitsWarning :: string where
  "limitsWarning = ''resource limits not enforced on this platform (linux-only); child file-descriptor and address-space caps are ignored''"

text \<open>\<^verbatim>\<open>applyChildResourceLimits\<close> where there is no \<^verbatim>\<open>prlimit\<close>; the state is whether the
  \<^verbatim>\<open>sync.Once\<close> has run.\<close>

definition otherChildLimits :: "bool \<times> appLogger \<Rightarrow> int \<Rightarrow> 64 word \<Rightarrow> (bool \<times> appLogger) option" where
  "otherChildLimits st pid addrSpaceLimit =
     (if fst st then Some st else map_option (Pair True) (Printf limitsWarning (snd st)))"

fun limitChildren :: "bool \<times> appLogger \<Rightarrow> (int \<times> 64 word) list \<Rightarrow> (bool \<times> appLogger) option" where
  "limitChildren st [] = Some st"
| "limitChildren st ((pid, cap) # cs) = (case otherChildLimits st pid cap of None \<Rightarrow> None | Some st' \<Rightarrow> limitChildren st' cs)"

lemma limitChildren_warned: "limitChildren (True, l) cs = Some (True, l)"
  by (induction cs) (auto simp: otherChildLimits_def)

lemma limits_warned_once:
  "cs \<noteq> [] \<Longrightarrow> limitChildren (False, l) cs = map_option (Pair True) (Printf limitsWarning l)"
  by (cases cs) (auto simp: otherChildLimits_def limitChildren_warned split: option.split)

section \<open>Processes by system\<close>

datatype platform = Linux | Darwin | OtherSystem

record sysProcAttr =
  Setpgid :: bool
  Pdeathsig :: "signal option"

definition childSysProcAttr :: "platform \<Rightarrow> sysProcAttr" where
  "childSysProcAttr sys = \<lparr> Setpgid = True, Pdeathsig = (if sys = Linux then Some SIGKILL else None) \<rparr>"

definition lockSpawnThread :: "platform \<Rightarrow> bool" where
  "lockSpawnThread sys = (sys = Linux)"

text \<open>Linux: the names in \<^verbatim>\<open>/proc\<close> that are numbers, and the file with the arguments.\<close>

definition linuxListPids :: "string list option \<Rightarrow> int list" where
  "linuxListPids names = (case names of None \<Rightarrow> [] | Some ns \<Rightarrow> List.map_filter atoi ns)"

definition linuxProcessArgs :: "(string \<Rightarrow> bytes option) \<Rightarrow> int \<Rightarrow> bytes option" where
  "linuxProcessArgs readFile pid = readFile (''/proc/'' @ showInt pid @ ''/cmdline'')"

text \<open>macOS: two \<^verbatim>\<open>sysctl\<close> calls, process ids being 32-bit.\<close>

definition darwinListPids :: "32 word list option \<Rightarrow> int list" where
  "darwinListPids kinfo = (case kinfo of None \<Rightarrow> [] | Some ps \<Rightarrow> map sint ps)"

definition darwinProcessArgs :: "(int \<Rightarrow> bytes option) \<Rightarrow> int \<Rightarrow> bytes option" where
  "darwinProcessArgs procargs2 pid = procargs2 pid"

definition otherListPids :: "int list" where "otherListPids = []"

definition otherProcessArgs :: "int \<Rightarrow> bytes option" where "otherProcessArgs pid = None"

text \<open>\<^verbatim>\<open>findInstances\<close> over what the system lists and reads.\<close>

definition scanInstances :: "int list \<Rightarrow> (int \<Rightarrow> bytes option) \<Rightarrow> int \<Rightarrow> string \<Rightarrow> string \<Rightarrow> int list" where
  "scanInstances pids args me binaryPath socketPath =
     filter (\<lambda>pid. \<not> (pid \<le> 1 \<or> pid = me) \<and>
       (case args pid of None \<Rightarrow> False | Some raw \<Rightarrow> hasArg raw binaryPath \<and> hasArg raw socketPath)) pids"

lemma scanInstances_table: "scanInstances (listPids w) (processArgs w) (self w) b sock = findInstances w b sock"
  by (simp add: scanInstances_def findInstances_def)

text \<open>A \<^verbatim>\<open>/proc\<close> that shows a process table: its numeric names are the live pids.\<close>

definition procShows :: "string list \<Rightarrow> (string \<Rightarrow> bytes option) \<Rightarrow> os \<Rightarrow> bool" where
  "procShows names readFile w \<longleftrightarrow>
     distinct names \<and> (\<forall>pid \<in> set (listPids w). int64 pid) \<and>
     {n \<in> set names. atoi n \<noteq> None} = showInt ` set (listPids w) \<and>
     (\<forall>pid \<in> set (listPids w). readFile (''/proc/'' @ showInt pid @ ''/cmdline'') = processArgs w pid)"


lemma linuxListPids_shown:
  assumes "procShows names readFile w"
  shows "set (linuxListPids (Some names)) = set (listPids w)"
proof -
  have a: "atoi (showInt pid) = Some pid" if "pid \<in> set (listPids w)" for pid
    using assms that by (intro atoi_showInt) (auto simp: procShows_def int64_def)
  have "set (linuxListPids (Some names)) = {i. \<exists>n \<in> set names. atoi n = Some i}"
    by (force simp: linuxListPids_def List.map_filter_def)
  also have "\<dots> = {i. \<exists>n \<in> {n \<in> set names. atoi n \<noteq> None}. atoi n = Some i}" by auto
  also have "\<dots> = {i. \<exists>pid \<in> set (listPids w). atoi (showInt pid) = Some i}"
    using assms unfolding procShows_def by (simp only: bex_simps)
  also have "\<dots> = set (listPids w)" using a by auto
  finally show ?thesis .
qed

text \<open>On Linux the search for earlier instances through \<^verbatim>\<open>/proc\<close> finds exactly the instances in the process
  table, other entries of \<^verbatim>\<open>/proc\<close> notwithstanding; on systems other than Linux and macOS it finds none.\<close>

theorem instances_by_system:
  assumes "procShows names readFile w"
  shows "set (scanInstances (linuxListPids (Some names)) (linuxProcessArgs readFile) (self w) b sock)
      = set (findInstances w b sock)
    \<and> scanInstances otherListPids otherProcessArgs (self w) b sock = []"
proof -
  have "linuxProcessArgs readFile pid = processArgs w pid" if "pid \<in> set (listPids w)" for pid
    using assms that by (simp add: procShows_def linuxProcessArgs_def)
  then show ?thesis
    using linuxListPids_shown[OF assms]
    by (auto simp: scanInstances_def otherListPids_def simp flip: scanInstances_table)
qed

text \<open>The daemon dies, however it does: the kernel delivers each child the signal asked for at its start.\<close>

definition parentDies :: "platform \<Rightarrow> int list \<Rightarrow> os \<Rightarrow> os" where
  "parentDies sys kids w =
     (case Pdeathsig (childSysProcAttr sys) of
        None \<Rightarrow> w
      | Some sg \<Rightarrow> foldl (\<lambda>w pid. fst (Kill w pid sg)) w kids)"

lemma Kill_dead:
  assumes "0 < pid"
  shows "\<not> alive (fst (Kill w pid SIGKILL)) pid"
  using assms
  by (auto simp: alive_def Kill_procs Reap.hits_def deliver_def exitBy_def aliveAt_def split: option.splits)

lemma parentDies_evolves: "evolves w (parentDies sys kids w)"
  by (auto simp: parentDies_def split: option.split intro: foldl_evolves)

lemma parentDies_linux: "pid \<in> set kids \<Longrightarrow> 0 < pid \<Longrightarrow> \<not> alive (parentDies Linux kids w) pid"
proof (induction kids arbitrary: w)
  case (Cons k kids)
  have "evolves (fst (Kill w k SIGKILL)) (parentDies Linux kids (fst (Kill w k SIGKILL)))"
    by (rule parentDies_evolves)
  then show ?case
    using Cons alive_evolves Kill_dead[of pid w]
    by (auto simp: parentDies_def childSysProcAttr_def)
qed simp


section \<open>The adapter\<close>

text \<open>What the daemon hands its plugins and what the service takes; the fields are opaque values.\<close>

record 'v coreDeps =
  coreStreams :: 'v
  coreIdentity :: 'v
  coreResolver :: 'v
  coreEvents :: 'v
  coreLogger :: 'v
  coreTrust :: 'v

record 'v deps =
  Streams :: 'v
  Identity :: 'v
  Resolver :: 'v
  Events :: 'v
  Logger :: 'v
  Trust :: 'v
  Telemetry :: "emitter option"

datatype adapter = Adapter (adapted: service)

definition adapterNew :: "service \<Rightarrow> adapter" where "adapterNew svc = Adapter svc"
definition adapterName :: "adapter \<Rightarrow> string" where "adapterName a = Name"
definition adapterOrder :: "adapter \<Rightarrow> int" where "adapterOrder a = Order"

definition adaptDeps :: "'v coreDeps \<Rightarrow> 'v deps" where
  "adaptDeps d =
     \<lparr> Streams = coreStreams d, Identity = coreIdentity d, Resolver = coreResolver d, Events = coreEvents d,
       Logger = coreLogger d, Trust = coreTrust d, Telemetry = None \<rparr>"

text \<open>The emitter of a supervisor made with these dependencies.\<close>

definition depsEmitter :: "'v deps \<Rightarrow> emitter" where
  "depsEmitter d = (case Telemetry d of None \<Rightarrow> noopEmitter | Some emit \<Rightarrow> emit)"

definition adapterStart :: "startEnv \<Rightarrow> files \<Rightarrow> 'v coreDeps \<Rightarrow> adapter \<Rightarrow> (adapter \<times> svcErr option) \<times> 'v deps" where
  "adapterStart env f d a = (map_prod Adapter id (Start env f (adapted a)), adaptDeps d)"

definition adapterStop :: "bool \<Rightarrow> bool \<Rightarrow> adapter \<Rightarrow> adapter \<times> stopOutcome" where
  "adapterStop ctxEnded preferDone a = map_prod Adapter id (Stop ctxEnded preferDone (adapted a))"

fun adapterStep :: "'v coreDeps \<Rightarrow> adapter \<Rightarrow> svcOp \<Rightarrow> adapter" where
  "adapterStep d a (OpStart env f) = fst (fst (adapterStart env f d a))"
| "adapterStep d a (OpStop ctxEnded preferDone) = fst (adapterStop ctxEnded preferDone a)"
| "adapterStep d a OpDrain = Adapter (drain (adapted a))"

text \<open>The adapter is the service under any operations.\<close>

lemma adapter_simulates: "adapted (foldl (adapterStep d) (adapterNew v) ops) = foldl svcStep v ops"
proof -
  have "adapted (adapterStep d a op) = svcStep (adapted a) op" for a op
    by (cases op) (simp_all add: adapterStart_def adapterStop_def)
  then have "adapted (foldl (adapterStep d) a ops) = foldl svcStep (adapted a) ops" for a
    by (induction ops arbitrary: a) simp_all
  then show ?thesis by (simp add: adapterNew_def)
qed

text \<open>But it passes no telemetry on: behind it the emitter is the one that discards every event.\<close>

lemma adapter_discards_usage: "depsEmitter (snd (adapterStart env f d a)) = noopEmitter"
  by (simp add: adapterStart_def adaptDeps_def depsEmitter_def)

section \<open>Examples\<close>

text \<open>A \<^verbatim>\<open>/proc\<close> with the two processes of the example, and entries that are not processes.\<close>

definition exampleProcDir :: "string list" where
  "exampleProcDir = [''100'', ''200'', ''cpuinfo'', ''self'']"

definition exampleProcFile :: "string \<Rightarrow> bytes option" where
  "exampleProcFile = map_of [(''/proc/100/cmdline'', exampleArgs), (''/proc/200/cmdline'', ''sh'')]"

lemma exampleProc_texts: "showInt 100 = ''100''" "showInt 200 = ''200''"
  by (simp_all add: showInt_def showNat.simps) code_simp+

lemma exampleProc_names:
  "atoi ''100'' = Some 100" "atoi ''200'' = Some 200" "atoi ''cpuinfo'' = None" "atoi ''self'' = None"
  by code_simp+

lemma exampleProc_shows: "procShows exampleProcDir exampleProcFile exampleWorld"
proof -
  have l: "listPids exampleWorld = [100, 200]"
    by (simp add: listPids_def exampleWorld_def exampleProcs_def aliveAt_def)
  have "{n \<in> set exampleProcDir. atoi n \<noteq> None} = {''100'', ''200''}"
    by (auto simp: exampleProcDir_def exampleProc_names)
  moreover have "processArgs exampleWorld 100 = Some exampleArgs" "processArgs exampleWorld 200 = Some ''sh''"
    by (simp_all add: processArgs_def exampleWorld_def exampleProcs_def)
  moreover have "distinct exampleProcDir" by (simp add: exampleProcDir_def)
  ultimately show ?thesis
    unfolding procShows_def l by (simp add: exampleProc_texts exampleProcFile_def int64_def)
qed

theorem instances_by_system_witness:
  "set (scanInstances (linuxListPids (Some exampleProcDir)) (linuxProcessArgs exampleProcFile) 50
     (BinaryPath exampleApp) (SocketPath exampleApp)) = {100}"
proof -
  have "\<not> hasArg ''sh'' (BinaryPath exampleApp)" by code_simp
  then have "set (findInstances exampleWorld (BinaryPath exampleApp) (SocketPath exampleApp)) = {100}"
    using exampleArgs_has
    by (auto simp: findInstances_def listPids_def processArgs_def exampleWorld_def exampleProcs_def aliveAt_def)
  then show ?thesis
    using instances_by_system[OF exampleProc_shows, of "BinaryPath exampleApp" "SocketPath exampleApp"]
    by (simp add: exampleWorld_def)
qed


end
