(* ===== verification/Envelope.thy ===== *)
theory Envelope
  imports Ipc Json
begin

text \<open>
  The wire form of envelopes: the JSON tags of \<^verbatim>\<open>Envelope\<close> and \<^verbatim>\<open>Origin\<close>
  (\<^verbatim>\<open>pkg/ipc/envelope.go\<close>) as printers and decoders, the codec the frames of
  \<^verbatim>\<open>frame.go\<close> are written with, and the facts that make it a codec for the server and client
  lemmas: well-typed envelopes come back as they were sent, and what the decoder returns is well typed.
\<close>

section \<open>The codec\<close>

definition zeroOrigin :: origin where
  "zeroOrigin = \<lparr> Node = [], NodeID = 0, Authenticated = False, Trusted = False \<rparr>"

definition originJSON :: "origin \<Rightarrow> bytes" where
  "originJSON og = jsonObj
     [(''node'', jsonQuote (Node og)), (''node_id'', showNat (unat (NodeID og))),
      (''authenticated'', jsonBool (Authenticated og)), (''trusted'', jsonBool (Trusted og))]"

definition originFields :: "origin fields" where
  "originFields =
     [(''node'', fieldDec decString Node (\<lambda>v. Node_update (\<lambda>_. v))),
      (''node_id'', fieldDec decUint32 NodeID (\<lambda>v. NodeID_update (\<lambda>_. v))),
      (''authenticated'', fieldDec decBool Authenticated (\<lambda>v. Authenticated_update (\<lambda>_. v))),
      (''trusted'', fieldDec decBool Trusted (\<lambda>v. Trusted_update (\<lambda>_. v)))]"

definition envMembers :: "envelope \<Rightarrow> bytes \<Rightarrow> (string \<times> bytes) list" where
  "envMembers e payload =
     [(''type'', jsonQuote (EType e)), (''req_id'', jsonQuote (ReqID e))] @
     omitIf (EMethod e = []) (''method'', jsonQuote (EMethod e)) @
     omitIf (AppID e = []) (''app_id'', jsonQuote (AppID e)) @
     omitIf (EManifestVersion e = 0) (''manifest_version'', showInt (EManifestVersion e)) @
     omitIf (Origin e = None) (''origin'', case Origin e of None \<Rightarrow> ''null'' | Some og \<Rightarrow> originJSON og) @
     omitIf (Payload e = []) (''payload'', payload) @
     omitIf (EError e = []) (''error'', jsonQuote (EError e))"

text \<open>A raw payload is validated and compacted; invalid text fails the whole encoding.\<close>

definition marshalEnvelope :: "envelope \<Rightarrow> bytes option" where
  "marshalEnvelope e =
     (if Payload e = [] then Some (jsonObj (envMembers e []))
      else (case compact (Payload e) of
        None \<Rightarrow> None
      | Some p \<Rightarrow> Some (jsonObj (envMembers e p))))"

definition envelopeFields :: "envelope fields" where
  "envelopeFields =
     [(''type'', fieldDec decString EType (\<lambda>v. EType_update (\<lambda>_. v))),
      (''req_id'', fieldDec decString ReqID (\<lambda>v. ReqID_update (\<lambda>_. v))),
      (''method'', fieldDec decString EMethod (\<lambda>v. EMethod_update (\<lambda>_. v))),
      (''app_id'', fieldDec decString AppID (\<lambda>v. AppID_update (\<lambda>_. v))),
      (''manifest_version'', fieldDec decInt EManifestVersion (\<lambda>v. EManifestVersion_update (\<lambda>_. v))),
      (''origin'', fieldDec (decPtr (decStruct originFields) zeroOrigin) Origin (\<lambda>v. Origin_update (\<lambda>_. v))),
      (''payload'', fieldDec decRaw Payload (\<lambda>v. Payload_update (\<lambda>_. v))),
      (''error'', fieldDec decString EError (\<lambda>v. EError_update (\<lambda>_. v)))]"

definition unmarshalEnvelope :: "bytes \<Rightarrow> envelope option" where
  "unmarshalEnvelope b = unmarshal (decStruct envelopeFields) emptyEnvelope b"

definition jsonCodec :: codec where
  "jsonCodec = \<lparr> emarshal = marshalEnvelope, eunmarshal = unmarshalEnvelope \<rparr>"

section \<open>Well-typed envelopes\<close>

definition typedOrigin :: "origin \<Rightarrow> bool" where
  "typedOrigin og = validUTF8 (Node og)"

text \<open>The payload is nested one level below the envelope.\<close>

definition payloadDepth :: nat where
  "payloadDepth = maxNestingDepth - 1"

definition typedEnvelope :: "envelope \<Rightarrow> bool" where
  "typedEnvelope e =
     (validUTF8 (EType e) \<and> validUTF8 (ReqID e) \<and> validUTF8 (EMethod e) \<and> validUTF8 (AppID e)
      \<and> int64 (EManifestVersion e) \<and> (case Origin e of None \<Rightarrow> True | Some og \<Rightarrow> typedOrigin og)
      \<and> (Payload e = [] \<or> isValue payloadDepth (Payload e)) \<and> validUTF8 (EError e))"

definition compactPayload :: "envelope \<Rightarrow> bool" where
  "compactPayload e = (compactText False (Payload e) = Payload e)"

lemma depths: "Suc payloadDepth = maxNestingDepth" "payloadDepth \<le> maxNestingDepth" "1 \<le> payloadDepth"
  by (simp_all add: payloadDepth_def maxNestingDepth_def)

lemmas record_field = fieldDec_def decMembers_field decMembers_omit validUTF8_ascii lookupField_def

interpretation jo: json_codec originJSON "decStruct originFields" zeroOrigin typedOrigin 1
proof unfold_locales
  fix og :: origin
  have v: "\<forall>m \<in> set [(''node'', jsonQuote (Node og)), (''node_id'', showNat (unat (NodeID og))),
      (''authenticated'', jsonBool (Authenticated og)), (''trusted'', jsonBool (Trusted og))]. isValue d (snd m)" for d
    by simp
  show "isValue 1 (originJSON og)"
    using isValue_jsonObj[OF v[of 0]] by (simp add: originJSON_def)
  show "tight (originJSON og)"
    unfolding originJSON_def
    by (rule tight_jsonObj) (auto simp: tight_jsonQuote tight_jsonBool tight_showNat)
  assume "typedOrigin og"
  then show "decStruct originFields (originJSON og) zeroOrigin = Some og"
    unfolding originJSON_def decStruct_jsonObj[OF v]
    by (simp add: typedOrigin_def originFields_def zeroOrigin_def lookupField_def fieldDec_def validUTF8_ascii)
qed (simp add: maxNestingDepth_def)


lemma envMembers_values:
  assumes "Payload e = [] \<or> isValue payloadDepth (Payload e)"
  shows "\<forall>m \<in> set (envMembers e (Payload e)). isValue payloadDepth (snd m)"
proof -
  have "isValue payloadDepth (originJSON og)" for og
    using isValue_mono[OF depths(3)] isValue_jsonObj[of _ 0] by (simp add: originJSON_def)
  then show ?thesis
    using assms by (auto simp: envMembers_def omitIf_def split: option.split)
qed

lemma envelope_lookup:
  "lookupField envelopeFields ''type'' = Some (fieldDec decString EType (\<lambda>v. EType_update (\<lambda>_. v)))"
  "lookupField envelopeFields ''req_id'' = Some (fieldDec decString ReqID (\<lambda>v. ReqID_update (\<lambda>_. v)))"
  "lookupField envelopeFields ''method'' = Some (fieldDec decString EMethod (\<lambda>v. EMethod_update (\<lambda>_. v)))"
  "lookupField envelopeFields ''app_id'' = Some (fieldDec decString AppID (\<lambda>v. AppID_update (\<lambda>_. v)))"
  "lookupField envelopeFields ''manifest_version'' =
     Some (fieldDec decInt EManifestVersion (\<lambda>v. EManifestVersion_update (\<lambda>_. v)))"
  "lookupField envelopeFields ''origin'' =
     Some (fieldDec (decPtr (decStruct originFields) zeroOrigin) Origin (\<lambda>v. Origin_update (\<lambda>_. v)))"
  "lookupField envelopeFields ''payload'' = Some (fieldDec decRaw Payload (\<lambda>v. Payload_update (\<lambda>_. v)))"
  "lookupField envelopeFields ''error'' = Some (fieldDec decString EError (\<lambda>v. EError_update (\<lambda>_. v)))"
  by (simp_all add: lookupField_def envelopeFields_def)

lemma envelope_keys:
  "validUTF8 ''type''" "validUTF8 ''req_id''" "validUTF8 ''method''" "validUTF8 ''app_id''"
  "validUTF8 ''manifest_version''" "validUTF8 ''origin''" "validUTF8 ''payload''" "validUTF8 ''error''"
  by (simp_all add: validUTF8_ascii)

interpretation je: json_reader "\<lambda>e. jsonObj (envMembers e (Payload e))" "decStruct envelopeFields"
  emptyEnvelope typedEnvelope maxNestingDepth
proof unfold_locales
  fix e :: envelope
  assume t: "typedEnvelope e"
  then have v: "\<forall>m \<in> set (envMembers e (Payload e)). isValue payloadDepth (snd m)"
    by (intro envMembers_values) (simp add: typedEnvelope_def)
  then show "isValue maxNestingDepth (jsonObj (envMembers e (Payload e)))"
    using isValue_jsonObj depths(1) by metis
  have vm: "\<forall>m \<in> set (envMembers e (Payload e)). isValue maxNestingDepth (snd m)"
    using v isValue_mono[OF depths(2)] by blast
  have og: "decStruct originFields (originJSON og) zeroOrigin = Some og" "\<not> isNull (originJSON og)"
    if "Origin e = Some og" for og
    using jo.reads[of og] t that by (simp_all add: typedEnvelope_def originJSON_def jsonObj_def isNull_def)
  show "decStruct envelopeFields (jsonObj (envMembers e (Payload e))) emptyEnvelope = Some e"
    unfolding decStruct_jsonObj[OF vm]
    using t og
    by (cases e)
      (auto simp: envMembers_def decMembers_append decMembers_omit decMembers_field[where ms = "[_]"] envelope_lookup
        envelope_keys fieldDec_def typedEnvelope_def emptyEnvelope_def int64_def decPtr_def split: option.splits)
qed simp


section \<open>The decoder returns well-typed envelopes\<close>

lemma decOrigin_typed:
  assumes "decStruct originFields raw og = Some og'" and "isValue (Suc d) raw" and "Suc d \<le> maxNestingDepth"
    and "typedOrigin og"
  shows "typedOrigin og'"
proof (rule decStruct_inv[where P = typedOrigin, OF _ assms(2,3,4,1)])
  fix dec v r r'
  assume "dec \<in> snd ` set originFields" and "typedOrigin r" and "dec v r = Some r'"
  then show "typedOrigin r'"
    using decString_valid[of v "Node r"]
    by (auto simp: originFields_def fieldDec_def typedOrigin_def)
qed

lemma envelope_field_typed:
  assumes "dec \<in> snd ` set envelopeFields" and "isValue payloadDepth v" and "typedEnvelope e" and "dec v e = Some e'"
  shows "typedEnvelope e'"
proof -
  have og: "typedOrigin og" if "decStruct originFields v (case Origin e of None \<Rightarrow> zeroOrigin | Some og \<Rightarrow> og) = Some og" for og
  proof -
    have "Suc (payloadDepth - 1) = payloadDepth" using depths(3) by simp
    moreover have "typedOrigin (case Origin e of None \<Rightarrow> zeroOrigin | Some og \<Rightarrow> og)"
      using assms(3) by (auto simp: typedEnvelope_def typedOrigin_def zeroOrigin_def split: option.split)
    ultimately show ?thesis using decOrigin_typed[OF that] assms(2) depths(2) by metis
  qed
  have i: "int64 i" if "decInt v (EManifestVersion e) = Some i" for i
    using that assms(3) atoi_int64[of v i] by (auto simp: decInt_def int64_def typedEnvelope_def split: if_splits)
  from assms(1,3,4) show ?thesis
    unfolding envelopeFields_def
    using assms(2) og i decString_valid[of v]
    by (auto simp: fieldDec_def typedEnvelope_def decRaw_def decPtr_def split: if_splits)
qed

lemma unmarshal_typed:
  assumes "unmarshalEnvelope b = Some e"
  shows "typedEnvelope e"
proof -
  obtain v where v: "isValue maxNestingDepth v" "decStruct envelopeFields v emptyEnvelope = Some e"
    using assms unfolding unmarshalEnvelope_def by (rule unmarshalE)
  have "typedEnvelope emptyEnvelope" by (simp add: typedEnvelope_def emptyEnvelope_def int64_def)
  then show ?thesis
    using decStruct_inv[where P = typedEnvelope and d = payloadDepth, OF envelope_field_typed _ _ _ v(2)] v(1) depths by simp
qed

lemma typed_marshals: "typedEnvelope e \<Longrightarrow> marshalEnvelope e \<noteq> None"
  using checkValid_value isValue_mono[OF depths(2)]
  by (auto simp: marshalEnvelope_def typedEnvelope_def compact_def)

lemma marshal_compact:
  assumes "typedEnvelope e" and "compactPayload e"
  shows "marshalEnvelope e = Some (jsonObj (envMembers e (Payload e)))"
proof (cases "Payload e = []")
  case False
  then have "compact (Payload e) = Some (Payload e)"
    using assms depths(2) by (intro compact_canonical) (auto simp: typedEnvelope_def compactPayload_def canonical_def)
  then show ?thesis using False by (simp add: marshalEnvelope_def)
qed (simp add: marshalEnvelope_def)

lemma unmarshal_marshal:
  assumes "typedEnvelope e" and "compactPayload e" and "marshalEnvelope e = Some b"
  shows "unmarshalEnvelope b = Some e"
  using assms je.unmarshal_print[OF assms(1)] marshal_compact by (simp add: unmarshalEnvelope_def)


lemma decodes_json:
  assumes "typedEnvelope e" and "compactPayload e" and "length (the (marshalEnvelope e)) \<le> MaxFrameSize"
  shows "decodes jsonCodec e"
  using assms je.print_not_Nil[OF assms(1)] marshal_compact[OF assms(1,2)] unmarshal_marshal[OF assms(1,2)]
  by (simp add: decodes_def roundtrips_def encodesTo_def jsonCodec_def)

text \<open>A bound on the text from the sizes of the fields.\<close>

definition textSize :: "envelope \<Rightarrow> nat" where
  "textSize e = length (EType e) + length (ReqID e) + length (EMethod e) + length (AppID e) + length (EError e)
     + (case Origin e of None \<Rightarrow> 0 | Some og \<Rightarrow> length (Node og))"

lemma length_originJSON: "length (originJSON og) \<le> 6 * length (Node og) + 230"
proof -
  have "length (jsonBool b) \<le> 5" for b by (simp add: jsonBool_def)
  note this[of "Authenticated og"] this[of "Trusted og"]
  then show ?thesis
    unfolding originJSON_def
    by (intro order_trans[OF length_jsonObj])
      (use length_jsonQuote[of "Node og"] length_showWord[of "NodeID og"] in simp)
qed

lemma length_marshal:
  assumes "typedEnvelope e" and "compactPayload e"
  shows "length (the (marshalEnvelope e)) \<le> 6 * textSize e + length (Payload e) + 1000"
proof -
  let ?w = "\<lambda>m :: string \<times> bytes. 6 * length (fst m) + length (snd m) + 4"
  have o: "sum_list (map ?w (omitIf b m)) \<le> ?w m" for b m by (simp add: omitIf_def)
  have og: "length (case Origin e of None \<Rightarrow> ''null'' | Some og \<Rightarrow> originJSON og) \<le>
      6 * (case Origin e of None \<Rightarrow> 0 | Some og \<Rightarrow> length (Node og)) + 230"
    using length_originJSON by (auto split: option.split)
  have i: "length (showInt (EManifestVersion e)) \<le> 20" using assms(1) by (simp add: length_showInt typedEnvelope_def)
  note q = length_jsonQuote[of "EType e"] length_jsonQuote[of "ReqID e"] length_jsonQuote[of "EMethod e"]
    length_jsonQuote[of "AppID e"] length_jsonQuote[of "EError e"]
  have "sum_list (map ?w (envMembers e (Payload e))) \<le> 6 * textSize e + length (Payload e) + 990"
    using q i og o[of "EMethod e = []" "(''method'', jsonQuote (EMethod e))"] o[of "AppID e = []" "(''app_id'', jsonQuote (AppID e))"]
      o[of "EManifestVersion e = 0" "(''manifest_version'', showInt (EManifestVersion e))"]
      o[of "Origin e = None" "(''origin'', case Origin e of None \<Rightarrow> ''null'' | Some og \<Rightarrow> originJSON og)"]
      o[of "Payload e = []" "(''payload'', Payload e)"] o[of "EError e = []" "(''error'', jsonQuote (EError e))"]
    by (simp add: envMembers_def textSize_def)
  then show ?thesis
    unfolding marshal_compact[OF assms] using length_jsonObj[of "envMembers e (Payload e)"] by simp
qed

lemma decodes_small:
  assumes "typedEnvelope e" and "compactPayload e" and "6 * textSize e + length (Payload e) + 1000 \<le> MaxFrameSize"
  shows "decodes jsonCodec e"
  using assms length_marshal[OF assms(1,2)] by (intro decodes_json) auto

section \<open>Servers over the codec\<close>

text \<open>A handler whose payloads are absent or one JSON value; its error texts may be any bytes.\<close>

definition jsonHandler :: "'st handler \<Rightarrow> bool" where
  "jsonHandler h = (\<forall>st req st' p. h st req = (st', Inr p) \<longrightarrow> p = [] \<or> checkValid p)"

locale json_server =
  fixes d :: "'st dispatcher"
  assumes handlers: "d m = Some h \<Longrightarrow> jsonHandler h"
begin

lemma reply_encodes: "marshalEnvelope (snd (dispatchOne d st req)) \<noteq> None"
proof (cases "d (EMethod req)")
  case None
  then show ?thesis by (simp add: dispatchOne_def marshalEnvelope_def emptyEnvelope_def)
next
  case (Some h)
  obtain st' out where o: "h st req = (st', out)" by fastforce
  then have "out = Inr p \<Longrightarrow> p = [] \<or> checkValid p" for p
    using handlers[OF Some] unfolding jsonHandler_def by blast
  then show ?thesis
    using Some o by (auto simp: dispatchOne_def marshalEnvelope_def emptyEnvelope_def compact_def split: sum.splits)
qed

text \<open>Whatever bytes arrive, every reply can be encoded: the loop never ends because of one that cannot.\<close>

lemma Serve_encodes:
  "snd (snd (Serve ctxErr jsonCodec d k c st)) \<noteq> Some (ServeWrite MarshalEnvelope)"
proof (induction "length (unread c)" arbitrary: k c st rule: less_induct)
  case less
  show ?case
  proof (cases "ctxErr k")
    case None
    obtain c1 res where rd: "ReadFrame jsonCodec c = (c1, res)" by fastforce
    show ?thesis
    proof (cases res)
      case (Inl err)
      then show ?thesis using None rd by (subst Serve.simps) simp
    next
      case (Inr req)
      have lt: "length (unread c1) < length (unread c)" using ReadFrame_shrinks rd Inr by blast
      obtain st' reply where dr: "dispatchOne d st req = (st', reply)" by fastforce
      have m: "marshalEnvelope reply \<noteq> None"
        using reply_encodes[of st req] dr by simp
      obtain c2 e where w: "WriteFrame jsonCodec reply c1 = (c2, e)" by fastforce
      then have e: "e \<noteq> Some MarshalEnvelope"
        using m by (auto simp: WriteFrame_def jsonCodec_def split: prod.splits option.splits if_splits)
      have "length (unread c2) < length (unread c)" using lt WriteFrame_unreadD[OF w] by simp
      then show ?thesis
        using None rd Inr dr w e lt less.hyps[of c1 "Suc k" st] less.hyps[of c2 "Suc k" st']
        by (subst Serve.simps) (auto split: option.split)
    qed
  qed (subst Serve.simps, simp)
qed

end


text \<open>A payload that is not JSON cannot be encoded: the request is not answered at all, and the loop ends.\<close>

lemma invalid_payload_unanswered:
  assumes "ctxErr k = None" and "ReadFrame jsonCodec c = (c1, Inr req)" and "EType req = EnvReq"
    and "d (EMethod req) = Some h" and "h st req = (st', Inr p)" and "p \<noteq> []" and "\<not> checkValid p"
  shows "Serve ctxErr jsonCodec d k c st = (c1, st', Some (ServeWrite MarshalEnvelope))"
  using assms
  by (subst Serve.simps)
    (simp add: dispatchOne_def WriteFrame_def jsonCodec_def marshalEnvelope_def compact_def emptyEnvelope_def)

section \<open>Properties\<close>

text \<open>A request as a peer may write it: with space, members in another order, an unknown member, an
  escaped letter and a field name in capitals.\<close>

definition looseRequest :: bytes where
  "looseRequest = ''{\"req_id\": \"01\", \"METHOD\":\"'' @ escU ''0065'' @
     ''cho\", \"extra\": [1, null], \"payload\": {\"n\": [1, 2.5e3]}, \"type\":\"req\"}''"

definition looseMembers :: "(bytes \<times> bytes) list" where
  "looseMembers = [(''req_id'', ''\"01\"''), (''METHOD'', [dquote] @ escU ''0065'' @ ''cho\"''), (''extra'', ''[1, null]''),
     (''payload'', ''{\"n\": [1, 2.5e3]}''), (''type'', ''\"req\"'')]"

lemma loose_members: "bracketed (member (skipValue 2)) (CHR ''}'') (drop 1 looseRequest) = Some (looseMembers, [])"
  by code_simp

definition looseEnvelope :: envelope where
  "looseEnvelope = emptyEnvelope\<lparr>EType := EnvReq, ReqID := ''01'', EMethod := ''echo'', Payload := ''{\"n\": [1, 2.5e3]}''\<rparr>"

lemma folded:
  "foldName ''type'' = ''TYPE''" "foldName ''req_id'' = ''REQ_ID''" "foldName ''method'' = ''METHOD''"
  "foldName ''app_id'' = ''APP_ID''" "foldName ''manifest_version'' = ''MANIFEST_VERSION''" "foldName ''origin'' = ''ORIGIN''"
  "foldName ''payload'' = ''PAYLOAD''" "foldName ''error'' = ''ERROR''" "foldName ''METHOD'' = ''METHOD''"
  "foldName ''extra'' = ''EXTRA''"
  by code_simp+

lemma loose_lookup:
  "lookupField envelopeFields ''METHOD'' = Some (fieldDec decString EMethod (\<lambda>v. EMethod_update (\<lambda>_. v)))"
  "lookupField envelopeFields ''extra'' = None"
  by (simp_all add: lookupField_def envelopeFields_def folded del: foldName.simps)

lemma loose_keys:
  "unquote ''req_id'' = Some ''req_id''" "unquote ''METHOD'' = Some ''METHOD''" "unquote ''extra'' = Some ''extra''"
  "unquote ''payload'' = Some ''payload''" "unquote ''type'' = Some ''type''"
  by (simp_all add: unquote.simps(2) special_iff)

lemma loose_strings:
  "decString ''\"01\"'' x = Some ''01''" "decString (dquote # escU ''0065'' @ ''cho\"'') x = Some ''echo''"
  "decString ''\"req\"'' x = Some ''req''"
  by (simp_all add: decString_def isNull_def unquote.simps(2) unescape_def getu4_def hex4_def hexVal_def between_def
      isSurrogate_def encodeRune_def char_of_eq_iff escU_def dquote_def bslash_def)

lemma loose_decodes: "unmarshalEnvelope looseRequest = Some looseEnvelope"
proof -
  have "looseRequest = CHR ''{'' # drop 1 looseRequest" by (simp add: looseRequest_def)
  moreover have "decMembers envelopeFields looseMembers emptyEnvelope = Some looseEnvelope"
    by (simp only: looseMembers_def decMembers.simps loose_keys loose_strings loose_lookup envelope_lookup fieldDec_def
        option.simps fst_conv snd_conv append.simps decRaw_def)
      (simp add: emptyEnvelope_def looseEnvelope_def EnvReq_def)
  ultimately show ?thesis
    using unmarshal_members[OF loose_members, of envelopeFields emptyEnvelope]
    by (simp add: unmarshalEnvelope_def maxNestingDepth_def)
qed

text \<open>C18. The decoder of envelopes is type sound: whatever bytes a peer sends, an envelope they decode to has
  well-formed UTF-8 in every string, a version in the range of an int and a payload that is absent or one JSON
  value, and it can be encoded again.\<close>

theorem envelope_type_sound:
  assumes "unmarshalEnvelope b = Some e"
  shows "typedEnvelope e \<and> marshalEnvelope e \<noteq> None"
  using unmarshal_typed[OF assms] typed_marshals by blast

theorem envelope_type_sound_witness:
  "unmarshalEnvelope looseRequest = Some looseEnvelope \<and> typedEnvelope looseEnvelope \<and> marshalEnvelope looseEnvelope \<noteq> None"
  using envelope_type_sound[OF loose_decodes] loose_decodes by blast


text \<open>The envelope of a call by a node whose name has an accent and a line break.\<close>

definition attestedEnvelope :: envelope where
  "attestedEnvelope = emptyEnvelope\<lparr>EType := EnvReq, ReqID := ''01'', EMethod := ''<echo>'', EManifestVersion := -3,
     Origin := Some \<lparr> Node = [CHR 0xC3, CHR 0xA9, CHR 0x0A], NodeID = 4294967295, Authenticated = True, Trusted = False \<rparr>,
     Payload := jsonArr [jsonBool True]\<rparr>"

lemma attested_typed: "typedEnvelope attestedEnvelope" "compactPayload attestedEnvelope"
proof -
  have v: "isValue payloadDepth (jsonArr [jsonBool True])"
    using isValue_jsonArr[of "[jsonBool True]" 0] isValue_mono[OF depths(3)] by simp
  have "validUTF8 [CHR 0xC3, CHR 0xA9, CHR 0x0A]" by code_simp
  then show "typedEnvelope attestedEnvelope"
    using v by (simp add: typedEnvelope_def attestedEnvelope_def emptyEnvelope_def EnvReq_def int64_def typedOrigin_def validUTF8_ascii)
  have "compactText False (jsonArr [jsonBool True]) = jsonArr [jsonBool True]"
    by code_simp
  then show "compactPayload attestedEnvelope"
    by (simp add: compactPayload_def attestedEnvelope_def)
qed


end
