(* ===== verification/Hello.thy ===== *)
theory Hello
  imports Broker Envelope
begin

text \<open>
  The example app of \<^verbatim>\<open>examples/hello-world/cmd/hello/main.go\<close>, over the JSON codec and the IPC server, and
  its place in the system: started with the arguments and the environment the supervisor gives it, it listens where
  the broker dials, and a call of \<^verbatim>\<open>hello.echo\<close> through the broker, over the bytes of the frames, comes back
  with the message and the trust regime the supervisor put the app in. Package \<^verbatim>\<open>flag\<close> is modelled as far as
  string flags go; the socket calls of the system and the texts of JSON errors are parameters.
\<close>

section \<open>Flags\<close>

datatype flagErr = BadSyntax string | NotDefined string | NeedsArgument string | HelpRequested

text \<open>\<^verbatim>\<open>FlagSet.Parse\<close> with string flags: the values and the arguments left over.\<close>

fun parseFlags :: "string list \<Rightarrow> (string \<Rightarrow> string) \<Rightarrow> string list \<Rightarrow> flagErr + (string \<Rightarrow> string) \<times> string list" where
  "parseFlags names vals [] = Inr (vals, [])"
| "parseFlags names vals (s # args) =
     (if length s < 2 \<or> hd s \<noteq> CHR ''-'' then Inr (vals, s # args)
      else if s = ''--'' then Inr (vals, args)
      else (let name = (if s ! 1 = CHR ''-'' then drop 2 s else drop 1 s) in
        if name = [] \<or> hd name = CHR ''-'' \<or> hd name = CHR ''='' then Inl (BadSyntax s)
        else (let key = hd name # takeWhile (\<lambda>c. c \<noteq> CHR ''='') (tl name);
                  eq = dropWhile (\<lambda>c. c \<noteq> CHR ''='') (tl name)
              in if key \<notin> set names
                 then Inl (if key = ''help'' \<or> key = ''h'' then HelpRequested else NotDefined key)
                 else if eq \<noteq> [] then parseFlags names (vals(key := tl eq)) args
                 else (case args of
                   [] \<Rightarrow> Inl (NeedsArgument key)
                 | v # args' \<Rightarrow> parseFlags names (vals(key := v)) args'))))"

declare parseFlags.simps(2) [simp del]

section \<open>The echo method\<close>

definition methodEcho :: string where "methodEcho = ''hello.echo''"
definition envSideloaded :: string where "envSideloaded = ''PILOT_SIDELOAD''"

record echoReq =
  Message :: string

record echoResp =
  Echo :: string
  EchoSideloaded :: bool

definition echoReqFields :: "echoReq fields" where
  "echoReqFields = [(''message'', fieldDec decString Message (\<lambda>v. Message_update (\<lambda>_. v)))]"

definition echoRespJSON :: "echoResp \<Rightarrow> bytes" where
  "echoRespJSON r = jsonObj [(''echo'', jsonQuote (Echo r)), (''sideloaded'', jsonBool (EchoSideloaded r))]"

text \<open>\<open>jsonText\<close> is the text of the error \<^verbatim>\<open>json.Unmarshal\<close> reports for a payload. Encoding a response
  never fails.\<close>

definition echoHandler :: "(bytes \<Rightarrow> string) \<Rightarrow> bool \<Rightarrow> unit handler" where
  "echoHandler jsonText sideloaded st req =
     (if length (Payload req) > 0 then
        (case unmarshal (decStruct echoReqFields) \<lparr>Message = []\<rparr> (Payload req) of
           None \<Rightarrow> (st, Inl (''decode echo args: '' @ jsonText (Payload req)))
         | Some args \<Rightarrow> (st, Inr (echoRespJSON \<lparr> Echo = Message args, EchoSideloaded = sideloaded \<rparr>)))
      else (st, Inr (echoRespJSON \<lparr> Echo = [], EchoSideloaded = sideloaded \<rparr>)))"

definition helloDispatcher :: "(bytes \<Rightarrow> string) \<Rightarrow> bool \<Rightarrow> unit dispatcher" where
  "helloDispatcher jsonText sideloaded =
     RegisterHandler NewDispatcher methodEcho (echoHandler jsonText sideloaded)"

section \<open>The program\<close>

datatype removeResult = Removed | NotExist | RemoveFailed string

text \<open>The process: its arguments after the program name, its environment, removing a file, listening on a
  socket (with the text of the error, if any), and the texts of JSON errors.\<close>

record helloProcess =
  osArgs :: "string list"
  osEnviron :: "string list"
  osRemove :: "string \<Rightarrow> removeResult"
  netListen :: "string \<Rightarrow> string option"
  jsonErrText :: "bytes \<Rightarrow> string"

text \<open>\<^verbatim>\<open>os.Getenv\<close>: the last entry for a key is the one the process gets from \<^verbatim>\<open>exec\<close>.\<close>

definition getenv :: "string list \<Rightarrow> string \<Rightarrow> string" where
  "getenv environ key =
     (let kvs = filter (\<lambda>kv. hasPrefix kv (key @ ''='')) environ
      in if kvs = [] then [] else drop (length key + 1) (last kvs))"

datatype helloStart =
    HelloExit nat
  | HelloFatal string
  | HelloServing string bool "unit dispatcher"

definition helloFlags :: "string list" where
  "helloFlags = [''addr'', ''db'', ''socket'', ''identity'', ''manifest'', ''cap-state'']"

text \<open>\<^verbatim>\<open>main\<close> up to the accept loop. \<^verbatim>\<open>flag.ExitOnError\<close> exits with 0 after printing the help and with 2 on
  an error.\<close>

definition helloMain :: "helloProcess \<Rightarrow> helloStart" where
  "helloMain os =
     (case parseFlags helloFlags (\<lambda>_. []) (osArgs os) of
        Inl e \<Rightarrow> HelloExit (if e = HelpRequested then 0 else 2)
      | Inr (vals, rest) \<Rightarrow>
          (let sockPath = vals ''socket'' in
           if sockPath = [] then HelloFatal ''supervisor did not pass --socket; refusing to start''
           else (let sideloaded = (getenv (osEnviron os) envSideloaded = ''1'') in
             case osRemove os sockPath of
               RemoveFailed e \<Rightarrow> HelloFatal (''remove stale socket: '' @ e)
             | _ \<Rightarrow>
                 (case netListen os sockPath of
                    Some e \<Rightarrow> HelloFatal (''listen: '' @ e)
                  | None \<Rightarrow> HelloServing sockPath sideloaded (helloDispatcher (jsonErrText os) sideloaded)))))"

text \<open>The accept loop and the goroutine that waits for a signal, as the events they see: a connection with
  what its context reports over time, a failed accept, a signal. The signal goroutine runs once.\<close>

datatype acceptEvent = Accepted "nat \<Rightarrow> string option" conn | AcceptFailed string | Signalled

datatype helloNote = ShutdownReceived | AcceptErr string | ServeErr serveErr

record helloRun =
  cancelled :: bool
  helloNotes :: "helloNote list"
  closed :: "conn list"
  returned :: bool

definition acceptOne :: "unit dispatcher \<Rightarrow> acceptEvent \<Rightarrow> helloRun \<Rightarrow> helloRun" where
  "acceptOne d ev r =
     (if returned r then r
      else case ev of
        Signalled \<Rightarrow> if cancelled r then r else r\<lparr>cancelled := True, helloNotes := helloNotes r @ [ShutdownReceived]\<rparr>
      | AcceptFailed e \<Rightarrow> if cancelled r then r\<lparr>returned := True\<rparr> else r\<lparr>helloNotes := helloNotes r @ [AcceptErr e]\<rparr>
      | Accepted ctxErr c \<Rightarrow>
          (case Serve ctxErr jsonCodec d 0 c () of
             (c', _, err) \<Rightarrow> r\<lparr>closed := closed r @ [c'],
               helloNotes := helloNotes r @ (case err of None \<Rightarrow> [] | Some e \<Rightarrow> [ServeErr e])\<rparr>))"

definition acceptLoop :: "unit dispatcher \<Rightarrow> acceptEvent list \<Rightarrow> helloRun" where
  "acceptLoop d evs = fold (acceptOne d) evs \<lparr> cancelled = False, helloNotes = [], closed = [], returned = False \<rparr>"

section \<open>Codecs of the method\<close>

definition echoReqJSON :: "echoReq \<Rightarrow> bytes" where
  "echoReqJSON r = jsonObj [(''message'', jsonQuote (Message r))]"

definition echoRespFields :: "echoResp fields" where
  "echoRespFields =
     [(''echo'', fieldDec decString Echo (\<lambda>v. Echo_update (\<lambda>_. v))),
      (''sideloaded'', fieldDec decBool EchoSideloaded (\<lambda>v. EchoSideloaded_update (\<lambda>_. v)))]"

interpretation jq: json_codec echoReqJSON "decStruct echoReqFields" "\<lparr>Message = []\<rparr>" "\<lambda>r. validUTF8 (Message r)" 1
proof unfold_locales
  fix r :: echoReq
  have v: "\<forall>m \<in> set [(''message'', jsonQuote (Message r))]. isValue d (snd m)" for d by simp
  show "isValue 1 (echoReqJSON r)" using isValue_jsonObj[OF v[of 0]] by (simp add: echoReqJSON_def)
  show "tight (echoReqJSON r)" unfolding echoReqJSON_def by (rule tight_jsonObj) (simp add: tight_jsonQuote)
  assume "validUTF8 (Message r)"
  then show "decStruct echoReqFields (echoReqJSON r) \<lparr>Message = []\<rparr> = Some r"
    unfolding echoReqJSON_def decStruct_jsonObj[OF v]
    by (simp add: echoReqFields_def lookupField_def fieldDec_def validUTF8_ascii)
qed (simp add: maxNestingDepth_def)

interpretation jp: json_codec echoRespJSON "decStruct echoRespFields" "\<lparr>Echo = [], EchoSideloaded = False\<rparr>"
  "\<lambda>r. validUTF8 (Echo r)" 1
proof unfold_locales
  fix r :: echoResp
  have v: "\<forall>m \<in> set [(''echo'', jsonQuote (Echo r)), (''sideloaded'', jsonBool (EchoSideloaded r))]. isValue d (snd m)" for d
    by simp
  show "isValue 1 (echoRespJSON r)" using isValue_jsonObj[OF v[of 0]] by (simp add: echoRespJSON_def)
  show "tight (echoRespJSON r)"
    unfolding echoRespJSON_def by (rule tight_jsonObj) (auto simp: tight_jsonQuote tight_jsonBool)
  assume "validUTF8 (Echo r)"
  then show "decStruct echoRespFields (echoRespJSON r) \<lparr>Echo = [], EchoSideloaded = False\<rparr> = Some r"
    unfolding echoRespJSON_def decStruct_jsonObj[OF v]
    by (simp add: echoRespFields_def lookupField_def fieldDec_def validUTF8_ascii)
qed (simp add: maxNestingDepth_def)

section \<open>The server of the app\<close>

lemma echo_out:
  assumes "validUTF8 m" and "Payload req = echoReqJSON \<lparr>Message = m\<rparr>"
  shows "echoHandler jsonText sl st req = (st, Inr (echoRespJSON \<lparr> Echo = m, EchoSideloaded = sl \<rparr>))"
  using assms jq.print_not_Nil[of "\<lparr>Message = m\<rparr>"] jq.unmarshal_print[of "\<lparr>Message = m\<rparr>"] by (simp add: echoHandler_def)

lemma echoRespJSON_valid: "checkValid (echoRespJSON r)"
proof -
  have "isValue 1 (echoRespJSON r)"
    using isValue_jsonObj[of "[(''echo'', jsonQuote (Echo r)), (''sideloaded'', jsonBool (EchoSideloaded r))]" 0]
    by (simp add: echoRespJSON_def)
  then show ?thesis using isValue_mono[of 1 maxNestingDepth] by (intro checkValid_value) (simp add: maxNestingDepth_def)
qed

interpretation hello: json_server "helloDispatcher jsonText sideloaded" for jsonText sideloaded
proof unfold_locales
  fix m h
  assume "helloDispatcher jsonText sideloaded m = Some h"
  then have "h = echoHandler jsonText sideloaded"
    by (auto simp: helloDispatcher_def RegisterHandler_def NewDispatcher_def split: if_splits)
  then show "jsonHandler h"
    using echoRespJSON_valid by (auto simp: jsonHandler_def echoHandler_def split: if_splits option.splits)
qed

section \<open>The start of the app\<close>

lemma parseFlags_pair:
  assumes "s = ''--'' @ key" and "key \<in> set names" and "key \<noteq> []" and "hd key \<noteq> CHR ''-''" and "CHR ''='' \<notin> set key"
  shows "parseFlags names vals (s # v # args) = parseFlags names (vals(key := v)) args"
proof -
  obtain c cs where k: "key = c # cs" using assms(3) by (cases key) auto
  then have cs: "takeWhile (\<lambda>c. c \<noteq> CHR ''='') cs = cs" "dropWhile (\<lambda>c. c \<noteq> CHR ''='') cs = []" and c: "c \<noteq> CHR ''=''"
    using assms(5) by (auto simp: takeWhile_eq_all_conv dropWhile_eq_Nil_conv)
  show ?thesis
    unfolding parseFlags.simps(2)[of names vals s "v # args"] using assms(1-4) k c by (simp add: Let_def cs)
qed

lemma helloFlags_pairs:
  "parseFlags helloFlags vals (''--addr'' # v # args) = parseFlags helloFlags (vals(''addr'' := v)) args"
  "parseFlags helloFlags vals (''--db'' # v # args) = parseFlags helloFlags (vals(''db'' := v)) args"
  "parseFlags helloFlags vals (''--socket'' # v # args) = parseFlags helloFlags (vals(''socket'' := v)) args"
  "parseFlags helloFlags vals (''--identity'' # v # args) = parseFlags helloFlags (vals(''identity'' := v)) args"
  "parseFlags helloFlags vals (''--manifest'' # v # args) = parseFlags helloFlags (vals(''manifest'' := v)) args"
  "parseFlags helloFlags vals (''--cap-state'' # v # args) = parseFlags helloFlags (vals(''cap-state'' := v)) args"
  by (rule parseFlags_pair; simp add: helloFlags_def)+

lemma spawnArgs_parsed:
  "\<exists>vals. parseFlags helloFlags v (spawnArgs env a) = Inr (vals, []) \<and> vals ''socket'' = SocketPath a"
  by (simp only: spawnArgs_def helloFlags_pairs parseFlags.simps(1)) simp

lemma getenv_spawned:
  "getenv (base @ spawnEnviron a) envSideloaded = (if Sideloaded a then ''1'' else getenv base envSideloaded)"
  by (auto simp: getenv_def spawnEnviron_def envSideloaded_def hasPrefix_def Let_def)

lemma hello_started:
  assumes "osArgs os = spawnArgs env a" and "osEnviron os = base @ spawnEnviron a" and "SocketPath a \<noteq> []"
    and "\<And>e. osRemove os (SocketPath a) \<noteq> RemoveFailed e" and "netListen os (SocketPath a) = None"
  shows "helloMain os = HelloServing (SocketPath a) (Sideloaded a \<or> getenv base envSideloaded = ''1'')
    (helloDispatcher (jsonErrText os) (Sideloaded a \<or> getenv base envSideloaded = ''1''))"
proof -
  obtain vals where "parseFlags helloFlags (\<lambda>_. []) (spawnArgs env a) = Inr (vals, [])" "vals ''socket'' = SocketPath a"
    using spawnArgs_parsed by blast
  moreover have "(getenv (base @ spawnEnviron a) envSideloaded = ''1'') \<longleftrightarrow> (Sideloaded a \<or> getenv base envSideloaded = ''1'')"
    by (simp add: getenv_spawned)
  ultimately show ?thesis
    using assms by (simp add: helloMain_def Let_def split: removeResult.split)
qed

lemma hello_serving_socket:
  assumes "osArgs os = spawnArgs env a" and "osEnviron os = base @ spawnEnviron a" and "helloMain os = HelloServing sock sl d"
  shows "sock = SocketPath a \<and> sl = (Sideloaded a \<or> getenv base envSideloaded = ''1'') \<and> d = helloDispatcher (jsonErrText os) sl"
proof -
  obtain vals where "parseFlags helloFlags (\<lambda>_. []) (spawnArgs env a) = Inr (vals, [])" "vals ''socket'' = SocketPath a"
    using spawnArgs_parsed by blast
  then show ?thesis
    using assms by (auto simp: helloMain_def Let_def getenv_spawned split: if_splits removeResult.splits option.splits)
qed

section \<open>A call through the broker\<close>

lemma length_echoReqJSON: "length (echoReqJSON \<lparr>Message = m\<rparr>) \<le> 6 * length m + 60"
  unfolding echoReqJSON_def by (intro order_trans[OF length_jsonObj]) (use length_jsonQuote[of m] in simp)

lemma length_echoRespJSON: "length (echoRespJSON \<lparr>Echo = m, EchoSideloaded = b\<rparr>) \<le> 6 * length m + 110"
proof -
  have "length (jsonBool b) \<le> 5" by (simp add: jsonBool_def)
  then show ?thesis
    unfolding echoRespJSON_def by (intro order_trans[OF length_jsonObj]) (use length_jsonQuote[of m] in simp)
qed

lemma payload_value: "isValue 1 p \<Longrightarrow> isValue payloadDepth p"
  using isValue_mono[OF depths(3)] by blast

lemma echo_request_decodes:
  assumes "validUTF8 rid" and "validUTF8 m" and "\<And>o'. og = Some o' \<Longrightarrow> typedOrigin o'"
    and "6 * (length rid + length m + (case og of None \<Rightarrow> 0 | Some o' \<Rightarrow> length (Node o'))) + 1200 \<le> 1048576"
  shows "decodes jsonCodec (requestEnvelope rid methodEcho og (echoReqJSON \<lparr>Message = m\<rparr>))"
proof (rule decodes_small)
  let ?e = "requestEnvelope rid methodEcho og (echoReqJSON \<lparr>Message = m\<rparr>)"
  have p: "isValue payloadDepth (echoReqJSON \<lparr>Message = m\<rparr>)" using jq.scans assms(2) by (intro payload_value) simp
  show "typedEnvelope ?e"
    using assms p by (auto simp: typedEnvelope_def requestEnvelope_def emptyEnvelope_def EnvReq_def methodEcho_def
        validUTF8_ascii int64_def split: option.split)
  show "compactPayload ?e"
    using jq.canonical_print[of "\<lparr>Message = m\<rparr>"] assms(2)
    by (simp add: compactPayload_def canonical_def requestEnvelope_def emptyEnvelope_def)
  show "6 * textSize ?e + length (Payload ?e) + 1000 \<le> MaxFrameSize"
    using assms(4) length_echoReqJSON[of m]
    by (simp add: textSize_def requestEnvelope_def emptyEnvelope_def EnvReq_def methodEcho_def MaxFrameSize_def)
qed

lemma echo_reply_decodes:
  assumes "validUTF8 rid" and "validUTF8 m" and "6 * (length rid + length m) + 1200 \<le> 1048576"
  shows "decodes jsonCodec (emptyEnvelope\<lparr>EType := EnvReply, ReqID := rid,
    Payload := echoRespJSON \<lparr>Echo = m, EchoSideloaded = sl\<rparr>\<rparr>)"
proof (rule decodes_small)
  let ?e = "emptyEnvelope\<lparr>EType := EnvReply, ReqID := rid, Payload := echoRespJSON \<lparr>Echo = m, EchoSideloaded = sl\<rparr>\<rparr>"
  have p: "isValue payloadDepth (echoRespJSON \<lparr>Echo = m, EchoSideloaded = sl\<rparr>)"
    using jp.scans assms(2) by (intro payload_value) simp
  show "typedEnvelope ?e"
    using assms p by (simp add: typedEnvelope_def emptyEnvelope_def EnvReply_def validUTF8_ascii int64_def)
  show "compactPayload ?e"
    using jp.canonical_print[of "\<lparr>Echo = m, EchoSideloaded = sl\<rparr>"] assms(2)
    by (simp add: compactPayload_def canonical_def emptyEnvelope_def)
  show "6 * textSize ?e + length (Payload ?e) + 1000 \<le> MaxFrameSize"
    using assms(3) length_echoRespJSON[of m sl]
    by (simp add: textSize_def emptyEnvelope_def EnvReply_def MaxFrameSize_def)
qed

lemma echo_delivered:
  assumes "authorized s callerID appID methodEcho app" and "reachable b s appID" and "bcodec b = jsonCodec"
    and "newReqID b = Some rid" and "serves b app (helloDispatcher txt sl) ()"
    and "validUTF8 rid" and "validUTF8 m" and "\<And>o'. og = Some o' \<Longrightarrow> typedOrigin o'"
    and size: "6 * (length rid + length m + (case og of None \<Rightarrow> 0 | Some o' \<Rightarrow> length (Node o'))) + 1200 \<le> 1048576"
  shows "outcome (callFrom b s callerID appID methodEcho (Some (Some (echoReqJSON \<lparr>Message = m\<rparr>)))
      (Some (unmarshal (decStruct echoRespFields) \<lparr>Echo = [], EchoSideloaded = False\<rparr>)) og) =
    Inr (Some \<lparr>Echo = m, EchoSideloaded = sl\<rparr>)"
proof -
  let ?og = "if callerID \<noteq> [] then None else og"
  let ?req = "requestEnvelope rid methodEcho ?og (echoReqJSON \<lparr>Message = m\<rparr>)"
  let ?resp = "echoRespJSON \<lparr>Echo = m, EchoSideloaded = sl\<rparr>"
  have h: "helloDispatcher txt sl methodEcho = Some (echoHandler txt sl)"
    by (simp add: helloDispatcher_def RegisterHandler_def)
  have out: "echoHandler txt sl () ?req = ((), Inr ?resp)"
    using assms(7) by (intro echo_out) (simp_all add: requestEnvelope_def)
  have f: "EMethod ?req = methodEcho" "ReqID ?req = rid" by (simp_all add: requestEnvelope_def)
  have "snd (dispatchOne (helloDispatcher txt sl) () ?req) = emptyEnvelope\<lparr>EType := EnvReply, ReqID := rid, Payload := ?resp\<rparr>"
    by (simp add: dispatchOne_def f h out)
  moreover have "6 * (length rid + length m) + 1200 \<le> 1048576" using size by simp
  ultimately have rep: "decodes (bcodec b) (snd (dispatchOne (helloDispatcher txt sl) () ?req))"
    using echo_reply_decodes[OF assms(6,7)] assms(3) by simp
  have req: "decodes (bcodec b) ?req"
    unfolding assms(3) using assms(6-9) by (intro echo_request_decodes) (auto split: if_splits)
  have ne: "?resp \<noteq> []" "unmarshal (decStruct echoRespFields) \<lparr>Echo = [], EchoSideloaded = False\<rparr> ?resp = Some \<lparr>Echo = m, EchoSideloaded = sl\<rparr>"
    using jp.print_not_Nil jp.unmarshal_print assms(7) by simp_all
  show ?thesis
    unfolding delivers[OF assms(1,2,5,4) h refl req rep] by (simp add: out ne)
qed

section \<open>Shutdown\<close>

lemma acceptLoop_invariant:
  "cancelled (acceptLoop d evs) = (Signalled \<in> set evs) \<or> returned (acceptLoop d evs)"
  "returned (acceptLoop d evs) \<longleftrightarrow> (\<exists>pre e post. evs = pre @ AcceptFailed e # post \<and> Signalled \<in> set pre)"
proof -
  have "(cancelled (acceptLoop d evs) = (Signalled \<in> set evs) \<or> returned (acceptLoop d evs)) \<and>
    (returned (acceptLoop d evs) \<longleftrightarrow> (\<exists>pre e post. evs = pre @ AcceptFailed e # post \<and> Signalled \<in> set pre))"
  proof (induction evs rule: rev_induct)
    case Nil
    then show ?case by (simp add: acceptLoop_def)
  next
    case (snoc ev evs)
    let ?r = "acceptLoop d evs"
    have step: "acceptLoop d (evs @ [ev]) = acceptOne d ev ?r" by (simp add: acceptLoop_def)
    have split: "(\<exists>pre e post. evs @ [ev] = pre @ AcceptFailed e # post \<and> Signalled \<in> set pre) \<longleftrightarrow>
        (\<exists>pre e post. evs = pre @ AcceptFailed e # post \<and> Signalled \<in> set pre) \<or> (\<exists>e. ev = AcceptFailed e) \<and> Signalled \<in> set evs"
      (is "?L \<longleftrightarrow> ?A \<or> ?B")
    proof
      assume ?L
      then obtain pre e post where p: "evs @ [ev] = pre @ AcceptFailed e # post" "Signalled \<in> set pre" by blast
      then show "?A \<or> ?B" by (cases post rule: rev_cases) auto
    next
      assume "?A \<or> ?B"
      then show ?L by (metis append.assoc append_Cons)
    qed
    show ?case
      unfolding step split using snoc.IH
      by (cases ev) (auto simp: acceptOne_def split: prod.split)
  qed
  then show "cancelled (acceptLoop d evs) = (Signalled \<in> set evs) \<or> returned (acceptLoop d evs)"
    "returned (acceptLoop d evs) \<longleftrightarrow> (\<exists>pre e post. evs = pre @ AcceptFailed e # post \<and> Signalled \<in> set pre)"
    by blast+
qed

section \<open>Properties\<close>

text \<open>C19. The example app end to end: the process the supervisor starts for an app, with the arguments and the
  environment it gives it, serves where the broker dials; an authorized call of \<^verbatim>\<open>hello.echo\<close> with any
  well-formed message that leaves room in a frame goes through the grant check, the JSON codec, the frames, the
  server loop and the handler, and returns exactly the message, with the trust regime of the app.\<close>

theorem hello_echo_brokered:
  assumes "osArgs os = spawnArgs env app" and "osEnviron os = base @ spawnEnviron app" and "helloMain os = HelloServing sock sl d"
    and "dial b sock = Inr (freshConn, serverPeer (\<lambda>_. None) jsonCodec d ())" and "bcodec b = jsonCodec" and "newReqID b = Some rid"
    and "authorized s callerID appID methodEcho app" and "reachable b s appID"
    and "validUTF8 rid" and "validUTF8 m" and "\<And>o'. og = Some o' \<Longrightarrow> typedOrigin o'"
    and "6 * (length rid + length m + (case og of None \<Rightarrow> 0 | Some o' \<Rightarrow> length (Node o'))) + 1200 \<le> 1048576"
  shows "outcome (callFrom b s callerID appID methodEcho (Some (Some (echoReqJSON \<lparr>Message = m\<rparr>)))
      (Some (unmarshal (decStruct echoRespFields) \<lparr>Echo = [], EchoSideloaded = False\<rparr>)) og) =
    Inr (Some \<lparr>Echo = m, EchoSideloaded = (Sideloaded app \<or> getenv base envSideloaded = ''1'')\<rparr>)"
proof -
  have h: "sock = SocketPath app" "sl = (Sideloaded app \<or> getenv base envSideloaded = ''1'')" "d = helloDispatcher (jsonErrText os) sl"
    using hello_serving_socket[OF assms(1-3)] by simp_all
  then have "serves b app (helloDispatcher (jsonErrText os) sl) ()"
    using assms(4,5) by (simp add: serves_def)
  from echo_delivered[OF assms(7,8,5,6) this assms(9-12)] show ?thesis unfolding h(2) .
qed

text \<open>The server of the example app answers whatever it is sent: over any bytes, any state of the context and
  any failure of the connection, its loop never ends because a reply could not be encoded.\<close>

theorem hello_replies_encode:
  "snd (snd (Serve ctxErr jsonCodec (helloDispatcher jsonText sideloaded) k c ())) \<noteq> Some (ServeWrite MarshalEnvelope)"
  by (rule hello.Serve_encodes)

definition helloApp :: installedApp where
  "helloApp = exampleApp\<lparr>Mf := exampleSideload\<lparr>Exposes := [''hello.echo'']\<rparr>\<rparr>"

definition helloSupervisor :: supervisor where
  "helloSupervisor = exampleSupervisor\<lparr>installed := [''io.pilot.hello'' \<mapsto> helloApp], ready := [''io.pilot.hello'' \<mapsto> True]\<rparr>"

definition helloOS :: helloProcess where
  "helloOS = \<lparr> osArgs = spawnArgs exampleSEnv helloApp, osEnviron = [''HOME=/root''] @ spawnEnviron helloApp,
     osRemove = (\<lambda>_. NotExist), netListen = (\<lambda>_. None), jsonErrText = (\<lambda>_. ''invalid'') \<rparr>"

definition helloTransport :: transport where
  "helloTransport = (transportTo echoDispatcher)\<lparr>bcodec := jsonCodec,
     dial := (\<lambda>p. if p = SocketPath helloApp
       then Inr (freshConn, serverPeer (\<lambda>_. None) jsonCodec (helloDispatcher (\<lambda>_. ''invalid'') True) ()) else Inl ''no such file'')\<rparr>"

theorem hello_echo_brokered_witness:
  "outcome (callFrom helloTransport helloSupervisor [] ''io.pilot.hello'' ''hello.echo'' (Some (Some (echoReqJSON \<lparr>Message = ''a<b''\<rparr>)))
      (Some (unmarshal (decStruct echoRespFields) \<lparr>Echo = [], EchoSideloaded = False\<rparr>)) None) =
    Inr (Some \<lparr>Echo = ''a<b'', EchoSideloaded = True\<rparr>)"
proof -
  have sl: "Sideloaded helloApp" by (simp add: helloApp_def exampleApp_def)
  have args: "osArgs helloOS = spawnArgs exampleSEnv helloApp" "osEnviron helloOS = [''HOME=/root''] @ spawnEnviron helloApp"
    by (simp_all add: helloOS_def)
  have "helloMain helloOS = HelloServing (SocketPath helloApp) True (helloDispatcher (\<lambda>_. ''invalid'') True)"
    using hello_started[OF args] sl by (simp add: helloOS_def helloApp_def exampleApp_def)
  then show ?thesis
    using hello_echo_brokered[OF args, of "SocketPath helloApp" True "helloDispatcher (\<lambda>_. ''invalid'') True" helloTransport "''01''"
        helloSupervisor "[]" "''io.pilot.hello''" "''a<b''" None] sl
    by (simp add: helloTransport_def transportTo_def authorized_def helloSupervisor_def helloApp_def methodEcho_def
        reachable_def validUTF8_ascii)
qed

end
