(* ===== verification/Wiremeta.thy ===== *)
theory Wiremeta
  imports Manifestjson Clock
begin

text \<open>
  \<^verbatim>\<open>pkg/extend/wiremeta.go\<close>: the provenance trail of a hooked message. Hook arguments are
  the Go map \<^verbatim>\<open>HookArgs\<close>, \<open>None\<close> for the nil map, on which an assignment panics: an
  operation that assigns returns \<open>None\<close> for the panic. Arguments reach a hook and come back by
  value. How numbers are converted and how \<^verbatim>\<open>time.Time\<close> parses a text is the record \<open>wireEnv\<close>.
\<close>

record hookStamp =
  StampApp :: string
  StampPrimitive :: string
  StampVersion :: string
  At :: gotime
  Details :: "(string \<times> gval) list"

record wireMeta =
  TouchedBy :: "hookStamp list"
  Required :: "string list"
  Encoding :: "string list"

definition emptyMeta :: wireMeta where
  "emptyMeta = \<lparr> TouchedBy = [], Required = [], Encoding = [] \<rparr>"

text \<open>A value of the map: a \<^verbatim>\<open>*WireMeta\<close> (\<open>None\<close> the nil pointer) or any other value.\<close>

datatype argval = MetaPtr "wireMeta option" | Plain gval

type_synonym hookArgs = "(string \<rightharpoonup> argval) option"

definition metaKey :: string where "metaKey = ''__meta''"
definition detailsKey :: string where "detailsKey = ''__meta_details''"
definition requiredKey :: string where "requiredKey = ''__meta_required''"
definition encodingKey :: string where "encodingKey = ''__meta_encoding''"

definition argGet :: "hookArgs \<Rightarrow> string \<Rightarrow> argval option" where
  "argGet args k = (case args of None \<Rightarrow> None | Some m \<Rightarrow> m k)"

definition argSet :: "hookArgs \<Rightarrow> string \<Rightarrow> argval \<Rightarrow> hookArgs option" where
  "argSet args k v = (case args of None \<Rightarrow> None | Some m \<Rightarrow> Some (Some (m(k \<mapsto> v))))"

definition argDelete :: "hookArgs \<Rightarrow> string \<Rightarrow> hookArgs" where
  "argDelete args k = map_option (\<lambda>m. m(k := None)) args"

definition stampJSON :: "floats \<Rightarrow> hookStamp \<Rightarrow> bytes" where
  "stampJSON ff s = jsonObj
     ([(''app'', jsonQuote (StampApp s)), (''primitive'', jsonQuote (StampPrimitive s))] @
      omitIf (StampVersion s = []) (''version'', jsonQuote (StampVersion s)) @
      [(''at'', timeJSON (At s))] @
      omitIf (Details s = []) (''details'', printAny ff (GMap (Details s))))"

definition wireMetaJSON :: "floats \<Rightarrow> wireMeta \<Rightarrow> bytes" where
  "wireMetaJSON ff m = jsonObj
     (omitIf (TouchedBy m = []) (''touched_by'', jsonArr (map (stampJSON ff) (TouchedBy m))) @
      omitIf (Required m = []) (''required'', jsonArr (map jsonQuote (Required m))) @
      omitIf (Encoding m = []) (''encoding'', jsonArr (map jsonQuote (Encoding m))))"

record wireEnv =
  wfloats :: floats
  parseTime :: "bytes \<Rightarrow> gotime option"

definition decWireTime :: "wireEnv \<Rightarrow> gotime decoder" where
  "decWireTime env raw old =
     (if isNull raw then Some old
      else if take 1 raw = [dquote] then parseTime env (butlast (drop 1 raw))
      else None)"

definition zeroStamp :: hookStamp where
  "zeroStamp = \<lparr> StampApp = [], StampPrimitive = [], StampVersion = [], At = zeroTime, Details = [] \<rparr>"

definition stampFields :: "wireEnv \<Rightarrow> hookStamp fields" where
  "stampFields env =
     [(''app'', fieldDec decString StampApp (\<lambda>v. StampApp_update (\<lambda>_. v))),
      (''primitive'', fieldDec decString StampPrimitive (\<lambda>v. StampPrimitive_update (\<lambda>_. v))),
      (''version'', fieldDec decString StampVersion (\<lambda>v. StampVersion_update (\<lambda>_. v))),
      (''at'', fieldDec (decWireTime env) At (\<lambda>v. At_update (\<lambda>_. v))),
      (''details'', fieldDec (decParams (wfloats env)) Details (\<lambda>v. Details_update (\<lambda>_. v)))]"

definition metaFields :: "wireEnv \<Rightarrow> wireMeta fields" where
  "metaFields env =
     [(''touched_by'', fieldDec (decSlice (decStruct (stampFields env)) zeroStamp) TouchedBy (\<lambda>v. TouchedBy_update (\<lambda>_. v))),
      (''required'', fieldDec (decSlice decString []) Required (\<lambda>v. Required_update (\<lambda>_. v))),
      (''encoding'', fieldDec (decSlice decString []) Encoding (\<lambda>v. Encoding_update (\<lambda>_. v)))]"

text \<open>What \<^verbatim>\<open>GetMeta\<close> does with a value that is not a trail: marshal it and unmarshal the text.\<close>

definition trailJSON :: "wireEnv \<Rightarrow> argval \<Rightarrow> wireMeta option" where
  "trailJSON env raw = unmarshal (decStruct (metaFields env)) emptyMeta
     (case raw of
        MetaPtr None \<Rightarrow> ''null''
      | MetaPtr (Some m) \<Rightarrow> wireMetaJSON (wfloats env) m
      | Plain v \<Rightarrow> printAny (wfloats env) v)"

definition GetMeta :: "wireEnv \<Rightarrow> hookArgs \<Rightarrow> wireMeta" where
  "GetMeta env args =
     (case argGet args metaKey of
        None \<Rightarrow> emptyMeta
      | Some (Plain GNil) \<Rightarrow> emptyMeta
      | Some (MetaPtr (Some m)) \<Rightarrow> m
      | Some raw \<Rightarrow> (case trailJSON env raw of None \<Rightarrow> emptyMeta | Some m \<Rightarrow> m))"

definition SetMeta :: "hookArgs \<Rightarrow> wireMeta option \<Rightarrow> hookArgs option" where
  "SetMeta args m =
     (case m of None \<Rightarrow> Some (argDelete args metaKey) | Some _ \<Rightarrow> argSet args metaKey (MetaPtr m))"

definition SetDetails :: "hookArgs \<Rightarrow> (string \<times> gval) list option \<Rightarrow> hookArgs option" where
  "SetDetails args details =
     (case details of None \<Rightarrow> Some (argDelete args detailsKey) | Some d \<Rightarrow> argSet args detailsKey (Plain (GMap d)))"

text \<open>The type assertion \<^verbatim>\<open>.([]string)\<close>: empty unless the value is a string slice.\<close>

definition asStrings :: "argval option \<Rightarrow> string list" where
  "asStrings v = (case v of Some (Plain (GStrs xs)) \<Rightarrow> xs | _ \<Rightarrow> [])"

definition asDetails :: "argval option \<Rightarrow> (string \<times> gval) list" where
  "asDetails v = (case v of Some (Plain (GMap d)) \<Rightarrow> d | _ \<Rightarrow> [])"

definition AddRequired :: "hookArgs \<Rightarrow> string list \<Rightarrow> hookArgs option" where
  "AddRequired args appIDs =
     (if length appIDs = 0 then Some args
      else argSet args requiredKey (Plain (GStrs (asStrings (argGet args requiredKey) @ appIDs))))"

definition AddEncoding :: "hookArgs \<Rightarrow> string list \<Rightarrow> hookArgs option" where
  "AddEncoding args codings =
     (if length codings = 0 then Some args
      else argSet args encodingKey (Plain (GStrs (asStrings (argGet args encodingKey) @ codings))))"

definition MissingRequired :: "wireMeta option \<Rightarrow> string list \<Rightarrow> string list" where
  "MissingRequired meta installed =
     (case meta of
        None \<Rightarrow> []
      | Some m \<Rightarrow> if length (Required m) = 0 then [] else filter (\<lambda>i. i \<notin> set installed) (Required m))"

fun appendUnique :: "string list \<Rightarrow> string list \<Rightarrow> string list" where
  "appendUnique dst [] = dst"
| "appendUnique dst (s # src) = appendUnique (if s \<in> set dst then dst else dst @ [s]) src"

definition stampAndConsume :: "wireEnv \<Rightarrow> hookArgs \<Rightarrow> string \<Rightarrow> string \<Rightarrow> string \<Rightarrow> gotime \<Rightarrow>
    hookArgs option" where
  "stampAndConsume env args appID primitive version now =
     (let meta = GetMeta env args;
          stamp = \<lparr> StampApp = appID, StampPrimitive = primitive, StampVersion = version, At = now,
                    Details = asDetails (argGet args detailsKey) \<rparr>;
          meta = meta\<lparr>TouchedBy := TouchedBy meta @ [stamp]\<rparr>;
          meta = meta\<lparr>Required := appendUnique (Required meta) (asStrings (argGet args requiredKey))\<rparr>;
          meta = meta\<lparr>Encoding := Encoding meta @ asStrings (argGet args encodingKey)\<rparr>;
          args = argDelete (argDelete (argDelete args detailsKey) requiredKey) encodingKey
      in SetMeta args (Some meta))"

section \<open>Properties\<close>

lemmas key_defs = metaKey_def detailsKey_def requiredKey_def encodingKey_def

lemma set_appendUnique [simp]: "set (appendUnique dst src) = set dst \<union> set src"
  by (induction dst src rule: appendUnique.induct) auto

lemma distinct_appendUnique: "distinct dst \<Longrightarrow> distinct (appendUnique dst src)"
  by (induction dst src rule: appendUnique.induct) auto

lemma appendUnique_prefix: "\<exists>xs. appendUnique dst src = dst @ xs"
proof (induction dst src rule: appendUnique.induct)
  case (2 dst s src)
  then show ?case by (cases "s \<in> set dst") auto
qed simp

text \<open>The trail after a stamp, and the scratch slots.\<close>

lemma stampAndConsume_some:
  "stampAndConsume mj (Some a) app p v t = Some (Some
     (a(detailsKey := None, requiredKey := None, encodingKey := None,
        metaKey \<mapsto> MetaPtr (Some (let m = GetMeta mj (Some a) in
          \<lparr> TouchedBy = TouchedBy m @ [\<lparr> StampApp = app, StampPrimitive = p, StampVersion = v, At = t,
                Details = asDetails (a detailsKey) \<rparr>],
            Required = appendUnique (Required m) (asStrings (a requiredKey)),
            Encoding = Encoding m @ asStrings (a encodingKey) \<rparr>)))))"
  by (cases "GetMeta mj (Some a)") (simp add: stampAndConsume_def SetMeta_def argSet_def argDelete_def argGet_def Let_def)

lemma stampAndConsume_none: "stampAndConsume mj None app p v t = None"
  by (simp add: stampAndConsume_def SetMeta_def argSet_def argDelete_def Let_def)

lemma GetMeta_set [simp]: "GetMeta mj (Some (a(metaKey \<mapsto> MetaPtr (Some m)))) = m"
  by (simp add: GetMeta_def argGet_def)

lemma GetMeta_other: "k \<noteq> metaKey \<Longrightarrow> GetMeta mj (Some (a(k := v))) = GetMeta mj (Some a)"
  by (simp add: GetMeta_def argGet_def)

text \<open>What a hook contributes with the helpers lands on its stamp and in the trail: the details
  on the stamp, the required apps once each (a trail without repetitions stays so and keeps the order
  of what it had), the encodings in order, all scratch slots cleared.\<close>

theorem contributions_land:
  assumes "asStrings (a requiredKey) = []" and "asStrings (a encodingKey) = []"
  shows "(let m = GetMeta mj (Some a);
        out = Option.bind (SetDetails (Some a) (Some d)) (\<lambda>x. Option.bind (AddRequired x req) (\<lambda>y.
                Option.bind (AddEncoding y enc) (\<lambda>z. stampAndConsume mj z app p v t)));
        m' = GetMeta mj (the out)
     in out \<noteq> None
        \<and> TouchedBy m' = TouchedBy m @ [\<lparr> StampApp = app, StampPrimitive = p, StampVersion = v, At = t, Details = d \<rparr>]
        \<and> Encoding m' = Encoding m @ enc
        \<and> set (Required m') = set (Required m) \<union> set req
        \<and> take (length (Required m)) (Required m') = Required m
        \<and> distinct (Required m') = (distinct (Required m))
        \<and> argGet (the out) detailsKey = None \<and> argGet (the out) requiredKey = None \<and> argGet (the out) encodingKey = None)"
proof -
  have ne: "detailsKey \<noteq> metaKey" "requiredKey \<noteq> metaKey" "encodingKey \<noteq> metaKey" "detailsKey \<noteq> requiredKey"
    "detailsKey \<noteq> encodingKey" "requiredKey \<noteq> encodingKey"
    by (simp_all add: key_defs)
  obtain a2 where a2: "AddRequired (Some (a(detailsKey \<mapsto> Plain (GMap d)))) req = Some (Some a2)"
      "asStrings (a2 requiredKey) = req" "asStrings (a2 encodingKey) = []" "a2 detailsKey = Some (Plain (GMap d))"
      "GetMeta mj (Some a2) = GetMeta mj (Some a)"
    using assms ne ne[symmetric]
    by (cases "req = []") (auto simp: AddRequired_def argSet_def argGet_def GetMeta_other asStrings_def)
  obtain b where b: "AddEncoding (Some a2) enc = Some (Some b)"
      "asDetails (b detailsKey) = d" "asStrings (b requiredKey) = req" "asStrings (b encodingKey) = enc"
      "GetMeta mj (Some b) = GetMeta mj (Some a)"
    using a2 ne ne[symmetric]
    by (cases "enc = []") (auto simp: AddEncoding_def argSet_def argGet_def GetMeta_other asStrings_def asDetails_def)
  obtain xs where xs: "appendUnique (Required (GetMeta mj (Some a))) req = Required (GetMeta mj (Some a)) @ xs"
    using appendUnique_prefix by blast
  have di: "distinct (appendUnique ys req) = distinct ys" for ys
    using appendUnique_prefix[of ys req] distinct_appendUnique[of ys req] by auto
  have "Option.bind (SetDetails (Some a) (Some d)) (\<lambda>x. Option.bind (AddRequired x req) (\<lambda>y.
          Option.bind (AddEncoding y enc) (\<lambda>z. stampAndConsume mj z app p v t)))
      = stampAndConsume mj (Some b) app p v t"
    using a2(1) b(1) by (simp add: SetDetails_def argSet_def)
  then show ?thesis
    using di[of "Required (GetMeta mj (Some a))"] xs set_appendUnique[of "Required (GetMeta mj (Some a))" req]
    by (simp add: stampAndConsume_some b Let_def argGet_def ne ne[symmetric])
qed

definition exampleWire :: wireEnv where
  "exampleWire = \<lparr> wfloats = intFloats, parseTime = (\<lambda>s. Some (readTime s)) \<rparr>"

theorem contributions_land_witness:
  "(let out = Option.bind (SetDetails (Some Map.empty) (Some [(''algo'', GStr ''gzip'')])) (\<lambda>x.
        Option.bind (AddRequired x [''a'', ''b'', ''a'']) (\<lambda>y.
          Option.bind (AddEncoding y [''gzip'']) (\<lambda>z. stampAndConsume exampleWire z ''zip'' ''recv.post'' ''1'' 5)));
      m' = GetMeta exampleWire (the out)
    in Encoding m' = [''gzip''] \<and> set (Required m') = {''a'', ''b''} \<and> distinct (Required m'))"
  using contributions_land[of Map.empty exampleWire "[(''algo'', GStr ''gzip'')]" "[''a'', ''b'', ''a'']"
      "[''gzip'']" "''zip''" "''recv.post''" "''1''" 5]
  by (simp add: Let_def asStrings_def GetMeta_def argGet_def emptyMeta_def insert_commute)

text \<open>A contribution that crossed a JSON hop is lost: a list of required apps or encodings that
  comes back as a generic list instead of a string slice leaves the trail's lists as they were, and is
  cleared all the same.\<close>

theorem contributions_lost_over_json:
  "(let args = a(requiredKey \<mapsto> Plain (GList req), encodingKey \<mapsto> Plain (GList enc));
        m' = GetMeta mj (the (stampAndConsume mj (Some args) app p v t))
    in Required m' = Required (GetMeta mj (Some a)) \<and> Encoding m' = Encoding (GetMeta mj (Some a))
      \<and> argGet (the (stampAndConsume mj (Some args) app p v t)) requiredKey = None)"
proof -
  have ne: "requiredKey \<noteq> metaKey" "encodingKey \<noteq> metaKey" "requiredKey \<noteq> encodingKey" by (simp_all add: key_defs)
  show ?thesis
    using ne ne[symmetric] by (simp add: stampAndConsume_some Let_def asStrings_def GetMeta_other argGet_def)
qed

text \<open>A recipient that has every app it is told about misses none exactly when all required apps
  are installed, and what is reported missing is required and not installed.\<close>

lemma MissingRequired_iff:
  "(MissingRequired (Some m) installed = [] \<longleftrightarrow> set (Required m) \<subseteq> set installed)
   \<and> set (MissingRequired (Some m) installed) = set (Required m) - set installed
   \<and> MissingRequired None installed = []"
  by (auto simp: MissingRequired_def filter_empty_conv)

end
