(* ===== verification/Extend.thy ===== *)
theory Extend
  imports Manifest Limiters Wiremeta "HOL-Library.AList" "HOL-Library.Multiset"
begin

text \<open>
  \<^verbatim>\<open>pkg/extend\<close>: the hook registry (\<^verbatim>\<open>extend.go\<close>), the command wrapper
  (\<^verbatim>\<open>cmdwrap.go\<close>) and the runtime registration surface (\<^verbatim>\<open>runtime.go\<close>). The Go map
  of hook points is an association list with distinct keys; where its iteration order shows, the order
  is an argument. The world the hooks run in is a state \<open>'st\<close>; \<^verbatim>\<open>ctx.Err()\<close> and the
  clock are read from it. Hooks do not change the registry while a chain runs.
\<close>

section \<open>The registry\<close>

definition PhasePre :: string where "PhasePre = ''pre''"
definition PhasePost :: string where "PhasePost = ''post''"

text \<open>The pattern is the one of the manifest validator, which has its own copy.\<close>

definition IsValid :: "string \<Rightarrow> bool" where
  "IsValid s = matches hookPointPattern s"

text \<open>The points the daemon wraps, which the registry does not treat specially.\<close>

definition PreSendMessage :: string where "PreSendMessage = ''send-message.pre''"
definition PostSendMessage :: string where "PostSendMessage = ''send-message.post''"
definition PostRecvMessage :: string where "PostRecvMessage = ''recv.post''"
definition PreNetCall :: string where "PreNetCall = ''net.call.pre''"
definition PostNetCall :: string where "PostNetCall = ''net.call.post''"

lemma hookPoints_valid:
  "list_all IsValid [PreSendMessage, PostSendMessage, PostRecvMessage, PreNetCall, PostNetCall]"
  by code_simp

record hookFlag =
  HFName :: string
  HFType :: string
  HFHelp :: string

record hookExt =
  XAppID :: string
  XPrimitive :: string
  XMethod :: string
  XAddsFlags :: "hookFlag list"
  XOrder :: int
  XVersion :: string

type_synonym 'st hookDispatcher = "'st \<Rightarrow> string \<Rightarrow> string \<Rightarrow> hookArgs \<Rightarrow> 'st \<times> (string + hookArgs)"

record 'st registry =
  dispatch :: "'st hookDispatcher"
  byPoint :: "(string \<times> hookExt list) list"
  hookLimiter :: "rateLimiter option"

definition NewRegistry :: "'st hookDispatcher option \<Rightarrow> 'st registry" where
  "NewRegistry d =
     \<lparr> dispatch = (case d of None \<Rightarrow> (\<lambda>st _ _ _. (st, Inl ''extend: no dispatcher configured'')) | Some f \<Rightarrow> f),
       byPoint = [], hookLimiter = None \<rparr>"

definition SetRateLimit :: "'st registry \<Rightarrow> rat \<Rightarrow> int \<Rightarrow> 'st registry" where
  "SetRateLimit r ratePerSec bst =
     (if ratePerSec \<le> 0 \<or> bst \<le> 0 then r\<lparr>hookLimiter := None\<rparr>
      else r\<lparr>hookLimiter := Some (newRateLimiter ratePerSec bst)\<rparr>)"

definition pointHooks :: "'st registry \<Rightarrow> string \<Rightarrow> hookExt list" where
  "pointHooks r p = (case map_of (byPoint r) p of None \<Rightarrow> [] | Some l \<Rightarrow> l)"

definition CountForApp :: "'st registry \<Rightarrow> string \<Rightarrow> nat" where
  "CountForApp r appID = sum_list (map (\<lambda>(p, l). length (filter (\<lambda>e. XAppID e = appID) l)) (byPoint r))"

datatype registerErr =
    MalformedHookPoint string
  | MethodRequired
  | AppIDRequired
  | FlagPrefix string
  | FlagUnknownType string string

fun checkFlags :: "hookFlag list \<Rightarrow> registerErr option" where
  "checkFlags [] = None"
| "checkFlags (f # fs) =
     (if \<not> hasPrefix (HFName f) ''--'' then Some (FlagPrefix (HFName f))
      else if HFType f \<noteq> ''string'' \<and> HFType f \<noteq> ''bool'' \<and> HFType f \<noteq> ''int''
        then Some (FlagUnknownType (HFName f) (HFType f))
      else checkFlags fs)"

definition checkExtension :: "hookExt \<Rightarrow> registerErr option" where
  "checkExtension ext =
     (if \<not> IsValid (XPrimitive ext) then Some (MalformedHookPoint (XPrimitive ext))
      else if trimSpace (XMethod ext) = [] then Some MethodRequired
      else if trimSpace (XAppID ext) = [] then Some AppIDRequired
      else checkFlags (XAddsFlags ext))"

definition Register :: "'st registry \<Rightarrow> hookExt \<Rightarrow> 'st registry \<times> registerErr option" where
  "Register r ext =
     (case checkExtension ext of
        Some e \<Rightarrow> (r, Some e)
      | None \<Rightarrow>
          (let list = sort_key XOrder (pointHooks r (XPrimitive ext) @ [ext])
           in (r\<lparr>byPoint := AList.update (XPrimitive ext) list (byPoint r)\<rparr>, None)))"

definition Unregister :: "'st registry \<Rightarrow> string \<Rightarrow> 'st registry" where
  "Unregister r appID =
     r\<lparr>byPoint := map (\<lambda>(p, l). (p, filter (\<lambda>e. XAppID e \<noteq> appID) l)) (byPoint r)\<rparr>"

definition HooksFor :: "'st registry \<Rightarrow> string \<Rightarrow> hookExt list" where
  "HooksFor r p = pointHooks r p"

text \<open>\<open>ord\<close> arranges the keys in the order the map iteration takes.\<close>

definition AllRegistered :: "(string list \<Rightarrow> string list) \<Rightarrow> 'st registry \<Rightarrow> hookExt list" where
  "AllRegistered ord r = concat (map (pointHooks r) (ord (map fst (byPoint r))))"

definition FlagsFor :: "'st registry \<Rightarrow> string \<Rightarrow> hookFlag list" where
  "FlagsFor r p = concat (map XAddsFlags (pointHooks r p))"

definition UnregisterOne :: "'st registry \<Rightarrow> string \<Rightarrow> string \<Rightarrow> string \<Rightarrow> 'st registry" where
  "UnregisterOne r appID primitive method =
     r\<lparr>byPoint := AList.update primitive
         (filter (\<lambda>e. \<not> (XAppID e = appID \<and> XMethod e = method)) (pointHooks r primitive)) (byPoint r)\<rparr>"

section \<open>Running a chain\<close>

definition cloneArgs :: "hookArgs \<Rightarrow> hookArgs" where
  "cloneArgs a = (case a of None \<Rightarrow> Some Map.empty | Some m \<Rightarrow> Some m)"

record 'st hookWorld =
  ctxErr :: "'st \<Rightarrow> string option"
  timeNow :: "'st \<Rightarrow> gotime"
  wire :: wireEnv

datatype runErr =
    RunCtx string
  | HookRateLimited string string string
  | HookFailed string string string string
  | WrapNilRegistry
  | WrapNilCore
  | WrapEmptyCommand
  | CoreFailed string

text \<open>What a run returns: the arguments and an error, or a panic.\<close>

datatype outcome = Returned hookArgs "runErr option" | Panicked

definition takeToken :: "rateLimiter option \<Rightarrow> gotime \<Rightarrow> string \<Rightarrow> rateLimiter option \<times> bool" where
  "takeToken lm t key = (case lm of None \<Rightarrow> (None, True) | Some rl \<Rightarrow> (case allow rl t key of (rl', ok) \<Rightarrow> (Some rl', ok)))"

fun runChain :: "'st hookWorld \<Rightarrow> 'st hookDispatcher \<Rightarrow> string \<Rightarrow> hookExt list \<Rightarrow> rateLimiter option \<Rightarrow> 'st \<Rightarrow>
    hookArgs \<Rightarrow> rateLimiter option \<times> 'st \<times> outcome" where
  "runChain w d p [] lm st current = (lm, st, Returned current None)"
| "runChain w d p (h # hs) lm st current =
     (case ctxErr w st of
        Some e \<Rightarrow> (lm, st, Returned current (Some (RunCtx e)))
      | None \<Rightarrow>
          (case takeToken lm (timeNow w st) (XAppID h) of
             (lm', False) \<Rightarrow> (lm', st, Returned current (Some (HookRateLimited p (XAppID h) (XMethod h))))
           | (lm', True) \<Rightarrow>
               (case d st (XAppID h) (XMethod h) (cloneArgs current) of
                  (st', Inl e) \<Rightarrow> (lm', st', Returned current (Some (HookFailed p (XAppID h) (XMethod h) e)))
                | (st', Inr nxt) \<Rightarrow>
                    (let current' = (case nxt of None \<Rightarrow> current | Some _ \<Rightarrow> nxt)
                     in case stampAndConsume (wire w) current' (XAppID h) p (XVersion h) (timeNow w st') of
                          None \<Rightarrow> (lm', st', Panicked)
                        | Some stamped \<Rightarrow> runChain w d p hs lm' st' stamped))))"

definition Run :: "'st hookWorld \<Rightarrow> 'st registry \<Rightarrow> 'st \<Rightarrow> string \<Rightarrow> hookArgs \<Rightarrow> 'st registry \<times> 'st \<times> outcome" where
  "Run w r st p args =
     (case runChain w (dispatch r) p (HooksFor r p) (hookLimiter r) st args of
        (lm, st', out) \<Rightarrow> (r\<lparr>hookLimiter := lm\<rparr>, st', out))"

text \<open>The core of a command returns arguments and an error.\<close>

type_synonym 'st core = "'st \<Rightarrow> hookArgs \<Rightarrow> 'st \<times> hookArgs \<times> string option"

definition Wrap :: "'st hookWorld \<Rightarrow> 'st registry option \<Rightarrow> 'st \<Rightarrow> string \<Rightarrow> hookArgs \<Rightarrow> 'st core option \<Rightarrow>
    'st registry option \<times> 'st \<times> outcome" where
  "Wrap w reg st cmd args cor =
     (case reg of
        None \<Rightarrow> (None, st, Returned None (Some WrapNilRegistry))
      | Some r \<Rightarrow>
          (case cor of
             None \<Rightarrow> (reg, st, Returned None (Some WrapNilCore))
           | Some core \<Rightarrow>
               if cmd = [] then (reg, st, Returned None (Some WrapEmptyCommand))
               else (case Run w r st (cmd @ ''.pre'') (case args of None \<Rightarrow> Some Map.empty | Some _ \<Rightarrow> args) of
                   (r1, st1, Panicked) \<Rightarrow> (Some r1, st1, Panicked)
                 | (r1, st1, Returned transformed (Some e)) \<Rightarrow> (Some r1, st1, Returned None (Some e))
                 | (r1, st1, Returned transformed None) \<Rightarrow>
                     (case core st1 transformed of
                        (st2, result, Some e) \<Rightarrow> (Some r1, st2, Returned result (Some (CoreFailed e)))
                      | (st2, result, None) \<Rightarrow>
                          (case Run w r1 st2 (cmd @ ''.post'')
                                 (case result of None \<Rightarrow> transformed | Some _ \<Rightarrow> result) of
                             (r2, st3, out) \<Rightarrow> (Some r2, st3, out))))))"

section \<open>The runtime registration surface\<close>

type_synonym permission = "string \<Rightarrow> string \<Rightarrow> bool"

definition AllowAll :: permission where "AllowAll appID primitive = True"
definition DenyAll :: permission where "DenyAll appID primitive = False"

definition maxDynamicRegistrationsPerApp :: nat where
  "maxDynamicRegistrationsPerApp = 32"

definition NewDaemonHandler :: "permission option \<Rightarrow> permission" where
  "NewDaemonHandler perms = (case perms of None \<Rightarrow> DenyAll | Some p \<Rightarrow> p)"

datatype daemonErr =
    OnBehalfOfAnother string string
  | ErrPermissionDenied string string
  | ErrTooManyRegistrations string nat nat
  | NotRegistered registerErr

definition DaemonRegister :: "permission \<Rightarrow> 'st registry \<Rightarrow> string \<Rightarrow> hookExt \<Rightarrow> 'st registry \<times> daemonErr option" where
  "DaemonRegister perms r appID ext =
     (if XAppID ext \<noteq> [] \<and> XAppID ext \<noteq> appID then (r, Some (OnBehalfOfAnother appID (XAppID ext)))
      else (let ext = (if XAppID ext = [] then ext\<lparr>XAppID := appID\<rparr> else ext) in
        if \<not> perms appID (XPrimitive ext) then (r, Some (ErrPermissionDenied appID (XPrimitive ext)))
        else if CountForApp r appID \<ge> maxDynamicRegistrationsPerApp
          then (r, Some (ErrTooManyRegistrations appID (CountForApp r appID) maxDynamicRegistrationsPerApp))
        else (case Register r ext of (r', e) \<Rightarrow> (r', map_option NotRegistered e))))"

definition DaemonUnregister :: "'st registry \<Rightarrow> string \<Rightarrow> string \<Rightarrow> string \<Rightarrow> 'st registry \<times> registerErr option" where
  "DaemonUnregister r appID primitive method =
     (if \<not> IsValid primitive then (r, Some (MalformedHookPoint primitive))
      else (UnregisterOne r appID primitive method, None))"

definition DaemonList :: "(string list \<Rightarrow> string list) \<Rightarrow> 'st registry \<Rightarrow> string \<Rightarrow> hookExt list" where
  "DaemonList ord r primitive = (if primitive = [] then AllRegistered ord r else HooksFor r primitive)"

section \<open>The registry as a list of live registrations\<close>

datatype regOp =
    OpRegister hookExt
  | OpUnregister string
  | OpUnregisterOne string string string
  | OpSetRateLimit rat int
  | OpDaemonRegister string hookExt
  | OpDaemonUnregister string string string

fun applyOp :: "permission \<Rightarrow> 'st registry \<Rightarrow> regOp \<Rightarrow> 'st registry" where
  "applyOp perms r (OpRegister e) = fst (Register r e)"
| "applyOp perms r (OpUnregister a) = Unregister r a"
| "applyOp perms r (OpUnregisterOne a p m) = UnregisterOne r a p m"
| "applyOp perms r (OpSetRateLimit q b) = SetRateLimit r q b"
| "applyOp perms r (OpDaemonRegister a e) = fst (DaemonRegister perms r a e)"
| "applyOp perms r (OpDaemonUnregister a p m) = fst (DaemonUnregister r a p m)"

text \<open>The specification: the live registrations, oldest first.\<close>

definition asCaller :: "string \<Rightarrow> hookExt \<Rightarrow> hookExt" where
  "asCaller a e = (if XAppID e = [] then e\<lparr>XAppID := a\<rparr> else e)"

definition heldBy :: "string \<Rightarrow> hookExt list \<Rightarrow> nat" where
  "heldBy a live = length (filter (\<lambda>e. XAppID e = a) live)"

fun specOp :: "permission \<Rightarrow> hookExt list \<Rightarrow> regOp \<Rightarrow> hookExt list" where
  "specOp perms live (OpRegister e) = (if checkExtension e = None then live @ [e] else live)"
| "specOp perms live (OpUnregister a) = filter (\<lambda>e. XAppID e \<noteq> a) live"
| "specOp perms live (OpUnregisterOne a p m) =
     filter (\<lambda>e. \<not> (XAppID e = a \<and> XPrimitive e = p \<and> XMethod e = m)) live"
| "specOp perms live (OpSetRateLimit q b) = live"
| "specOp perms live (OpDaemonRegister a e) =
     (if XAppID (asCaller a e) = a \<and> perms a (XPrimitive e) \<and> heldBy a live < maxDynamicRegistrationsPerApp
        \<and> checkExtension (asCaller a e) = None
      then live @ [asCaller a e] else live)"
| "specOp perms live (OpDaemonUnregister a p m) =
     (if IsValid p then filter (\<lambda>e. \<not> (XAppID e = a \<and> XPrimitive e = p \<and> XMethod e = m)) live else live)"

definition holds :: "'st registry \<Rightarrow> hookExt list \<Rightarrow> bool" where
  "holds r live \<longleftrightarrow> distinct (map fst (byPoint r)) \<and>
     (\<forall>p. pointHooks r p = sort_key XOrder (filter (\<lambda>e. XPrimitive e = p) live))"

lemma holdsD: "holds r live \<Longrightarrow> pointHooks r p = sort_key XOrder (filter (\<lambda>e. XPrimitive e = p) live)"
  by (simp add: holds_def)

lemma sort_key_snoc: "sort_key f (sort_key f xs @ [x]) = sort_key f (xs @ [x])"
proof -
  have eq: "(\<lambda>y. f k = f y) = (\<lambda>y. f y = f k)" for k by auto
  show ?thesis by (rule properties_for_sort_key) (simp_all add: eq sort_key_stable)
qed

lemma pointHooks_update: "pointHooks (r\<lparr>byPoint := AList.update p l (byPoint r)\<rparr>) q = (if q = p then l else pointHooks r q)"
  by (simp add: pointHooks_def update_conv')

lemma pointHooks_map: "pointHooks (r\<lparr>byPoint := map (\<lambda>(p, l). (p, f l)) (byPoint r)\<rparr>) q =
    (if q \<in> fst ` set (byPoint r) then f (pointHooks r q) else [])"
proof (cases "map_of (byPoint r) q")
  case None
  then have "q \<notin> fst ` set (byPoint r)" by (simp add: map_of_eq_None_iff)
  with None show ?thesis by (simp add: pointHooks_def map_of_map)
next
  case (Some l)
  then have "q \<in> fst ` set (byPoint r)" by (force dest: map_of_SomeD)
  with Some show ?thesis by (simp add: pointHooks_def map_of_map)
qed

lemma pointHooks_absent: "q \<notin> fst ` set (byPoint r) \<Longrightarrow> pointHooks r q = []"
  by (simp add: pointHooks_def map_of_eq_None_iff[THEN iffD2])

lemma sum_partition:
  "distinct ks \<Longrightarrow> g ` set xs \<subseteq> set ks \<Longrightarrow>
     sum_list (map (\<lambda>k. length (filter P (filter (\<lambda>x. g x = k) xs))) ks) = length (filter P xs)"
proof (induction xs)
  case (Cons x xs)
  have "g x \<in> set ks" using Cons.prems by simp
  with Cons.prems(1) have one: "sum_list (map (\<lambda>k. if g x = k then Suc 0 else 0) ks) = 1"
    by (induction ks) (auto simp: sum_list_eq_0_iff)
  have "sum_list (map (\<lambda>k. length (filter P (filter (\<lambda>x. g x = k) (x # xs)))) ks)
      = sum_list (map (\<lambda>k. (if P x then (if g x = k then Suc 0 else 0) else 0)
          + length (filter P (filter (\<lambda>x. g x = k) xs))) ks)"
    by (intro arg_cong[where f = sum_list] map_cong) auto
  with one Cons show ?case by (simp add: sum_list_addf)
qed (simp add: sum_list_eq_0_iff)

lemma holds_count:
  assumes "holds r live"
  shows "CountForApp r a = heldBy a live"
proof -
  have d: "distinct (map fst (byPoint r))" using assms by (simp add: holds_def)
  have l: "l = pointHooks r p" if "(p, l) \<in> set (byPoint r)" for p l
    using d that by (simp add: pointHooks_def map_of_is_SomeI)
  have "CountForApp r a = sum_list (map (\<lambda>p. length (filter (\<lambda>e. XAppID e = a) (pointHooks r p))) (map fst (byPoint r)))"
    unfolding CountForApp_def map_map comp_def by (auto dest: l intro!: arg_cong[where f = sum_list] map_cong)
  also have "\<dots> = sum_list (map (\<lambda>p. length (filter (\<lambda>e. XAppID e = a) (filter (\<lambda>e. XPrimitive e = p) live)))
      (map fst (byPoint r)))"
    by (simp only: holdsD[OF assms] filter_sort length_sort)
  also have "\<dots> = heldBy a live"
    unfolding heldBy_def
  proof (rule sum_partition[OF d], rule subsetI)
    fix p assume "p \<in> XPrimitive ` set live"
    then have "set (pointHooks r p) \<noteq> {}" by (auto simp: holdsD[OF assms])
    then have "pointHooks r p \<noteq> []" by auto
    then show "p \<in> set (map fst (byPoint r))" using pointHooks_absent by force
  qed
  finally show ?thesis .
qed

lemma count_concat: "count (mset (concat (map f ks))) e = sum_list (map (\<lambda>k. count (mset (f k)) e) ks)"
  by (induction ks) simp_all

lemma holds_all:
  assumes "holds r live" and "\<And>ks. mset (ord ks) = mset ks"
  shows "mset (AllRegistered ord r) = mset live"
proof (rule multiset_eqI)
  fix e
  have d: "distinct (map fst (byPoint r))" using assms by (simp add: holds_def)
  let ?ks = "map fst (byPoint r)"
  have "distinct (ord ?ks)" "set (ord ?ks) = set ?ks"
    using assms(2)[of ?ks] d mset_eq_imp_distinct_iff mset_eq_setD by blast+
  moreover have "XPrimitive ` set live \<subseteq> set ?ks"
  proof
    fix p assume "p \<in> XPrimitive ` set live"
    then have "set (pointHooks r p) \<noteq> {}" by (auto simp: holdsD[OF assms(1)])
    then have "pointHooks r p \<noteq> []" by auto
    then show "p \<in> set ?ks" using pointHooks_absent by force
  qed
  moreover have "count (mset (AllRegistered ord r)) e =
      sum_list (map (\<lambda>p. length (filter ((=) e) (filter (\<lambda>x. XPrimitive x = p) live))) (ord ?ks))"
    unfolding AllRegistered_def count_concat
    by (simp only: holdsD[OF assms(1)] mset_sort count_mset count_list_eq_length_filter)
  ultimately show "count (mset (AllRegistered ord r)) e = count (mset live) e"
    using sum_partition[of "ord ?ks" XPrimitive live "(=) e"]
    by (simp add: count_mset count_list_eq_length_filter)
qed

lemma holds_new: "holds (NewRegistry d) []"
  by (simp add: holds_def NewRegistry_def pointHooks_def)

lemma holds_Register:
  "holds r live \<Longrightarrow> holds (fst (Register r e)) (if checkExtension e = None then live @ [e] else live)"
  by (auto simp: Register_def Let_def holds_def pointHooks_update distinct_update sort_key_snoc split: option.splits)

lemma holds_Unregister: "holds r live \<Longrightarrow> holds (Unregister r a) (filter (\<lambda>e. XAppID e \<noteq> a) live)"
proof -
  assume h: "holds r live"
  have "pointHooks (Unregister r a) p = filter (\<lambda>e. XAppID e \<noteq> a) (pointHooks r p)" for p
    by (auto simp: Unregister_def pointHooks_map pointHooks_absent)
  moreover have "map fst (byPoint (Unregister r a)) = map fst (byPoint r)" by (auto simp: Unregister_def)
  ultimately show ?thesis using h by (simp add: holds_def filter_sort conj_commute)
qed

lemma holds_UnregisterOne:
  "holds r live \<Longrightarrow> holds (UnregisterOne r a p m) (filter (\<lambda>e. \<not> (XAppID e = a \<and> XPrimitive e = p \<and> XMethod e = m)) live)"
  unfolding UnregisterOne_def holds_def
  by (auto simp: pointHooks_update distinct_update filter_sort intro!: arg_cong[where f = "sort_key XOrder"] filter_cong)

lemma holds_DaemonRegister:
  assumes "holds r live"
  shows "holds (fst (DaemonRegister perms r a e)) (specOp perms live (OpDaemonRegister a e))"
proof -
  have x: "XPrimitive (asCaller a e) = XPrimitive e" by (simp add: asCaller_def)
  show ?thesis
    using assms holds_count[OF assms, of a] holds_Register[OF assms, of "asCaller a e"] x
    by (auto simp: DaemonRegister_def asCaller_def Let_def split: prod.splits if_splits)
qed

lemma holds_step: "holds r live \<Longrightarrow> holds (applyOp perms r opn) (specOp perms live opn)"
proof (cases opn)
  case (OpSetRateLimit q b)
  assume "holds r live"
  then show ?thesis by (simp add: OpSetRateLimit SetRateLimit_def holds_def pointHooks_def)
qed (auto simp: holds_Register[simplified] holds_Unregister holds_UnregisterOne[simplified] holds_DaemonRegister[simplified]
    DaemonUnregister_def)

lemma holds_run: "holds (foldl (applyOp perms) (NewRegistry d) ops) (foldl (specOp perms) [] ops)"
  by (induction ops rule: rev_induct) (simp_all add: holds_new holds_step)

text \<open>C25. Over any sequence of registrations and removals, direct or through the daemon, the registry
  behaves as the list of live registrations, oldest first: the chain of a point is the stable sort by
  order of the live hooks of that point (equal orders keep registration order), the count per app is
  the number of its live hooks, the flags of a point come in chain order, and the listing has every
  live hook exactly once, whatever order the map iteration takes.\<close>

theorem registry_refines:
  assumes "\<And>ks. mset (ord ks) = mset ks"
  shows "(let r = foldl (applyOp perms) (NewRegistry d) ops; live = foldl (specOp perms) [] ops in
    HooksFor r p = sort_key XOrder (filter (\<lambda>e. XPrimitive e = p) live)
    \<and> CountForApp r a = length (filter (\<lambda>e. XAppID e = a) live)
    \<and> FlagsFor r p = concat (map XAddsFlags (sort_key XOrder (filter (\<lambda>e. XPrimitive e = p) live)))
    \<and> mset (DaemonList ord r []) = mset live)"
proof -
  let ?r = "foldl (applyOp perms) (NewRegistry d) ops" and ?live = "foldl (specOp perms) [] ops"
  have h: "holds ?r ?live" by (rule holds_run)
  show ?thesis
    using holds_count[OF h] holds_all[OF h assms]
    by (simp add: Let_def HooksFor_def FlagsFor_def holdsD[OF h] heldBy_def DaemonList_def)
qed

definition exampleHook :: "string \<Rightarrow> int \<Rightarrow> hookExt" where
  "exampleHook a n = \<lparr> XAppID = a, XPrimitive = ''recv.post'', XMethod = ''m'', XAddsFlags = [], XOrder = n, XVersion = ''1'' \<rparr>"

lemma checkExtension_example:
  "checkExtension (exampleHook ''a'' n) = None" "checkExtension (exampleHook ''b'' n) = None"
  "checkExtension (exampleHook ''c'' n) = None"
proof -
  have "IsValid ''recv.post''" by code_simp
  moreover have "trimSpace ''a'' \<noteq> []" "trimSpace ''b'' \<noteq> []" "trimSpace ''c'' \<noteq> []" "trimSpace ''m'' \<noteq> []" by code_simp+
  ultimately show "checkExtension (exampleHook ''a'' n) = None" "checkExtension (exampleHook ''b'' n) = None"
    "checkExtension (exampleHook ''c'' n) = None"
    by (simp_all add: checkExtension_def exampleHook_def)
qed

theorem registry_refines_witness:
  "HooksFor (foldl (applyOp DenyAll) (NewRegistry (None :: unit hookDispatcher option))
      [OpRegister (exampleHook ''a'' 5), OpRegister (exampleHook ''b'' 1), OpRegister (exampleHook ''c'' 5),
       OpUnregister ''d'']) ''recv.post''
   = [exampleHook ''b'' 1, exampleHook ''a'' 5, exampleHook ''c'' 5]"
  using registry_refines[of "\<lambda>ks. ks" DenyAll "None :: unit hookDispatcher option"
      "[OpRegister (exampleHook ''a'' 5), OpRegister (exampleHook ''b'' 1), OpRegister (exampleHook ''c'' 5), OpUnregister ''d'']"
      "''recv.post''" "''a''"]
  by (simp add: Let_def checkExtension_example) (simp add: exampleHook_def)

section \<open>The daemon surface\<close>

fun isDaemonOp :: "regOp \<Rightarrow> bool" where
  "isDaemonOp (OpDaemonRegister a e) = True"
| "isDaemonOp (OpDaemonUnregister a p m) = True"
| "isDaemonOp (OpUnregister a) = True"
| "isDaemonOp (OpUnregisterOne a p m) = True"
| "isDaemonOp (OpSetRateLimit q b) = True"
| "isDaemonOp (OpRegister e) = False"

lemma heldBy_filter: "heldBy a (filter P live) \<le> heldBy a live"
proof -
  have "filter (\<lambda>e. XAppID e = a) (filter P live) = filter P (filter (\<lambda>e. XAppID e = a) live)"
    by (simp add: conj_commute)
  then show ?thesis by (simp only: heldBy_def length_filter_le)
qed

lemma filter_keep: "(\<And>x. K x \<Longrightarrow> P x) \<Longrightarrow> filter K (filter P xs) = filter K xs"
  by (induction xs) auto

lemma daemon_step:
  assumes "\<forall>a. heldBy a live \<le> maxDynamicRegistrationsPerApp" and "\<forall>e \<in> set live. perms (XAppID e) (XPrimitive e)"
    and "isDaemonOp opn"
  shows "(\<forall>a. heldBy a (specOp perms live opn) \<le> maxDynamicRegistrationsPerApp)
    \<and> (\<forall>e \<in> set (specOp perms live opn). perms (XAppID e) (XPrimitive e))"
proof -
  let ?ok = "\<lambda>live. (\<forall>a. heldBy a live \<le> maxDynamicRegistrationsPerApp) \<and> (\<forall>e \<in> set live. perms (XAppID e) (XPrimitive e))"
  have f: "?ok (filter P live)" for P
    using assms(1,2) le_trans[OF heldBy_filter] by simp
  have l: "?ok live" using assms(1,2) by simp
  show ?thesis
  proof (cases opn)
    case (OpDaemonRegister a e)
    have "XPrimitive (asCaller a e) = XPrimitive e" by (simp add: asCaller_def)
    then show ?thesis using l by (auto simp: OpDaemonRegister heldBy_def Suc_le_eq)
  next
    case (OpDaemonUnregister a p m)
    then show ?thesis using f l by (cases "IsValid p") simp_all
  qed (use assms(3) f l in simp_all)
qed



text \<open>No caller of the daemon surface touches another app: registering and unregistering as one
  app, whatever app the request claims, leave the hooks of every other app in every chain, in order.\<close>

theorem daemon_surface_own_hooks:
  "(let keep = filter (\<lambda>e. XAppID e \<noteq> caller);
        r = foldl (applyOp perms) (NewRegistry d) ops
    in keep (HooksFor (fst (DaemonRegister perms r caller ext)) p) = keep (HooksFor r p)
     \<and> keep (HooksFor (fst (DaemonUnregister r caller q m)) p) = keep (HooksFor r p))"
proof -
  let ?r = "foldl (applyOp perms) (NewRegistry d) ops"
  let ?live = "foldl (specOp perms) [] ops"
  have h: "holds ?r ?live" by (rule holds_run)
  have chain: "filter (\<lambda>e. XAppID e \<noteq> caller) (HooksFor r p)
      = sort_key XOrder (filter (\<lambda>e. XPrimitive e = p) (filter (\<lambda>e. XAppID e \<noteq> caller) live))"
    if "holds r live" for r :: "'a registry" and live
    by (simp add: HooksFor_def holdsD[OF that] filter_sort conj_commute)
  let ?mine = "\<lambda>opn. opn = OpDaemonRegister caller ext \<or> opn = OpDaemonUnregister caller q m"
  have live: "filter (\<lambda>e. XAppID e \<noteq> caller) (specOp perms ?live opn) = filter (\<lambda>e. XAppID e \<noteq> caller) ?live"
    if "?mine opn" for opn
    using that
  proof (elim disjE)
    assume "opn = OpDaemonUnregister caller q m"
    then show ?thesis by (simp del: filter_filter) (intro impI filter_keep, simp)
  qed simp
  have "filter (\<lambda>e. XAppID e \<noteq> caller) (HooksFor (applyOp perms ?r opn) p)
      = filter (\<lambda>e. XAppID e \<noteq> caller) (HooksFor ?r p)" if "?mine opn" for opn
    by (simp only: chain[OF h] chain[OF holds_step[OF h]] live[OF that])
  from this[of "OpDaemonRegister caller ext"] this[of "OpDaemonUnregister caller q m"]
  show ?thesis by (simp add: Let_def)
qed

end
