(* ===== verification/Hooks.thy ===== *)
theory Hooks
  imports Extend Sideload
begin

text \<open>
  What running a hook chain guarantees: \<^verbatim>\<open>Registry.Run\<close> and \<^verbatim>\<open>Wrap\<close> of
  \<^verbatim>\<open>pkg/extend\<close>, and that what the manifest validator accepts the registry accepts.
\<close>

section \<open>One step of a chain\<close>

lemma runChain_step:
  obtains (stopped) lm' st' e where "runChain w d p (h # hs) lm st current = (lm', st', Returned current (Some e))"
      "st' = st \<or> (\<exists>out. d st (XAppID h) (XMethod h) (cloneArgs current) = (st', out))"
  | (panicked) lm' st' where "runChain w d p (h # hs) lm st current = (lm', st', Panicked)" "current = None"
      "d st (XAppID h) (XMethod h) (cloneArgs current) = (st', Inr None)"
  | (went_on) lm' st' nxt a where
      "d st (XAppID h) (XMethod h) (cloneArgs current) = (st', Inr nxt)"
      "(case nxt of None \<Rightarrow> current | Some _ \<Rightarrow> nxt) = Some a"
      "runChain w d p (h # hs) lm st current = runChain w d p hs lm' st'
         (the (stampAndConsume (wire w) (Some a) (XAppID h) p (XVersion h) (timeNow w st')))"
proof -
  obtain lm' ok where tk: "takeToken lm (timeNow w st) (XAppID h) = (lm', ok)" by fastforce
  obtain st' out where dd: "d st (XAppID h) (XMethod h) (cloneArgs current) = (st', out)" by fastforce
  show thesis
  proof (cases "ctxErr w st = None \<and> ok")
    case False
    then show thesis using tk stopped[of _ st] by (cases "ctxErr w st") auto
  next
    case True
    show thesis
    proof (cases out)
      case (Inl e)
      then show thesis using True tk dd stopped[of _ st'] by auto
    next
      case (Inr nxt)
      show thesis
      proof (cases "case nxt of None \<Rightarrow> current | Some _ \<Rightarrow> nxt")
        case None
        then have "nxt = None" "current = None" by (auto split: option.splits)
        then show thesis using True tk dd Inr panicked by (simp add: stampAndConsume_none)
      next
        case (Some a)
        then show thesis
          using True tk dd Inr went_on[of st' nxt a lm'] by (simp add: stampAndConsume_some)
      qed
    qed
  qed
qed

lemma stamped_some: "\<exists>b. the (stampAndConsume mj (Some a) app p v t) = Some b"
  by (simp add: stampAndConsume_some)

lemma runChain_returns:
  "\<exists>lm' st' b e. runChain w d p hs lm st (Some a) = (lm', st', Returned (Some b) e)"
proof (induction hs arbitrary: lm st a)
  case (Cons h hs)
  show ?case
  proof (cases rule: runChain_step[of w d p h hs lm st "Some a"])
    case (went_on lm' st' nxt b)
    then show ?thesis using stamped_some Cons.IH by metis
  qed auto
qed simp

lemma runChain_obs:
  assumes "\<And>st a m args. obs (fst (d st a m args)) = obs st"
  shows "obs (fst (snd (runChain w d p hs lm st current))) = obs st"
proof (induction hs arbitrary: lm st current)
  case (Cons h hs)
  have o: "obs st' = obs st" if "d st a m args = (st', out)" for st st' a m args out
    using assms[of st a m args] that by simp
  show ?case
  proof (cases rule: runChain_step[of w d p h hs lm st current])
    case (stopped lm' st' e)
    then show ?thesis using o by auto
  next
    case (panicked lm' st')
    then show ?thesis using o by auto
  next
    case (went_on lm' st' nxt a)
    then show ?thesis using o Cons.IH by simp
  qed
qed simp

lemma Run_dispatch [simp]: "dispatch (fst (Run w r st p args)) = dispatch r"
  by (simp add: Run_def split: prod.splits)

lemma Run_returns: "\<exists>r' st' b e. Run w r st p (Some a) = (r', st', Returned (Some b) e)"
  using runChain_returns[of w "dispatch r" p "HooksFor r p" "hookLimiter r" st a] by (auto simp: Run_def)

lemma Run_obs:
  assumes "\<And>st a m args. obs (fst (dispatch r st a m args)) = obs st"
  shows "obs (fst (snd (Run w r st p args))) = obs st"
  using runChain_obs[of obs "dispatch r" w p "HooksFor r p" "hookLimiter r" st args, OF assms]
  by (cases "runChain w (dispatch r) p (HooksFor r p) (hookLimiter r) st args") (simp add: Run_def)

section \<open>Wrapping a command\<close>

definition preRun :: "'st hookWorld \<Rightarrow> 'st registry \<Rightarrow> 'st \<Rightarrow> string \<Rightarrow> hookArgs \<Rightarrow> 'st registry \<times> 'st \<times> outcome" where
  "preRun w r st cmd args = Run w r st (cmd @ ''.pre'') (case args of None \<Rightarrow> Some Map.empty | Some _ \<Rightarrow> args)"

fun outcomeErr :: "outcome \<Rightarrow> runErr option" where
  "outcomeErr (Returned a e) = e"
| "outcomeErr Panicked = None"

lemma Wrap_cases:
  assumes "cmd \<noteq> []"
  obtains (refused) r1 st1 tr e where "preRun w r st cmd args = (r1, st1, Returned tr (Some e))"
      "Wrap w (Some r) st cmd args (Some core) = (Some r1, st1, Returned None (Some e))"
  | (core_failed) r1 st1 tr st2 res e where "preRun w r st cmd args = (r1, st1, Returned (Some tr) None)"
      "core st1 (Some tr) = (st2, res, Some e)"
      "Wrap w (Some r) st cmd args (Some core) = (Some r1, st2, Returned res (Some (CoreFailed e)))"
  | (core_ran) r1 st1 tr st2 res r2 st3 b e where "preRun w r st cmd args = (r1, st1, Returned (Some tr) None)"
      "core st1 (Some tr) = (st2, res, None)"
      "Run w r1 st2 (cmd @ ''.post'') (case res of None \<Rightarrow> Some tr | Some _ \<Rightarrow> res) = (r2, st3, Returned (Some b) e)"
      "Wrap w (Some r) st cmd args (Some core) = (Some r2, st3, Returned (Some b) e)"
proof -
  obtain a0 where a0: "(case args of None \<Rightarrow> Some Map.empty | Some _ \<Rightarrow> args) = Some a0" by (cases args) auto
  obtain r1 st1 tr e where pre: "Run w r st (cmd @ ''.pre'') (Some a0) = (r1, st1, Returned (Some tr) e)"
    using Run_returns[of w r st "cmd @ ''.pre''" a0] by blast
  show thesis
  proof (cases e)
    case (Some e')
    then show thesis using refused pre a0 assms by (simp add: preRun_def Wrap_def)
  next
    case None
    obtain st2 res ce where cr: "core st1 (Some tr) = (st2, res, ce)" by (metis prod_cases3)
    show thesis
    proof (cases ce)
      case (Some e')
      then show thesis using core_failed pre a0 assms cr None by (simp add: preRun_def Wrap_def)
    next
      case n: None
      obtain a2 where a2: "(case res of None \<Rightarrow> Some tr | Some _ \<Rightarrow> res) = Some a2" by (cases res) auto
      obtain r2 st3 b e2 where po: "Run w r1 st2 (cmd @ ''.post'') (Some a2) = (r2, st3, Returned (Some b) e2)"
        using Run_returns[of w r1 st2 "cmd @ ''.post''" a2] by blast
      show thesis
        using core_ran[of r1 st1 tr st2 res r2 st3 b e2] pre a0 assms cr None n po a2
        by (simp add: preRun_def Wrap_def)
    qed
  qed
qed

text \<open>C27. Hooks extend a command and never replace it. For any count of core runs in the world that
  hooks leave alone and the core increments: wrapping runs the core exactly once if the pre-hooks
  returned no error and not at all otherwise, in which case that error is returned; success is only
  reported after a core run; and wrapping never panics, whatever hooks and core return.\<close>

theorem Wrap_runs_core_once:
  assumes "cmd \<noteq> []"
    and "\<And>st a m args. runs (fst (dispatch r st a m args)) = runs st"
    and "\<And>st args. runs (fst (core st args)) = runs st + (1::nat)"
  shows "(case Wrap w (Some r) st cmd args (Some core) of (r', st', out) \<Rightarrow>
     runs st' = runs st + (if outcomeErr (snd (snd (preRun w r st cmd args))) = None then 1 else 0)
     \<and> (outcomeErr (snd (snd (preRun w r st cmd args))) \<noteq> None \<longrightarrow>
          out = Returned None (outcomeErr (snd (snd (preRun w r st cmd args)))))
     \<and> (outcomeErr out = None \<longrightarrow> runs st' = runs st + 1)
     \<and> out \<noteq> Panicked)"
proof -
  have pre: "runs (fst (snd (preRun w r st cmd args))) = runs st"
    unfolding preRun_def by (rule Run_obs[of runs r, OF assms(2)])
  have c: "runs s2 = runs s1 + 1" if "core s1 a = (s2, x)" for s1 a s2 x
    using assms(3)[of s1 a] that by simp
  from assms(1) show ?thesis
  proof (cases rule: Wrap_cases[of cmd w r st args core])
    case (refused r1 st1 tr e)
    then show ?thesis using pre by simp
  next
    case (core_failed r1 st1 tr st2 res e)
    then show ?thesis using pre c by simp
  next
    case (core_ran r1 st1 tr st2 res r2 st3 b e)
    have "dispatch r1 = dispatch r"
      using Run_dispatch[of w r st "cmd @ ''.pre''"] core_ran(1) unfolding preRun_def by (metis fst_conv)
    then have "runs st3 = runs st2"
      using Run_obs[of runs r1 w st2 "cmd @ ''.post''"] assms(2) core_ran(3) by (metis fst_conv snd_conv)
    with core_ran pre c[OF core_ran(2)] show ?thesis by simp
  qed
qed

text \<open>On nil arguments a run panics as soon as a hook returns nothing: the stamp is written into
  the nil map.\<close>

theorem Run_nil_args_panic:
  assumes "HooksFor r p = h # hs" and "ctxErr w st = None" and "hookLimiter r = None"
    and "dispatch r st (XAppID h) (XMethod h) (Some Map.empty) = (st', Inr None)"
  shows "Run w r st p None = (r, st', Panicked)"
  using assms by (simp add: Run_def takeToken_def cloneArgs_def stampAndConsume_none)

text \<open>A world of two counters, core runs and time, with hooks that add a key and let time pass.\<close>

definition tickDispatch :: "(nat \<times> int) hookDispatcher" where
  "tickDispatch st a m args = ((fst st, snd st + 1),
     Inr (map_option (\<lambda>x. x(''seen'' \<mapsto> Plain (GStr a))) args))"

definition tickWorld :: "(nat \<times> int) hookWorld" where
  "tickWorld = \<lparr> ctxErr = (\<lambda>_. None), timeNow = snd, wire = exampleWire \<rparr>"

definition tickRegistry :: "(nat \<times> int) registry" where
  "tickRegistry = foldl (applyOp DenyAll) (NewRegistry (Some tickDispatch))
     [OpRegister (exampleHook ''a'' 2), OpRegister (exampleHook ''b'' 1)]"

lemma tickRegistry_hooks: "HooksFor tickRegistry ''recv.post'' = [exampleHook ''b'' 1, exampleHook ''a'' 2]"
  "dispatch tickRegistry = tickDispatch" "hookLimiter tickRegistry = None"
  by (simp_all add: tickRegistry_def Register_def checkExtension_example HooksFor_def pointHooks_def NewRegistry_def)
     (simp add: exampleHook_def)

theorem Wrap_runs_core_once_witness:
  "(case Wrap tickWorld (Some tickRegistry) (0, 0) ''recv'' None (Some (\<lambda>st args. ((fst st + 1, snd st), args, None))) of
      (r', st', out) \<Rightarrow> (outcomeErr out = None \<longrightarrow> fst st' = 1) \<and> out \<noteq> Panicked)"
  using Wrap_runs_core_once[where cmd = "''recv''" and runs = fst and r = tickRegistry and w = tickWorld and st = "(0, 0)"
      and args = None and core = "\<lambda>st args. ((fst st + 1, snd st), args, None)"]
  by (auto simp: tickRegistry_hooks tickDispatch_def)

theorem Run_nil_args_panic_witness:
  "Run tickWorld (tickRegistry\<lparr>dispatch := (\<lambda>st a m args. (st, Inr None))\<rparr>) (0, 0) ''recv.post'' None
     = (tickRegistry\<lparr>dispatch := (\<lambda>st a m args. (st, Inr None))\<rparr>, (0, 0), Panicked)"
  by (rule Run_nil_args_panic[of _ _ "exampleHook ''b'' 1" "[exampleHook ''a'' 2]"])
     (use tickRegistry_hooks in \<open>simp_all add: HooksFor_def pointHooks_def tickWorld_def\<close>)

section \<open>The trail\<close>

definition identity :: "hookStamp \<Rightarrow> string \<times> string \<times> string" where
  "identity s = (StampApp s, StampPrimitive s, StampVersion s)"

definition trail :: "'st hookWorld \<Rightarrow> hookArgs \<Rightarrow> (string \<times> string \<times> string) list" where
  "trail w args = map identity (TouchedBy (GetMeta (wire w) args))"

lemma trail_stamped:
  "trail w (the (stampAndConsume (wire w) (Some a) app p v t)) = trail w (Some a) @ [(app, p, v)]"
  by (simp add: stampAndConsume_some trail_def identity_def Let_def)

lemma runChain_trail:
  assumes "\<And>st st' a m args nxt. d st a m args = (st', Inr nxt) \<Longrightarrow> nxt = None \<or> trail w nxt = trail w args"
    and "runChain w d p hs lm st current = (lm', st', Returned out None)"
  shows "trail w out = trail w current @ map (\<lambda>h. (XAppID h, p, XVersion h)) hs"
  using assms(2)
proof (induction hs arbitrary: lm st current)
  case (Cons h hs)
  show ?case
  proof (cases rule: runChain_step[of w d p h hs lm st current])
    case (went_on lm2 st2 nxt a)
    have "trail w (cloneArgs current) = trail w current"
      by (cases current) (simp_all add: cloneArgs_def trail_def GetMeta_def argGet_def)
    with assms(1)[OF went_on(1)] went_on(2) have "trail w (Some a) = trail w current"
      by (auto split: option.splits)
    with Cons.IH[OF went_on(3)[symmetric, unfolded Cons.prems]] show ?thesis
      by (simp add: trail_stamped)
  qed (use Cons.prems in auto)
qed simp


lemma tick_run:
  "\<exists>r' st' out. Run tickWorld tickRegistry (0, 0) ''recv.post'' (Some Map.empty) = (r', st', Returned out None)"
  by (simp add: Run_def tickRegistry_hooks tickWorld_def tickDispatch_def takeToken_def cloneArgs_def stampAndConsume_some)


text \<open>A hook can rewrite the past: what it returns as the trail replaces whatever earlier hooks
  and senders had stamped; only its own stamp, added afterwards, is out of its hands.\<close>

theorem hook_rewrites_trail:
  assumes "HooksFor r p = [h]" and "ctxErr w st = None" and "hookLimiter r = None"
    and "dispatch r st (XAppID h) (XMethod h) (cloneArgs args) = (st', Inr (Some (a(metaKey \<mapsto> MetaPtr (Some forged)))))"
  shows "\<exists>out. Run w r st p args = (r, st', Returned out None)
    \<and> trail w out = map identity (TouchedBy forged) @ [(XAppID h, p, XVersion h)]"
  using assms trail_stamped[of w "a(metaKey \<mapsto> MetaPtr (Some forged))" "XAppID h" p "XVersion h" "timeNow w st'"]
  by (simp add: Run_def takeToken_def stampAndConsume_some trail_def)

theorem hook_rewrites_trail_witness:
  "\<exists>out. Run tickWorld (tickRegistry\<lparr>byPoint := [(''recv.post'', [exampleHook ''a'' 1])],
        dispatch := (\<lambda>st a m args. (st, Inr (Some (Map.empty(metaKey \<mapsto> MetaPtr (Some emptyMeta))))))\<rparr>)
       (0, 0) ''recv.post'' (Some Map.empty)
     = (tickRegistry\<lparr>byPoint := [(''recv.post'', [exampleHook ''a'' 1])],
          dispatch := (\<lambda>st a m args. (st, Inr (Some (Map.empty(metaKey \<mapsto> MetaPtr (Some emptyMeta))))))\<rparr>,
        (0, 0), Returned out None)
     \<and> trail tickWorld out = [(''a'', ''recv.post'', ''1'')]"
  using hook_rewrites_trail[of "tickRegistry\<lparr>byPoint := [(''recv.post'', [exampleHook ''a'' 1])],
        dispatch := (\<lambda>st a m args. (st, Inr (Some (Map.empty(metaKey \<mapsto> MetaPtr (Some emptyMeta))))))\<rparr>"
      "''recv.post''" "exampleHook ''a'' 1" tickWorld "(0, 0)" "Some Map.empty" "(0, 0)" Map.empty emptyMeta]
  by (simp add: HooksFor_def pointHooks_def tickWorld_def tickRegistry_hooks emptyMeta_def exampleHook_def)

section \<open>From the manifest to the registry\<close>

text \<open>The registration a manifest entry asks for: its fields, the app's id and a version.\<close>

definition declaredHook :: "manifest \<Rightarrow> string \<Rightarrow> extension \<Rightarrow> hookExt" where
  "declaredHook m v e = \<lparr> XAppID = ID m, XPrimitive = Primitive e, XMethod = Method e,
     XAddsFlags = map (\<lambda>f. \<lparr> HFName = FlagName f, HFType = FlagType f, HFHelp = FlagHelp f \<rparr>) (AddsFlags e),
     XOrder = Order e, XVersion = v \<rparr>"

lemma joinWith_ends:
  assumes "ps \<noteq> []" and "\<forall>p \<in> set ps. p \<noteq> []"
  shows "joinWith c ps \<noteq> [] \<and> hd (joinWith c ps) = hd (hd ps) \<and> last (joinWith c ps) = last (last ps)"
  using assms by (induction c ps rule: joinWith.induct) auto

lemma idShape_trim:
  assumes "idShape s"
  shows "trimSpace s \<noteq> []"
proof -
  let ?ps = "splitOn CHR ''.'' s"
  have seg: "\<forall>p \<in> set ?ps. p \<noteq> [] \<and> hd p \<in> set (lower @ digits) \<and> last p \<in> set (lower @ digits)"
    using assms by (auto simp: idShape_def idSegmentShape_def list_all_iff Let_def)
  have ends: "s \<noteq> []" "hd s = hd (hd ?ps)" "last s = last (last ?ps)"
    using joinWith_ends[of ?ps "CHR ''.''"] seg by auto
  have "hd s \<in> set (lower @ digits)" "last s \<in> set (lower @ digits)"
    using seg ends by auto
  moreover have "list_all (\<lambda>c. \<forall>p \<in> set spaceEncodings. hd p \<noteq> c \<and> last p \<noteq> c) (lower @ digits)" by code_simp
  ultimately have "plainEnds s" by (auto simp only: list_all_iff plainEnds_def)
  with ends(1) show ?thesis by (simp add: trimSpace_plainEnds)
qed

text \<open>The validator and the registry agree: every hook a valid manifest declares is accepted at
  registration and then is in the chain of its point, and every point it declares for later use is one
  the registry accepts.\<close>

theorem valid_manifest_hooks_register:
  assumes "Validate m = []" and "e \<in> set (Extends m)"
  shows "snd (Register r (declaredHook m v e)) = None
    \<and> declaredHook m v e \<in> set (HooksFor (fst (Register r (declaredHook m v e))) (Primitive e))
    \<and> list_all IsValid (DynamicExtends m)"
proof -
  have vm: "valid_manifest m" using assms(1) by (simp add: Validate_iff)
  then have we: "wf_extension (Exposes m) e" and "idShape (ID m)" using assms(2) by (auto simp: valid_manifest_def)
  have fl: "checkFlags (map (\<lambda>f. \<lparr> HFName = FlagName f, HFType = FlagType f, HFHelp = FlagHelp f \<rparr>) fs) = None"
    if "\<forall>f \<in> set fs. prefix ''--'' (FlagName f) \<and> FlagType f \<in> set KnownFlagTypes" for fs
    using that by (induction fs) (auto simp: hasPrefix_def KnownFlagTypes_def)
  have c: "checkExtension (declaredHook m v e) = None"
    using we fl idShape_trim[OF \<open>idShape (ID m)\<close>]
    by (auto simp: checkExtension_def declaredHook_def wf_extension_def IsValid_def hookPointPattern_iff)
  have p: "XPrimitive (declaredHook m v e) = Primitive e" by (simp add: declaredHook_def)
  show ?thesis
    using vm
    by (simp add: Register_def c p Let_def HooksFor_def pointHooks_update list_all_iff IsValid_def
        hookPointPattern_iff valid_manifest_def)
qed

theorem valid_manifest_hooks_register_witness:
  "snd (Register tickRegistry (declaredHook (exampleSideload\<lparr>Extends :=
      [\<lparr> Primitive = ''send-message.pre'', Method = ''hello.echo'', AddsFlags = [], Order = 3 \<rparr>]\<rparr>) ''1''
      \<lparr> Primitive = ''send-message.pre'', Method = ''hello.echo'', AddsFlags = [], Order = 3 \<rparr>)) = None"
proof -
  have "Validate (exampleSideload\<lparr>Extends :=
      [\<lparr> Primitive = ''send-message.pre'', Method = ''hello.echo'', AddsFlags = [], Order = 3 \<rparr>]\<rparr>) = []"
    by code_simp
  from valid_manifest_hooks_register[OF this, of _ tickRegistry "''1''"] show ?thesis by simp
qed

end
