(* ===== verification/Payment.thy ===== *)
theory Payment
  imports Prelude
begin

text \<open>
  \<^verbatim>\<open>pkg/payment\<close>: the wire types (\<^verbatim>\<open>types.go\<close>) and the registries of payment methods
  (\<^verbatim>\<open>method.go\<close>), escrows (\<^verbatim>\<open>escrow.go\<close>) and seals (\<^verbatim>\<open>seal.go\<close>). A registered
  implementation is a record of its functions, run in a world \<open>'st\<close>; a registry is a Go map, and
  where the iteration order of the map shows, the visited ids are the argument \<open>ord\<close>. The
  ChaCha20-Poly1305 package is the record \<open>aead\<close>.
\<close>

section \<open>Wire types\<close>

record contract =
  CID :: string
  Amount :: "64 word"
  Asset :: string
  RecipientAddr :: string
  ExpiresAt :: gotime
  CNonce :: string
  AcceptedMethods :: "string list"
  AcceptedEscrows :: "string list"
  Memo :: string

record receipt =
  RContractID :: string
  MethodID :: string
  RPayload :: bytes

record escrowRef =
  EscrowID :: string
  Endpoint :: string
  Token :: string
  EContractID :: string

record sealedEnvelope =
  SContract :: contract
  SEscrowRef :: escrowRef
  SealID :: string
  Ciphertext :: bytes
  SNonce :: bytes
  SenderAddr :: string

section \<open>The registries\<close>

text \<open>The error of a payment attempt: whether it wraps \<^verbatim>\<open>ErrCannotSatisfy\<close>, and its text.\<close>

datatype satErr = Cannot string | Failed string

record 'st payMethod =
  mID :: string
  mSatisfy :: "'st \<Rightarrow> contract \<Rightarrow> 'st \<times> (satErr + receipt)"
  mVerify :: "'st \<Rightarrow> contract \<Rightarrow> receipt \<Rightarrow> 'st \<times> string option"

record 'st escrow =
  eID :: string
  eHold :: "'st \<Rightarrow> contract \<Rightarrow> bytes \<Rightarrow> 'st \<times> (string + escrowRef)"
  eRedeem :: "'st \<Rightarrow> escrowRef \<Rightarrow> receipt \<Rightarrow> 'st \<times> (string + bytes)"

record seal =
  sID :: string
  sKeySize :: nat
  sNonceSize :: nat
  sEncrypt :: "bytes \<Rightarrow> bytes \<Rightarrow> bytes \<Rightarrow> bytes \<Rightarrow> string + bytes"
  sDecrypt :: "bytes \<Rightarrow> bytes \<Rightarrow> bytes \<Rightarrow> bytes \<Rightarrow> string + bytes"

datatype regErr = NilEntry | IDRequired

definition NewMethodRegistry :: "string \<rightharpoonup> 'st payMethod" where
  "NewMethodRegistry = Map.empty"

definition MethodRegister :: "(string \<rightharpoonup> 'st payMethod) \<Rightarrow> 'st payMethod option \<Rightarrow> (string \<rightharpoonup> 'st payMethod) \<times> regErr option" where
  "MethodRegister r m =
     (case m of
        None \<Rightarrow> (r, Some NilEntry)
      | Some x \<Rightarrow> if mID x = [] then (r, Some IDRequired) else (r(mID x \<mapsto> x), None))"

definition MethodUnregister :: "(string \<rightharpoonup> 'st payMethod) \<Rightarrow> string \<Rightarrow> (string \<rightharpoonup> 'st payMethod)" where
  "MethodUnregister r k = r(k := None)"

definition MethodHas :: "(string \<rightharpoonup> 'st payMethod) \<Rightarrow> string \<Rightarrow> bool" where
  "MethodHas r k = (r k \<noteq> None)"

definition MethodGet :: "(string \<rightharpoonup> 'st payMethod) \<Rightarrow> string \<Rightarrow> 'st payMethod option" where
  "MethodGet r k = r k"

text \<open>\<^verbatim>\<open>IDs\<close> of the three registries: the keys in iteration order.\<close>

definition registryIDs :: "string list \<Rightarrow> (string \<rightharpoonup> 'st payMethod) \<Rightarrow> string list" where
  "registryIDs ord r = filter (\<lambda>k. r k \<noteq> None) ord"

definition escrowIDs :: "string list \<Rightarrow> (string \<rightharpoonup> 'st escrow) \<Rightarrow> string list" where
  "escrowIDs ord r = filter (\<lambda>k. r k \<noteq> None) ord"

definition sealIDs :: "string list \<Rightarrow> (string \<rightharpoonup> seal) \<Rightarrow> string list" where
  "sealIDs ord r = filter (\<lambda>k. r k \<noteq> None) ord"

text \<open>\<open>None\<close> is the nil set, which accepts any id.\<close>

definition acceptedSet :: "string list \<Rightarrow> string set option" where
  "acceptedSet ids = (if length ids = 0 then None else Some (set ids))"

definition skips :: "string set option \<Rightarrow> string \<Rightarrow> bool" where
  "skips accepted k = (case accepted of None \<Rightarrow> False | Some s \<Rightarrow> k \<notin> s)"

datatype satisfyErr = LastCannot string | MethodFailed string string | NoMethodMatched "string list"

fun satisfyLoop :: "(string \<rightharpoonup> 'st payMethod) \<Rightarrow> string set option \<Rightarrow> contract \<Rightarrow> string list \<Rightarrow> 'st \<Rightarrow> string option \<Rightarrow>
    'st \<times> (satisfyErr + receipt)" where
  "satisfyLoop r accepted c [] st lastCannot =
     (st, Inl (case lastCannot of Some e \<Rightarrow> LastCannot e | None \<Rightarrow> NoMethodMatched (AcceptedMethods c)))"
| "satisfyLoop r accepted c (k # ks) st lastCannot =
     (case r k of
        None \<Rightarrow> satisfyLoop r accepted c ks st lastCannot
      | Some m \<Rightarrow>
          if skips accepted k then satisfyLoop r accepted c ks st lastCannot
          else (case mSatisfy m st c of
              (st', Inr receipt) \<Rightarrow> (st', Inr receipt)
            | (st', Inl (Cannot e)) \<Rightarrow> satisfyLoop r accepted c ks st' (Some e)
            | (st', Inl (Failed e)) \<Rightarrow> (st', Inl (MethodFailed k e))))"

definition Satisfy :: "string list \<Rightarrow> (string \<rightharpoonup> 'st payMethod) \<Rightarrow> 'st \<Rightarrow> contract \<Rightarrow> 'st \<times> (satisfyErr + receipt)" where
  "Satisfy ord r st c = satisfyLoop r (acceptedSet (AcceptedMethods c)) c ord st None"

datatype verifyErr = ErrUnknownMethod string | VerifyFailed string

definition Verify :: "(string \<rightharpoonup> 'st payMethod) \<Rightarrow> 'st \<Rightarrow> contract \<Rightarrow> receipt \<Rightarrow> 'st \<times> verifyErr option" where
  "Verify r st c rec =
     (case r (MethodID rec) of
        None \<Rightarrow> (st, Some (ErrUnknownMethod (MethodID rec)))
      | Some m \<Rightarrow> (case mVerify m st c rec of (st', e) \<Rightarrow> (st', map_option VerifyFailed e)))"

definition NewEscrowRegistry :: "string \<rightharpoonup> 'st escrow" where
  "NewEscrowRegistry = Map.empty"

definition EscrowRegister :: "(string \<rightharpoonup> 'st escrow) \<Rightarrow> 'st escrow option \<Rightarrow> (string \<rightharpoonup> 'st escrow) \<times> regErr option" where
  "EscrowRegister r e =
     (case e of
        None \<Rightarrow> (r, Some NilEntry)
      | Some x \<Rightarrow> if eID x = [] then (r, Some IDRequired) else (r(eID x \<mapsto> x), None))"

definition EscrowUnregister :: "(string \<rightharpoonup> 'st escrow) \<Rightarrow> string \<Rightarrow> (string \<rightharpoonup> 'st escrow)" where
  "EscrowUnregister r k = r(k := None)"

definition EscrowGet :: "(string \<rightharpoonup> 'st escrow) \<Rightarrow> string \<Rightarrow> 'st escrow option" where
  "EscrowGet r k = r k"

fun pickLoop :: "(string \<rightharpoonup> 'st escrow) \<Rightarrow> string set option \<Rightarrow> string list \<Rightarrow> 'st escrow option" where
  "pickLoop r accepted [] = None"
| "pickLoop r accepted (k # ks) =
     (case r k of
        None \<Rightarrow> pickLoop r accepted ks
      | Some e \<Rightarrow> if skips accepted k then pickLoop r accepted ks else Some e)"

definition PickFor :: "string list \<Rightarrow> (string \<rightharpoonup> 'st escrow) \<Rightarrow> contract \<Rightarrow> string list + 'st escrow" where
  "PickFor ord r c =
     (case pickLoop r (acceptedSet (AcceptedEscrows c)) ord of
        None \<Rightarrow> Inl (AcceptedEscrows c) | Some e \<Rightarrow> Inr e)"

datatype redeemErr = EscrowNotRegistered string | RedeemFailed string

definition Redeem :: "(string \<rightharpoonup> 'st escrow) \<Rightarrow> 'st \<Rightarrow> escrowRef \<Rightarrow> receipt \<Rightarrow> 'st \<times> (redeemErr + bytes)" where
  "Redeem r st ref rec =
     (case r (EscrowID ref) of
        None \<Rightarrow> (st, Inl (EscrowNotRegistered (EscrowID ref)))
      | Some e \<Rightarrow> (case eRedeem e st ref rec of
            (st', Inl err) \<Rightarrow> (st', Inl (RedeemFailed err))
          | (st', Inr k) \<Rightarrow> (st', Inr k)))"

section \<open>The default seal\<close>

record aead =
  aKeySize :: nat
  aNonceSize :: nat
  aNew :: "bytes \<Rightarrow> string option"
  aSeal :: "bytes \<Rightarrow> bytes \<Rightarrow> bytes \<Rightarrow> bytes \<Rightarrow> bytes"
  aOpen :: "bytes \<Rightarrow> bytes \<Rightarrow> bytes \<Rightarrow> bytes \<Rightarrow> string + bytes"

definition DefaultSealID :: string where
  "DefaultSealID = ''seal/chacha20-poly1305-v1''"

definition nonceError :: "aead \<Rightarrow> bytes \<Rightarrow> string" where
  "nonceError a nonce = ''seal: nonce size '' @ showNat (length nonce) @ '', want '' @ showNat (aNonceSize a)"

definition chachaEncrypt :: "aead \<Rightarrow> bytes \<Rightarrow> bytes \<Rightarrow> bytes \<Rightarrow> bytes \<Rightarrow> string + bytes" where
  "chachaEncrypt a plaintext key nonce ad =
     (case aNew a key of
        Some e \<Rightarrow> Inl (''seal: new aead: '' @ e)
      | None \<Rightarrow> if length nonce \<noteq> aNonceSize a then Inl (nonceError a nonce) else Inr (aSeal a key nonce plaintext ad))"

definition chachaDecrypt :: "aead \<Rightarrow> bytes \<Rightarrow> bytes \<Rightarrow> bytes \<Rightarrow> bytes \<Rightarrow> string + bytes" where
  "chachaDecrypt a ciphertext key nonce ad =
     (case aNew a key of
        Some e \<Rightarrow> Inl (''seal: new aead: '' @ e)
      | None \<Rightarrow> if length nonce \<noteq> aNonceSize a then Inl (nonceError a nonce) else aOpen a key nonce ciphertext ad)"

definition DefaultSeal :: "aead \<Rightarrow> seal" where
  "DefaultSeal a = \<lparr> sID = DefaultSealID, sKeySize = aKeySize a, sNonceSize = aNonceSize a,
     sEncrypt = chachaEncrypt a, sDecrypt = chachaDecrypt a \<rparr>"

definition SealRegister :: "(string \<rightharpoonup> seal) \<Rightarrow> seal option \<Rightarrow> (string \<rightharpoonup> seal) \<times> regErr option" where
  "SealRegister r s =
     (case s of
        None \<Rightarrow> (r, Some NilEntry)
      | Some x \<Rightarrow> if sID x = [] then (r, Some IDRequired) else (r(sID x \<mapsto> x), None))"

definition NewSealRegistry :: "aead \<Rightarrow> string \<rightharpoonup> seal" where
  "NewSealRegistry a = fst (SealRegister Map.empty (Some (DefaultSeal a)))"

definition SealGet :: "(string \<rightharpoonup> seal) \<Rightarrow> string \<Rightarrow> seal option" where
  "SealGet r k = r k"

text \<open>\<open>rnd n\<close> is what \<^verbatim>\<open>crypto/rand\<close> fills \<open>n\<close> bytes with, or its error.\<close>

definition RandomKey :: "(nat \<Rightarrow> string + bytes) \<Rightarrow> seal \<Rightarrow> string + bytes" where
  "RandomKey rnd s = (case rnd (sKeySize s) of Inl e \<Rightarrow> Inl (''seal: random key: '' @ e) | Inr k \<Rightarrow> Inr k)"

definition RandomNonce :: "(nat \<Rightarrow> string + bytes) \<Rightarrow> seal \<Rightarrow> string + bytes" where
  "RandomNonce rnd s = (case rnd (sNonceSize s) of Inl e \<Rightarrow> Inl (''seal: random nonce: '' @ e) | Inr n \<Rightarrow> Inr n)"

section \<open>The contract of an id registry\<close>

locale id_registry =
  fixes register :: "'r \<Rightarrow> 'a option \<Rightarrow> 'r \<times> regErr option"
    and get :: "'r \<Rightarrow> string \<Rightarrow> 'a option"
    and idOf :: "'a \<Rightarrow> string"
  assumes register_nil: "register r None = (r, Some NilEntry)"
    and register_noid: "idOf x = [] \<Longrightarrow> register r (Some x) = (r, Some IDRequired)"
    and register_ok: "idOf x \<noteq> [] \<Longrightarrow> snd (register r (Some x)) = None"
    and get_register: "idOf x \<noteq> [] \<Longrightarrow> get (fst (register r (Some x))) k = (if k = idOf x then Some x else get r k)"
begin

text \<open>The entry found under an id is the last one registered with that id, if any was.\<close>

lemma last_wins:
  "get (foldl (\<lambda>r x. fst (register r x)) r xs) k =
     (case find (\<lambda>x. x \<noteq> None \<and> idOf (the x) = k \<and> k \<noteq> []) (rev xs) of
        Some x \<Rightarrow> x
      | None \<Rightarrow> get r k)"
proof (induction xs rule: rev_induct)
  case (snoc x xs)
  show ?case
  proof (cases "\<exists>y. x = Some y \<and> idOf y \<noteq> []")
    case True
    then show ?thesis using snoc by (auto simp: get_register)
  next
    case False
    then have "fst (register r' x) = r'" for r'
      by (cases x) (auto simp: register_nil register_noid)
    moreover have "\<not> (x \<noteq> None \<and> idOf (the x) = k \<and> k \<noteq> [])" using False by (cases x) auto
    ultimately show ?thesis using snoc by auto
  qed
qed simp

lemma error_iff: "snd (register r x) \<noteq> None \<longleftrightarrow> x = None \<or> idOf (the x) = []"
proof (cases x)
  case (Some y)
  then show ?thesis using register_ok[of y r] register_noid[of y r] by (cases "idOf y = []") auto
qed (simp add: register_nil)

end

interpretation methods: id_registry MethodRegister MethodGet mID
  by unfold_locales (simp_all add: MethodRegister_def MethodGet_def)

interpretation escrows: id_registry EscrowRegister EscrowGet eID
  by unfold_locales (simp_all add: EscrowRegister_def EscrowGet_def)

interpretation seals: id_registry SealRegister SealGet sID
  by unfold_locales (simp_all add: SealRegister_def SealGet_def)

lemma new_registries:
  "MethodGet NewMethodRegistry k = None" "EscrowGet NewEscrowRegistry k = None"
  "SealGet (NewSealRegistry a) k = (if k = DefaultSealID then Some (DefaultSeal a) else None)"
  by (simp_all add: NewMethodRegistry_def MethodGet_def NewEscrowRegistry_def EscrowGet_def NewSealRegistry_def
      SealGet_def SealRegister_def DefaultSeal_def DefaultSealID_def)

text \<open>In each of the three registries, after any registrations, the entry under an id is the last
  one offered with that id (an entry without id and a nil entry are never stored); the seal registry
  starts with the default seal, which a later registration can replace and nothing can remove.\<close>

theorem registries_last_wins:
  "MethodGet (foldl (\<lambda>r x. fst (MethodRegister r x)) NewMethodRegistry ms) k
      = (case find (\<lambda>x. x \<noteq> None \<and> mID (the x) = k \<and> k \<noteq> []) (rev ms) of Some x \<Rightarrow> x | None \<Rightarrow> None)
   \<and> EscrowGet (foldl (\<lambda>r x. fst (EscrowRegister r x)) NewEscrowRegistry es) k
      = (case find (\<lambda>x. x \<noteq> None \<and> eID (the x) = k \<and> k \<noteq> []) (rev es) of Some x \<Rightarrow> x | None \<Rightarrow> None)
   \<and> SealGet (foldl (\<lambda>r x. fst (SealRegister r x)) (NewSealRegistry a) ss) k
      = (case find (\<lambda>x. x \<noteq> None \<and> sID (the x) = k \<and> k \<noteq> []) (rev ss) of
           Some x \<Rightarrow> x
         | None \<Rightarrow> if k = DefaultSealID then Some (DefaultSeal a) else None)"
  by (simp only: methods.last_wins escrows.last_wins seals.last_wins new_registries simp_thms)

section \<open>Choosing a method or an escrow\<close>

definition accepts :: "string list \<Rightarrow> string \<Rightarrow> bool" where
  "accepts ids k \<longleftrightarrow> ids = [] \<or> k \<in> set ids"

lemma skips_accepts: "skips (acceptedSet ids) k \<longleftrightarrow> \<not> accepts ids k"
  by (simp add: skips_def acceptedSet_def accepts_def)

lemma satisfyLoop_sound:
  assumes "satisfyLoop r acc c ks st lc = (st', Inr rec)"
  shows "\<exists>k m st0. k \<in> set ks \<and> r k = Some m \<and> \<not> skips acc k \<and> mSatisfy m st0 c = (st', Inr rec)"
  using assms
proof (induction ks arbitrary: st lc)
  case (Cons k ks)
  then show ?case by (fastforce split: option.splits if_splits prod.splits sum.splits satErr.splits)
qed simp

lemma satisfyLoop_finds:
  assumes "\<And>k m st0 st1 e. k \<in> set ks \<Longrightarrow> r k = Some m \<Longrightarrow> \<not> skips acc k \<Longrightarrow> mSatisfy m st0 c \<noteq> (st1, Inl (Failed e))"
    and "k0 \<in> set ks" and "r k0 = Some m0" and "\<not> skips acc k0"
    and "\<And>st0. \<exists>st1 rec. mSatisfy m0 st0 c = (st1, Inr rec)"
  shows "\<exists>st' rec. satisfyLoop r acc c ks st lc = (st', Inr rec)"
  using assms(1,2)
proof (induction ks arbitrary: st lc)
  case (Cons k ks)
  have ih: "\<exists>st' rec. satisfyLoop r acc c ks st lc = (st', Inr rec)" if "k0 \<in> set ks" for st lc
  proof (rule Cons.IH[OF _ that])
    show "mSatisfy m st0 c \<noteq> (st1, Inl (Failed e))" if "j \<in> set ks" "r j = Some m" "\<not> skips acc j" for j m st0 st1 e
      using Cons.prems(1)[of j m st0 st1 e] that by simp
  qed
  show ?case
  proof (cases "r k = None \<or> skips acc k")
    case True
    then have "k0 \<noteq> k" using assms(3,4) by auto
    then have "\<exists>st' rec. satisfyLoop r acc c ks st lc = (st', Inr rec)" using ih Cons.prems(2) by simp
    with True show ?thesis by (auto split: option.splits)
  next
    case False
    then obtain m where m: "r k = Some m" "\<not> skips acc k" by auto
    obtain st1 out where o: "mSatisfy m st c = (st1, out)" by fastforce
    show ?thesis
    proof (cases out)
      case (Inr rec)
      then show ?thesis using m o by simp
    next
      case (Inl e)
      have "k0 \<noteq> k" using assms(3,5) m o Inl by (metis Inl_Inr_False option.inject prod.inject)
      moreover obtain t where "e = Cannot t" using Cons.prems(1)[of k m st st1] m o Inl by (cases e) auto
      ultimately show ?thesis using ih Cons.prems(2) m o Inl by simp
    qed
  qed
qed simp

text \<open>A receipt from the registry comes from a registered method the contract accepts, and the
  world is left as that method left it.\<close>

theorem Satisfy_sound:
  assumes "Satisfy ord r st c = (st', Inr rec)"
  shows "\<exists>k m st0. r k = Some m \<and> accepts (AcceptedMethods c) k \<and> mSatisfy m st0 c = (st', Inr rec)"
  using satisfyLoop_sound[OF assms[unfolded Satisfy_def]] by (auto simp: skips_accepts)

text \<open>C30. Whatever order the map is walked in, if some accepted method can always satisfy the contract
  and no accepted method fails for a reason other than being out of scope, a receipt is produced.\<close>

theorem Satisfy_finds:
  assumes "enumerates ord r" and "r k0 = Some m0" and "accepts (AcceptedMethods c) k0"
    and "\<And>st0. \<exists>st1 rec. mSatisfy m0 st0 c = (st1, Inr rec)"
    and "\<And>k m st0 st1 e. r k = Some m \<Longrightarrow> accepts (AcceptedMethods c) k \<Longrightarrow> mSatisfy m st0 c \<noteq> (st1, Inl (Failed e))"
  shows "\<exists>st' rec. Satisfy ord r st c = (st', Inr rec)"
  unfolding Satisfy_def
  by (rule satisfyLoop_finds[where ?k0.0 = k0 and ?m0.0 = m0])
     (use assms in \<open>auto simp: enumerates_def skips_accepts\<close>)

text \<open>\<^verbatim>\<open>PickFor\<close> returns a registered escrow the contract accepts, and finds one exactly when
  there is one, in whatever order the map is walked.\<close>

theorem PickFor_iff:
  assumes "enumerates ord r"
  shows "(case PickFor ord r c of
      Inr e \<Rightarrow> \<exists>k. r k = Some e \<and> accepts (AcceptedEscrows c) k
    | Inl ids \<Rightarrow> ids = AcceptedEscrows c \<and> (\<nexists>k e. r k = Some e \<and> accepts (AcceptedEscrows c) k))"
proof -
  have "(case pickLoop r acc ks of
      Some e \<Rightarrow> \<exists>k \<in> set ks. r k = Some e \<and> \<not> skips acc k
    | None \<Rightarrow> \<forall>k \<in> set ks. r k = None \<or> skips acc k)" for acc ks
    by (induction r acc ks rule: pickLoop.induct) (auto split: option.splits)
  from this[of ord "acceptedSet (AcceptedEscrows c)"] show ?thesis
    using assms by (auto simp: PickFor_def enumerates_def skips_accepts split: option.splits)
qed

text \<open>A rail that always pays and one that never does.\<close>

definition payingMethod :: "nat payMethod" where
  "payingMethod = \<lparr> mID = ''io.pilot.wallet/v1'',
     mSatisfy = (\<lambda>n c. (Suc n, Inr \<lparr> RContractID = CID c, MethodID = ''io.pilot.wallet/v1'', RPayload = [] \<rparr>)),
     mVerify = (\<lambda>n c r. (n, if RContractID r = CID c then None else Some ''contract'')) \<rparr>"

definition decliningMethod :: "nat payMethod" where
  "decliningMethod = payingMethod\<lparr>mID := ''io.other/v1'', mSatisfy := (\<lambda>n c. (n, Inl (Cannot ''asset'')))\<rparr>"

definition exampleRails :: "string \<rightharpoonup> nat payMethod" where
  "exampleRails = [''io.pilot.wallet/v1'' \<mapsto> payingMethod, ''io.other/v1'' \<mapsto> decliningMethod]"

definition exampleContract :: contract where
  "exampleContract = \<lparr> CID = ''c1'', Amount = 5, Asset = ''PLT'', RecipientAddr = ''1:0001'', ExpiresAt = 0, CNonce = ''n'',
     AcceptedMethods = [], AcceptedEscrows = [''e''], Memo = [] \<rparr>"

theorem Satisfy_sound_witness:
  "\<exists>k m st0. exampleRails k = Some m \<and> accepts (AcceptedMethods exampleContract) k
    \<and> mSatisfy m st0 exampleContract = (1, Inr \<lparr> RContractID = ''c1'', MethodID = ''io.pilot.wallet/v1'', RPayload = [] \<rparr>)"
  by (rule Satisfy_sound[where ord = "[''io.other/v1'', ''io.pilot.wallet/v1'']" and st = 0])
     (simp add: Satisfy_def exampleRails_def exampleContract_def acceptedSet_def skips_def payingMethod_def decliningMethod_def)

theorem Satisfy_finds_witness:
  "\<exists>st' rec. Satisfy [''io.other/v1'', ''io.pilot.wallet/v1''] exampleRails 0 exampleContract = (st', Inr rec)"
proof (rule Satisfy_finds[where ?k0.0 = "''io.pilot.wallet/v1''" and ?m0.0 = payingMethod])
  show "mSatisfy m st0 exampleContract \<noteq> (st1, Inl (Failed e))" if "exampleRails k = Some m" for k m st0 st1 e
    using that by (auto simp: exampleRails_def payingMethod_def decliningMethod_def split: if_splits)
qed (auto simp: exampleRails_def enumerates_def accepts_def exampleContract_def payingMethod_def)

theorem PickFor_iff_witness:
  "(case PickFor [] (NewEscrowRegistry :: string \<rightharpoonup> nat escrow) exampleContract of Inr e \<Rightarrow> False | Inl ids \<Rightarrow> ids = [''e''])"
  using PickFor_iff[of "[]" "NewEscrowRegistry :: string \<rightharpoonup> nat escrow" exampleContract]
  by (simp add: enumerates_def NewEscrowRegistry_def exampleContract_def split: sum.splits)

section \<open>Sealing\<close>

text \<open>What the cipher package documents: a key is accepted exactly at its size, and opening what was
  sealed under the same key, nonce and associated data gives the text.\<close>

definition documentedAEAD :: "aead \<Rightarrow> bool" where
  "documentedAEAD a \<longleftrightarrow> (\<forall>key. aNew a key = None \<longleftrightarrow> length key = aKeySize a) \<and>
     (\<forall>key nonce pt ad. length key = aKeySize a \<longrightarrow> length nonce = aNonceSize a \<longrightarrow>
        aOpen a key nonce (aSeal a key nonce pt ad) ad = Inr pt)"

text \<open>With a key and a nonce drawn for the default seal, sealing succeeds and unsealing gives the
  text back; a key or nonce of another size is refused by both directions before the cipher runs.\<close>

theorem seal_roundtrip:
  assumes "documentedAEAD a" and "\<And>n b. rnd n = Inr b \<Longrightarrow> length b = n"
    and "RandomKey rnd (DefaultSeal a) = Inr key" and "RandomNonce rnd (DefaultSeal a) = Inr nonce"
  shows "(\<exists>ct. sEncrypt (DefaultSeal a) pt key nonce ad = Inr ct \<and> sDecrypt (DefaultSeal a) ct key nonce ad = Inr pt)
    \<and> (length key' = aKeySize a \<and> length nonce' = aNonceSize a \<or>
        (\<exists>e. sEncrypt (DefaultSeal a) pt key' nonce' ad = Inl e \<and> sDecrypt (DefaultSeal a) ct' key' nonce' ad = Inl e))"
proof -
  have sz: "length key = aKeySize a" "length nonce = aNonceSize a"
    using assms(2-4) by (auto simp: RandomKey_def RandomNonce_def DefaultSeal_def split: sum.splits)
  have nw: "aNew a k = None \<longleftrightarrow> length k = aKeySize a" for k using assms(1) by (simp add: documentedAEAD_def)
  have "aOpen a key nonce (aSeal a key nonce pt ad) ad = Inr pt"
    using assms(1) sz by (simp add: documentedAEAD_def)
  moreover have "aNew a key = None" using nw sz by simp
  ultimately show ?thesis
    using sz nw[of key'] by (auto simp: DefaultSeal_def chachaEncrypt_def chachaDecrypt_def split: option.splits)
qed

definition toyAEAD :: aead where
  "toyAEAD = \<lparr> aKeySize = 2, aNonceSize = 1, aNew = (\<lambda>k. if length k = 2 then None else Some ''bad key length''),
     aSeal = (\<lambda>k n p ad. rev p @ ad), aOpen = (\<lambda>k n c ad. Inr (rev (take (length c - length ad) c))) \<rparr>"

lemma toyAEAD_ok: "documentedAEAD toyAEAD"
  by (simp add: documentedAEAD_def toyAEAD_def)

theorem seal_roundtrip_witness:
  "\<exists>ct. sEncrypt (DefaultSeal toyAEAD) ''hi'' ''kk'' ''n'' ''x'' = Inr ct
     \<and> sDecrypt (DefaultSeal toyAEAD) ct ''kk'' ''n'' ''x'' = Inr ''hi''"
proof -
  let ?rnd = "\<lambda>n. if n = 2 then Inr ''kk'' else if n = 1 then Inr ''n'' else Inl ''short''"
  have "length b = n" if "?rnd n = Inr b" for n b using that by (auto split: if_splits)
  moreover have "RandomKey ?rnd (DefaultSeal toyAEAD) = Inr ''kk''" "RandomNonce ?rnd (DefaultSeal toyAEAD) = Inr ''n''"
    by (simp_all add: RandomKey_def RandomNonce_def DefaultSeal_def toyAEAD_def)
  ultimately show ?thesis using seal_roundtrip[OF toyAEAD_ok, of ?rnd "''kk''" "''n''"] by blast
qed

end
