(* ===== verification/Provenance.thy ===== *)
theory Provenance
  imports Supervision
begin

text \<open>
  The whole of the trust chain, from what a publisher signs to what runs, in an environment where the pinned
  key has signed a list of published manifests and nothing else.
\<close>

section \<open>Two parsed manifests with one payload\<close>

text \<open>Two valid manifests that were parsed and have the same signing payload agree on all that is signed, the
  grants themselves included, unless their canonical forms collide.\<close>

lemma parsed_payload:
  assumes "goodFloats (cfloats cr)" and "Parse (cfloats cr) a = Some m" and "Parse (cfloats cr) b = Some m'"
    and "valid_manifest m" and "valid_manifest m'" and "signingPayload cr m = Inr p" and "signingPayload cr m' = Inr p"
    and "csha256 cr (grantsText (cfloats cr) False (Grants m)) = csha256 cr (grantsText (cfloats cr) False (Grants m')) \<Longrightarrow>
      grantsText (cfloats cr) False (Grants m) = grantsText (cfloats cr) False (Grants m')"
  shows "Publisher (Store m) = Publisher (Store m') \<and> ID m = ID m' \<and> ManifestVersion m = ManifestVersion m'
    \<and> SHA256 (Binary m) = SHA256 (Binary m') \<and> Grants m = Grants m'"
proof -
  have f: "Publisher (Store m) = Publisher (Store m')" "ID m = ID m'" "ManifestVersion m = ManifestVersion m'"
    "SHA256 (Binary m) = SHA256 (Binary m')"
    "csha256 cr (grantsText (cfloats cr) False (Grants m)) = csha256 cr (grantsText (cfloats cr) False (Grants m'))"
    using signingPayload_split[OF assms(4,6)] signingPayload_split[OF assms(5,7)] by (auto simp: canonicalJSON_def)
  have t: "list_all (okGrant (cfloats cr) (maxNestingDepth - 2)) (Grants m)" "list_all (okGrant (cfloats cr) (maxNestingDepth - 2)) (Grants m')"
    using Parse_typed[OF assms(1,2)] Parse_typed[OF assms(1,3)] by (simp_all only: typedManifest_def)
  have "Grants m = Grants m'"
    by (rule grantsText_inject[OF assms(1) t _ assms(8)[OF f(5)]]) (simp add: maxNestingDepth_def)
  then show ?thesis using f by simp
qed

section \<open>What runs is what was published\<close>

text \<open>C2. A running catalogue app is one its publisher signed: if the key the catalogue pins for it verifies
  nothing but the payloads of a list of valid published manifests, and SHA-256 does not confuse their
  grants with the app's, then one of these has the app's id, publisher, manifest version and exactly its
  grants, and pins the digest of the very bytes that were checked before the process was started. This
  holds in every reachable state, whatever was put on the disk.\<close>

theorem catalogue_runs_published:
  assumes "reach (started env) (systemStep env) \<sigma>" and "g \<in> set (gos \<sigma>)" and "phase g = Running pid b" and "\<not> Sideloaded (gApp g)"
    and "decodeEd25519Pub (pinnedPublisher (cfg (svr \<sigma>)) (ID (Mf (gApp g)))) = Inr key"
  defines "cr \<equiv> crypt (scanning env)" and "gs \<equiv> Grants (Mf (gApp g))"
  assumes "goodFloats (cfloats cr)"
    and "\<And>payload sig. cverify cr key payload sig \<Longrightarrow> \<exists>m \<in> set published. signingPayload cr m = Inr payload"
    and "\<And>m. m \<in> set published \<Longrightarrow> Validate m = [] \<and> (\<exists>data. Parse (cfloats cr) data = Some m)"
    and "\<And>m. m \<in> set published \<Longrightarrow> csha256 cr (grantsText (cfloats cr) False (Grants m)) = csha256 cr (grantsText (cfloats cr) False gs) \<Longrightarrow>
      grantsText (cfloats cr) False (Grants m) = grantsText (cfloats cr) False gs"
  shows "\<exists>m \<in> set published. ID m = ID (Mf (gApp g)) \<and> Publisher (Store m) = Publisher (Store (Mf (gApp g)))
    \<and> ManifestVersion m = ManifestVersion (Mf (gApp g)) \<and> Grants m = gs \<and> sha256Hex cr b = SHA256 (Binary m)"
proof -
  let ?a = "Mf (gApp g)"
  have "systemOK env \<sigma>" using assms(1) by (rule supervision.reach_inv)
  then have v: "vouched (scanning env) (cfg (svr \<sigma>)) (gApp g)" "goroutineOK env g" using assms(2) by (simp_all add: systemOK_def)
  then obtain bs where a: "valid_manifest ?a" "Parse (cfloats cr) bs = Some ?a"
    by (auto simp: vouched_def Let_def parseManifest_def cr_def split: option.splits)
  have "\<exists>key sig payload. decodeEd25519Pub (pinnedPublisher (cfg (svr \<sigma>)) (ID ?a)) = Inr key \<and> signingPayload cr ?a = Inr payload
      \<and> cverify cr key payload sig"
    using v(1) assms(4) trust_chain_key[of cr ?a "pinnedPublisher (cfg (svr \<sigma>)) (ID ?a)"]
    by (auto simp: vouched_def Let_def cr_def)
  then obtain sig payload where p: "signingPayload cr ?a = Inr payload" "cverify cr key payload sig"
    using assms(5) by auto
  then obtain m where m: "m \<in> set published" "signingPayload cr m = Inr payload" using assms(9) by blast
  then obtain data where d: "valid_manifest m" "Parse (cfloats cr) data = Some m" using assms(10) by (auto simp: Validate_iff)
  from parsed_payload[OF assms(8) d(2) a(2) d(1) a(1) m(2) p(1)]
  have "Publisher (Store m) = Publisher (Store ?a) \<and> ID m = ID ?a \<and> ManifestVersion m = ManifestVersion ?a
      \<and> SHA256 (Binary m) = SHA256 (Binary ?a) \<and> Grants m = Grants ?a"
    using assms(11)[OF m(1)] by (simp add: gs_def)
  moreover have "sha256Hex cr b = SHA256 (Binary ?a)" using v(2) assms(3) by (simp add: goroutineOK_def verified_def cr_def)
  ultimately show ?thesis using m(1) by (auto simp: gs_def)
qed

section \<open>An example\<close>

text \<open>One published manifest, installed from the catalogue; the key verifies its payload and no other.\<close>

definition pubText :: bytes where
  "pubText = MarshalManifest intFloats False (\<lambda>_. False) exampleCatalogue"

definition pubPayload :: "sigErr + bytes" where
  "pubPayload = signingPayload exampleCrypto exampleCatalogue"

definition pubCrypto :: crypto where
  "pubCrypto = \<lparr> csha256 = csha256 exampleCrypto, cverify = (\<lambda>pk msg sig. Inr msg = pubPayload \<and> sig = replicate 64 (CHR 0x00)),
     cfloats = intFloats \<rparr>"

definition pubEnv :: superviseEnv where
  "pubEnv = exampleSEnv\<lparr>scanning := exampleEnv\<lparr>crypt := pubCrypto\<rparr>\<rparr>"

definition pubDisk :: files where
  "pubDisk = \<lparr> entries = [(''/apps'', Directory), (''/apps/io.pilot.hello'', Directory),
     (''/apps/io.pilot.hello/manifest.json'', Regular pubText)], denied = [] \<rparr>"

definition pubConfig :: config where
  "pubConfig = exampleConfig\<lparr>CataloguePublisher := Some (\<lambda>_. ('' '' @ replicate 43 (CHR ''A'') @ ''='', True))\<rparr>"

definition pubApp :: installedApp where
  "pubApp = exampleApp\<lparr>Mf := exampleCatalogue, Sideloaded := False\<rparr>"

lemma pub_crypt: "crypt (scanning pubEnv) = pubCrypto" "workDir (scanning pubEnv) = None"
  by (simp_all add: pubEnv_def exampleEnv_def)

lemma exampleCatalogue_typed: "typedManifest intFloats 10 exampleCatalogue"
proof -
  have "validUTF8 (replicate 64 (CHR ''0''))" "validUTF8 (''ed25519:'' @ replicate 43 (CHR ''A'') @ ''='')"
    "validUTF8 (replicate 86 (CHR ''A'') @ ''=='')" by code_simp+
  then show ?thesis
    by (simp add: typedManifest_def exampleCatalogue_def exampleSideload_def okGrant_def typedBinary_def
      typedStore_def validUTF8_ascii int64_def)
qed

lemma pub_parses: "Parse intFloats pubText = Some exampleCatalogue"
  unfolding pubText_def by (rule Parse_Marshal[OF goodFloats_intFloats exampleCatalogue_typed]) (simp add: maxNestingDepth_def)

lemma pub_parsed: "parseManifest (scanning pubEnv) pubText = Inr exampleCatalogue"
  using pub_parses by (simp add: parseManifest_def pub_crypt pubCrypto_def)

lemma pub_payload: "signingPayload pubCrypto exampleCatalogue = pubPayload" "\<exists>p. pubPayload = Inr p"
  by (simp_all add: pubPayload_def signingPayload_def pubCrypto_def canonicalJSON_def exampleCrypto_def)

lemma pub_signed: "VerifySignature pubCrypto exampleCatalogue = None"
proof -
  have c: "hasPrefix (Publisher (Store exampleCatalogue)) ''ed25519:''"
    "b64Decode (drop (length ''ed25519:'') (Publisher (Store exampleCatalogue))) = Some (replicate 32 (CHR 0x00))"
    "b64Decode (trimPrefix (Signature (Store exampleCatalogue)) ''ed25519:'') = Some (replicate 64 (CHR 0x00))" by code_simp+
  obtain p where "pubPayload = Inr p" using pub_payload(2) by blast
  then have p: "signingPayload pubCrypto exampleCatalogue = Inr p" "cverify pubCrypto pk p (replicate 64 (CHR 0x00))" for pk
    using pub_payload(1) by (simp_all add: pubCrypto_def)
  then show ?thesis unfolding VerifySignature_def Let_def c(2,3) using c(1) by simp
qed

lemma pub_trusted:
  "trustedInstall (scanning pubEnv) (newSupervisor pubConfig pubDisk) ''io.pilot.hello'' pubApp
   \<and> dueNow (scanning pubEnv) clk (newSupervisor pubConfig pubDisk) pubApp"
proof -
  have v: "valid_manifest exampleCatalogue" using exampleCatalogue_ok by (simp only: Validate_iff)
  have c: "ID exampleCatalogue = ''io.pilot.hello''" "Join [''/apps'', ''io.pilot.hello''] = ''/apps/io.pilot.hello''"
    "resolveUnder None ''/apps/io.pilot.hello'' (Path (Binary exampleCatalogue)) = Inr ''/apps/io.pilot.hello/bin/hello''"
    "Join [''/apps/io.pilot.hello'', ''app.sock''] = ''/apps/io.pilot.hello/app.sock''"
    "Join [''/apps/io.pilot.hello'', ''data.db''] = ''/apps/io.pilot.hello/data.db''"
    "Join [''/apps/io.pilot.hello'', ''identity.json''] = ''/apps/io.pilot.hello/identity.json''"
    "manifestPath ''/apps/io.pilot.hello'' = ''/apps/io.pilot.hello/manifest.json''"
    "Join [''/apps/io.pilot.hello'', SideloadMarkerName] = ''/apps/io.pilot.hello/.sideloaded''"
    by code_simp+
  have d: "ReadFile pubDisk ''/apps/io.pilot.hello/manifest.json'' = Inr pubText"
    "Stat pubDisk ''/apps/io.pilot.hello/.sideloaded'' = Inl NotExist"
    "isSymlink (Lstat pubDisk ''/apps/io.pilot.hello/bin/hello'') = False"
    by (simp_all add: pubDisk_def ReadFile_def Stat_def maxLinks_def Lstat_def nodeAt_def isSymlink_def numeral_eq_Suc)
  have "VerifyTrustAnchor exampleCatalogue ('' '' @ replicate 43 (CHR ''A'') @ ''='') = None" using exampleCatalogue_ok by blast
  then show ?thesis
    using v c d pub_signed pub_parsed
    by (simp add: trustedInstall_def dueNow_def Let_def newSupervisor_def pubApp_def exampleApp_def pub_crypt pubConfig_def
      exampleConfig_def pinnedPublisher_def shouldAttemptSignature_def)
qed

lemma pub_running:
  "\<exists>\<sigma> g. reach (started pubEnv) (systemStep pubEnv) \<sigma> \<and> gos \<sigma> = [g] \<and> gApp g = pubApp \<and> phase g = Running 42 []"
proof -
  let ?s = "newSupervisor pubConfig pubDisk" and ?f = "pubDisk\<lparr>entries := (BinaryPath pubApp, Regular []) # entries pubDisk\<rparr>"
  have dir: "ReadDir (disk ?s) (InstallRoot (cfg ?s)) = Inr [(''io.pilot.hello'', True)]"
  proof -
    have "ReadDir \<lparr> entries = [(''/apps'', Directory), (''/apps/io.pilot.hello'', Directory),
        (''/apps/io.pilot.hello/manifest.json'', Regular t)], denied = [] \<rparr> ''/apps'' = Inr [(''io.pilot.hello'', True)]" for t
      by code_simp
    then have "ReadDir pubDisk ''/apps'' = Inr [(''io.pilot.hello'', True)]" by (simp only: pubDisk_def)
    then show ?thesis by (simp add: newSupervisor_def pubConfig_def exampleConfig_def)
  qed
  have "\<exists>s apps. scanInstalled (scanning pubEnv) (\<lambda>_. 0) ?s = (s, Inr apps)"
    using dir by (simp add: scanInstalled_def split: prod.splits)
  then obtain s apps where s: "scanInstalled (scanning pubEnv) (\<lambda>_. 0) ?s = (s, Inr apps)" by blast
  have "apps = [pubApp]" by (rule scan_one[OF s dir]) (use pub_trusted in blast)+
  have "sha256Hex exampleCrypto [] = SHA256 (Binary exampleCatalogue)" by code_simp
  then have h: "sha256Hex pubCrypto [] = SHA256 (Binary exampleCatalogue)" by (simp add: sha256Hex_def pubCrypto_def)
  have c: "Lstat ?f (BinaryPath pubApp) = Inr (Regular [])" "Stat ?f (BinaryPath pubApp) = Inr (Regular [])"
    "contentAt ?f (BinaryPath pubApp) = []"
    by (simp_all add: contentAt_def Stat_def maxLinks_def Lstat_def nodeAt_def pubDisk_def numeral_eq_Suc)
  then have v: "verifyBinary pubEnv s pubApp = None" "verifyAtSpawn pubEnv s pubApp = None"
    if "disk s = ?f" for s
    using that h by (simp_all add: verifyAtSpawn_def verifyBinary_def Let_def pub_crypt pubApp_def)
  obtain \<sigma> g where r: "reach (started pubEnv) (orderlyStep pubEnv) \<sigma>" "gos \<sigma> = [g]" "gApp g = pubApp" "phase g = Running 42 []"
    using running_one[where f' = ?f and a = pubApp, OF s[unfolded \<open>apps = [pubApp]\<close>] v] c(3) by auto
  have "reach (started pubEnv) (systemStep pubEnv) \<sigma>"
    by (rule reach_mono[OF r(1)]) (simp add: orderlyStep_def)
  then show ?thesis using r by blast
qed

theorem catalogue_runs_published_witness:
  "\<exists>\<sigma> g. reach (started pubEnv) (systemStep pubEnv) \<sigma> \<and> gos \<sigma> = [g] \<and> phase g = Running 42 [] \<and> \<not> Sideloaded (gApp g)
     \<and> ID exampleCatalogue = ID (Mf (gApp g)) \<and> Grants exampleCatalogue = Grants (Mf (gApp g))
     \<and> sha256Hex pubCrypto [] = SHA256 (Binary exampleCatalogue)"
proof -
  obtain \<sigma> g where r: "reach (started pubEnv) (systemStep pubEnv) \<sigma>" "gos \<sigma> = [g]" "gApp g = pubApp" "phase g = Running 42 []"
    using pub_running by blast
  have "systemOK pubEnv \<sigma>" using r(1) by (rule supervision.reach_inv)
  then have "vouched (scanning pubEnv) (cfg (svr \<sigma>)) pubApp" using r(2,3) by (auto simp: systemOK_def)
  then obtain key where k: "decodeEd25519Pub (pinnedPublisher (cfg (svr \<sigma>)) (ID (Mf (gApp g)))) = Inr key"
    using trust_chain_key[of pubCrypto exampleCatalogue] r(3) by (auto simp: vouched_def Let_def pub_crypt pubApp_def)
  have ns: "\<not> Sideloaded (gApp g)" using r(3) by (simp add: pubApp_def)
  have cr: "crypt (scanning pubEnv) = pubCrypto" by (simp add: pub_crypt)
  have ok: "Validate exampleCatalogue = []" using exampleCatalogue_ok by blast
  have "\<exists>m \<in> set [exampleCatalogue]. ID m = ID (Mf (gApp g)) \<and> Publisher (Store m) = Publisher (Store (Mf (gApp g)))
    \<and> ManifestVersion m = ManifestVersion (Mf (gApp g)) \<and> Grants m = Grants (Mf (gApp g))
    \<and> sha256Hex (crypt (scanning pubEnv)) [] = SHA256 (Binary m)"
  proof (rule catalogue_runs_published[OF r(1) _ r(4) ns k])
    show "\<exists>m \<in> set [exampleCatalogue]. signingPayload (crypt (scanning pubEnv)) m = Inr payload"
      if "cverify (crypt (scanning pubEnv)) key payload sig" for payload sig
      using that pub_payload(1) by (simp add: cr) (simp add: pubCrypto_def)
    show "goodFloats (cfloats (crypt (scanning pubEnv)))" using goodFloats_intFloats by (simp add: cr pubCrypto_def)
    show "Validate m = [] \<and> (\<exists>data. Parse (cfloats (crypt (scanning pubEnv))) data = Some m)" if "m \<in> set [exampleCatalogue]" for m
      using that ok pub_parses by (auto simp: cr pubCrypto_def)
  qed (use r in \<open>auto simp: pubApp_def\<close>)
  then show ?thesis using r ns by (auto simp: cr)
qed

end
