(* ===== verification/Auditlog.thy ===== *)
theory Auditlog
  imports Bookkeeping Clock
begin

text \<open>
  The audit log of \<^verbatim>\<open>plugin/appstore/supervisor.go\<close> seen from outside: the events a reader of the rotated
  files gets back from their lines.
\<close>

section \<open>Reading lines back\<close>

definition allKinds :: "auditKind list" where
  "allKinds = [DowngradeRefusedEv, RebuildApplied, UpgradeApplied, ResumeEv, SuperviseStart, SuperviseStop,
     VerifyFail, SuspendEv, SpawnEv, SpawnFail, ExitEv, ReapOrphan, ReinstalledEv, SocketLost]"

definition decKind :: "auditKind decoder" where
  "decKind raw old =
     (if isNull raw then Some old
      else (case decString raw [] of None \<Rightarrow> None | Some s \<Rightarrow> find (\<lambda>k. eventName k = s) allKinds))"

definition decTime :: "gotime decoder" where
  "decTime raw old = (if isNull raw then Some old else map_option readTime (decString raw []))"

definition eventFields :: "auditEvent fields" where
  "eventFields =
     [(''at'', fieldDec decTime AtTime (\<lambda>v. AtTime_update (\<lambda>_. v))),
      (''app'', fieldDec decString EvApp (\<lambda>v. EvApp_update (\<lambda>_. v))),
      (''event'', fieldDec decKind Event (\<lambda>v. Event_update (\<lambda>_. v))),
      (''pid'', fieldDec decInt PID (\<lambda>v. PID_update (\<lambda>_. v))),
      (''exit_code'', fieldDec decInt ExitCode (\<lambda>v. ExitCode_update (\<lambda>_. v))),
      (''reason'', fieldDec decString Reason (\<lambda>v. Reason_update (\<lambda>_. v))),
      (''sha256'', fieldDec decString EvSHA (\<lambda>v. EvSHA_update (\<lambda>_. v))),
      (''binary_path'', fieldDec decString BinaryAt (\<lambda>v. BinaryAt_update (\<lambda>_. v)))]"

definition zeroEvent :: auditEvent where
  "zeroEvent = \<lparr> AtTime = zeroTime, EvApp = [], Event = SpawnEv, PID = 0, ExitCode = 0, Reason = [], EvSHA = [],
     BinaryAt = [] \<rparr>"

definition typedEvent :: "auditEvent \<Rightarrow> bool" where
  "typedEvent ev =
     (encodable (AtTime ev) \<and> validUTF8 (EvApp ev) \<and> int64 (PID ev) \<and> int64 (ExitCode ev) \<and> validUTF8 (Reason ev)
      \<and> validUTF8 (EvSHA ev) \<and> validUTF8 (BinaryAt ev))"

interpretation jt: json_codec timeJSON decTime zeroTime encodable 0
proof unfold_locales
  fix t
  have "\<not> isNull (timeJSON t)" by (simp add: timeJSON_def isNull_def dquote_def)
  then show "encodable t \<Longrightarrow> decTime (timeJSON t) zeroTime = Some t"
    using validUTF8_timeText[of t] by (simp add: decTime_def timeJSON_quote)
qed (simp_all add: timeJSON_quote tight_jsonQuote)

interpretation jk: json_codec "\<lambda>k. jsonQuote (eventName k)" decKind SpawnEv "\<lambda>_. True" 0
proof unfold_locales
  fix k
  have "validUTF8 (eventName k)" by (rule validUTF8_ascii) (cases k; simp)
  moreover have "find (\<lambda>x. eventName x = eventName k) allKinds = Some k" by (cases k) (simp_all add: allKinds_def)
  moreover have "\<not> isNull (jsonQuote (eventName k))" by (simp add: jsonQuote_def isNull_def dquote_def)
  ultimately show "decKind (jsonQuote (eventName k)) SpawnEv = Some k" by (simp add: decKind_def)
qed (simp_all add: tight_jsonQuote)

lemma event_lookup:
  "lookupField eventFields ''at'' = Some (fieldDec decTime AtTime (\<lambda>v. AtTime_update (\<lambda>_. v)))"
  "lookupField eventFields ''app'' = Some (fieldDec decString EvApp (\<lambda>v. EvApp_update (\<lambda>_. v)))"
  "lookupField eventFields ''event'' = Some (fieldDec decKind Event (\<lambda>v. Event_update (\<lambda>_. v)))"
  "lookupField eventFields ''pid'' = Some (fieldDec decInt PID (\<lambda>v. PID_update (\<lambda>_. v)))"
  "lookupField eventFields ''exit_code'' = Some (fieldDec decInt ExitCode (\<lambda>v. ExitCode_update (\<lambda>_. v)))"
  "lookupField eventFields ''reason'' = Some (fieldDec decString Reason (\<lambda>v. Reason_update (\<lambda>_. v)))"
  "lookupField eventFields ''sha256'' = Some (fieldDec decString EvSHA (\<lambda>v. EvSHA_update (\<lambda>_. v)))"
  "lookupField eventFields ''binary_path'' = Some (fieldDec decString BinaryAt (\<lambda>v. BinaryAt_update (\<lambda>_. v)))"
  by (simp_all add: lookupField_def eventFields_def)

lemma event_keys:
  "validUTF8 ''at''" "validUTF8 ''app''" "validUTF8 ''event''" "validUTF8 ''pid''" "validUTF8 ''exit_code''"
  "validUTF8 ''reason''" "validUTF8 ''sha256''" "validUTF8 ''binary_path''"
  by (simp_all add: validUTF8_ascii)

lemma eventMembers_values: "\<forall>m \<in> set (eventMembers ev). isValue d (snd m)"
  by (auto simp: eventMembers_def omitIf_def timeJSON_quote)

interpretation jev: json_codec "\<lambda>ev. jsonObj (eventMembers ev)" "decStruct eventFields" zeroEvent typedEvent 1
proof unfold_locales
  fix ev :: auditEvent
  show "isValue 1 (jsonObj (eventMembers ev))" using isValue_jsonObj[OF eventMembers_values[of ev 0]] by simp
  show "tight (jsonObj (eventMembers ev))"
    by (rule tight_jsonObj)
      (auto simp: eventMembers_def omitIf_def timeJSON_quote tight_jsonQuote tight_showInt split: if_splits)
  assume t: "typedEvent ev"
  then have "decTime (timeJSON (AtTime ev)) zeroTime = Some (AtTime ev)" by (simp add: jt.reads typedEvent_def)
  then show "decStruct eventFields (jsonObj (eventMembers ev)) zeroEvent = Some ev"
    unfolding decStruct_jsonObj[OF eventMembers_values]
    using t jk.reads
    by (cases ev)
      (auto simp: eventMembers_def decMembers_append decMembers_omit decMembers_field[where ms = "[_]"]
        decMembers_field[where ms = "[_, _]"] event_lookup event_keys fieldDec_def typedEvent_def zeroEvent_def int64_def
        split: option.splits)
qed (simp add: maxNestingDepth_def)

section \<open>One line per event\<close>

text \<open>Printed text has no control characters, so the byte that ends a line occurs nowhere in it.\<close>

definition printable :: "bytes \<Rightarrow> bool" where
  "printable s = list_all (\<lambda>c. 32 \<le> code c) s"

lemma printable_simps [simp]:
  "printable []" "printable (c # s) \<longleftrightarrow> 32 \<le> code c \<and> printable s" "printable (s @ t) \<longleftrightarrow> printable s \<and> printable t"
  by (simp_all add: printable_def)

lemma printable_digits: "set s \<subseteq> set hexLower \<union> set timeChars \<Longrightarrow> printable s"
proof -
  assume s: "set s \<subseteq> set hexLower \<union> set timeChars"
  have "list_all (\<lambda>c. 32 \<le> code c) (hexLower @ timeChars)" by code_simp
  then show "printable s" using s by (auto simp: printable_def list_all_iff)
qed

lemma printable_escASCII: "code c < 128 \<Longrightarrow> printable (escASCII c)"
proof -
  assume c: "code c < 128"
  have "set [hexDigit (code c div 16), hexDigit (code c mod 16)] \<subseteq> set hexLower"
    using c by (simp add: hexDigit_mem less_mult_imp_div_less)
  then have "printable [hexDigit (code c div 16), hexDigit (code c mod 16)]" by (intro printable_digits) blast
  then show ?thesis by (auto simp: escASCII_def bslash_def dquote_def)
qed

lemma printable_escapeBody: "printable (escapeBody s)"
proof (induction s rule: escapeBody.induct)
  case (2 a s)
  consider "code a < 128" | "\<not> code a < 128" "runeLen (a # s) = 0"
    | "\<not> code a < 128" "runeLen (a # s) \<noteq> 0" by blast
  then show ?case
  proof cases
    case 3
    have "32 \<le> code b" if "b \<in> set (take (runeLen (a # s)) (a # s))" for b
      using rune_bytes(1)[OF 3 that] by simp
    then have "printable (take (runeLen (a # s)) (a # s))" unfolding printable_def list_all_iff by blast
    then have "printable (escRune (take (runeLen (a # s)) (a # s)))" by (simp add: escRune_def escU_def bslash_def)
    then show ?thesis using 2(3)[OF 3] 3 by (simp add: escapeBody.simps(2))
  qed (use 2 in \<open>simp_all add: escapeBody.simps(2) printable_escASCII escU_def bslash_def\<close>)
qed simp

lemma printable_jsonQuote [simp]: "printable (jsonQuote s)"
  by (simp add: jsonQuote_def printable_escapeBody dquote_def)

lemma printable_showInt [simp]: "printable (showInt i)"
proof -
  have "set digits \<subseteq> set timeChars" "CHR ''-'' \<in> set timeChars" by (auto simp: timeChars_def)
  then show ?thesis using set_showInt[of i] by (intro printable_digits) blast
qed

lemma printable_joinWith: "32 \<le> code c \<Longrightarrow> list_all printable vs \<Longrightarrow> printable (joinWith c vs)"
  by (induction c vs rule: joinWith.induct) simp_all

lemma printable_jsonObj: "list_all (\<lambda>m. printable (snd m)) ms \<Longrightarrow> printable (jsonObj ms)"
  by (simp add: jsonObj_def) (rule printable_joinWith, auto simp: list_all_iff jsonMember_def)

lemma marshalEvent_printable: "printable (marshalEvent ev)"
  by (simp add: marshalEvent_def) (auto intro!: printable_jsonObj simp: eventMembers_def omitIf_def timeJSON_quote)

definition newline :: char where "newline = CHR 0x0A"

lemma newline_notin: "printable s \<Longrightarrow> newline \<notin> set s"
  by (auto simp: printable_def list_all_iff newline_def)

text \<open>A reader of a log: the text up to each line end, decoded.\<close>

definition readLog :: "bytes \<Rightarrow> auditEvent option list" where
  "readLog b = map (unmarshal (decStruct eventFields) zeroEvent) (butlast (splitOn newline b))"

lemma readLog_Nil: "readLog [] = []"
  by (simp add: readLog_def)

lemma readLog_line:
  assumes "typedEvent ev"
  shows "readLog ((marshalEvent ev @ [newline]) @ b) = Some ev # readLog b"
proof -
  have "newline \<notin> set (marshalEvent ev)" by (rule newline_notin[OF marshalEvent_printable])
  moreover have "unmarshal (decStruct eventFields) zeroEvent (marshalEvent ev) = Some ev"
    using jev.unmarshal_print[OF assms] assms by (simp add: marshalEvent_def typedEvent_def)
  ultimately show ?thesis by (simp add: readLog_def splitOn_append_sep)
qed

lemma readLog_lines:
  "list_all typedEvent evs \<Longrightarrow> readLog (concat (map (\<lambda>ev. marshalEvent ev @ [newline]) evs)) = map Some evs"
  by (induction evs) (simp_all add: readLog_Nil readLog_line[simplified])

section \<open>What the rotated files keep\<close>

text \<open>The generations as lists of lines.\<close>

definition lineWrite :: "int \<Rightarrow> bytes list list \<Rightarrow> bytes \<Rightarrow> bytes list list" where
  "lineWrite mx gss l =
     (let gss' = (if int (length (concat (hd gss))) < mx then gss else [] # butlast gss)
      in (hd gss' @ [l]) # tl gss')"

lemma logWrite_lines: "gss \<noteq> [] \<Longrightarrow> logWrite mx (map concat gss) l = map concat (lineWrite mx gss l)"
  by (cases gss) (auto simp: logWrite_def logShift_def lineWrite_def Let_def map_butlast)

text \<open>The lines kept are the last of all lines, the generations that were closed have reached the limit,
  those never used are empty, and a line has been lost only if none of these is left.\<close>

definition keptLines :: "int \<Rightarrow> nat \<Rightarrow> bytes list list \<Rightarrow> bytes list \<Rightarrow> bool" where
  "keptLines mx n gss ls =
     (\<exists>k h bs m. gss = h # bs @ replicate m [] \<and> length bs + m = n \<and> k \<le> length ls \<and> concat (rev gss) = drop k ls
       \<and> list_all (\<lambda>b. mx \<le> int (length (concat b))) bs \<and> (0 < k \<longrightarrow> m = 0))"

lemma keptLines_write:
  assumes "keptLines mx n gss ls" and "0 < n"
  shows "keptLines mx n (lineWrite mx gss l) (ls @ [l])"
proof -
  obtain k h bs m where g: "gss = h # bs @ replicate m []" "length bs + m = n" "k \<le> length ls" "concat (rev gss) = drop k ls"
    "list_all (\<lambda>b. mx \<le> int (length (concat b))) bs" "0 < k \<longrightarrow> m = 0"
    using assms(1) unfolding keptLines_def by blast
  have c: "concat (rev (xs @ replicate j [])) = concat (rev xs)" for xs :: "bytes list list" and j
    by (induction j) (simp_all flip: replicate_append_same)
  have cg: "concat (rev bs) @ h = drop k ls" using g(4) c[of "h # bs"] by (simp add: g(1))
  show ?thesis
  proof (cases "int (length (concat h)) < mx")
    case True
    then have w: "lineWrite mx gss l = (h @ [l]) # bs @ replicate m []" by (simp add: lineWrite_def g(1))
    have "concat (rev ((h @ [l]) # bs @ replicate m [])) = drop k (ls @ [l])"
      using c[of "(h @ [l]) # bs" m] cg g(3) by (simp flip: append_assoc)
    then show ?thesis using g unfolding w keptLines_def by (intro exI[of _ k] exI[of _ "h @ [l]"] exI[of _ bs] exI[of _ m]) simp
  next
    case False
    then have w: "lineWrite mx gss l = [l] # butlast (h # bs @ replicate m [])" by (simp add: lineWrite_def g(1))
    show ?thesis
    proof (cases m)
      case (Suc j)
      have b: "butlast (h # bs @ replicate m []) = (h # bs) @ replicate j []"
        by (simp add: Suc butlast_append flip: replicate_append_same)
      have "concat (rev ([l] # (h # bs) @ replicate j [])) = drop k (ls @ [l])"
        using c[of "[l] # h # bs" j] cg g(3) by (simp flip: append_assoc)
      then show ?thesis
        using g False Suc unfolding w b keptLines_def
        by (intro exI[of _ k] exI[of _ "[l]"] exI[of _ "h # bs"] exI[of _ j]) simp
    next
      case 0
      then obtain cs x where cs: "bs = cs @ [x]" using g(2) assms(2) by (cases bs rule: rev_cases) auto
      have d: "x @ concat (rev cs) @ h = drop k ls" using cg by (simp add: cs)
      have "length x + length (concat (rev cs) @ h) = length ls - k"
        using arg_cong[OF d, of length] by (simp only: length_append length_drop)
      then have k: "k + length x \<le> length ls" using g(3) by linarith
      have "concat (rev cs) @ h = drop (length x) (x @ concat (rev cs) @ h)" by simp
      also have "\<dots> = drop (k + length x) ls" unfolding d by (simp add: add.commute)
      finally have "concat (rev ([l] # (h # cs) @ replicate 0 [])) = drop (k + length x) (ls @ [l])"
        using k by (simp flip: append_assoc)
      then show ?thesis
        using g False k unfolding w keptLines_def 0 cs
        by (intro exI[of _ "k + length x"] exI[of _ "[l]"] exI[of _ "h # cs"] exI[of _ 0]) (simp add: butlast_append)
    qed
  qed
qed

lemma keptLines_writes:
  assumes "0 < n"
  shows "keptLines mx n (foldl (lineWrite mx) (replicate (Suc n) []) ls) ls"
proof (induction ls rule: rev_induct)
  case Nil
  show ?case unfolding keptLines_def
    by (intro exI[of _ 0] exI[of _ "[]"] exI[of _ "[]"] exI[of _ n]) simp
next
  case (snoc l ls)
  then show ?case using keptLines_write[OF snoc assms] by simp
qed

lemma keptLines_retention:
  assumes "keptLines mx n gss ls"
  obtains k where "concat (rev gss) = drop k ls" "0 < k \<Longrightarrow> int n * mx \<le> int (length (concat (drop k ls)))"
proof -
  obtain k h bs m where g: "gss = h # bs @ replicate m []" "length bs + m = n" "concat (rev gss) = drop k ls"
    "list_all (\<lambda>b. mx \<le> int (length (concat b))) bs" "0 < k \<longrightarrow> m = 0"
    using assms unfolding keptLines_def by blast
  have "int n * mx \<le> int (length (concat (drop k ls)))" if "0 < k"
  proof -
    have m: "m = 0" "length bs = n" using g(2,5) that by simp_all
    have "int (length cs) * mx \<le> int (length (concat (concat (rev cs))))"
      if "list_all (\<lambda>b. mx \<le> int (length (concat b))) cs" for cs
      using that by (induction cs) (simp_all add: algebra_simps)
    from this[OF g(4)] show ?thesis using m g(1,3) by (simp flip: g(3))
  qed
  then show thesis using that g(3) by blast
qed

lemma foldl_logWrite_lines:
  "gss \<noteq> [] \<Longrightarrow> foldl (logWrite mx) (map concat gss) ls = map concat (foldl (lineWrite mx) gss ls)"
proof (induction ls arbitrary: gss)
  case (Cons l ls)
  then show ?case using Cons.IH[of "lineWrite mx gss l"] by (simp add: logWrite_lines lineWrite_def Let_def)
qed simp

lemma concat_lines: "concat (rev (map concat gss)) = concat (concat (rev gss))"
  by (induction gss) simp_all

text \<open>The event as it is written: with the id of its app and the clock's time if it has none.\<close>

definition stamped :: "installedApp \<Rightarrow> gotime \<times> auditEvent \<Rightarrow> auditEvent" where
  "stamped a tev = (case tev of (t, ev) \<Rightarrow>
     ev\<lparr>EvApp := ID (Mf a), AtTime := (if AtTime ev = zeroTime then t else AtTime ev)\<rparr>)"

text \<open>C32. A reader of an app's rotated audit log, oldest generation first, gets back the last events
  written, each once, in order and with every field; and events are missing only when at least the
  configured number of generations, each filled to the limit, of newer lines is there.\<close>

theorem audit_log_readable:
  assumes "auditable s a"
    and "\<forall>i \<le> keepN s. contentAt (disk s) (gen (Dir a) i) = []"
    and "list_all (\<lambda>e. typedEvent (stamped a e)) evs"
  shows "\<exists>k. (let log = history (disk (writeLines s a evs)) (Dir a) (keepN s) in
      readLog log = map Some (drop k (map (stamped a) evs))
      \<and> (k = 0 \<or> int (keepN s) * auditMax s \<le> int (length log)))"
proof -
  let ?ls = "map (\<lambda>ev. marshalEvent ev @ [newline]) (map (stamped a) evs)"
  let ?gss = "foldl (lineWrite (auditMax s)) (replicate (Suc (keepN s)) []) ?ls"
  have ls: "map (auditLine a) evs = ?ls"
    by (auto simp: auditLine_def stamped_def newline_def)
  have "gens (disk s) (Dir a) (keepN s) = map concat (replicate (Suc (keepN s)) [])"
    using assms(2) by (auto simp: gens_def map_replicate_const intro!: nth_equalityI simp del: upt_Suc replicate_Suc)
  then have "gens (disk (writeLines s a evs)) (Dir a) (keepN s) = map concat ?gss"
    using writeLines_gens[OF assms(1), of evs] foldl_logWrite_lines[of "replicate (Suc (keepN s)) []"] by (simp add: ls)
  then have h: "history (disk (writeLines s a evs)) (Dir a) (keepN s) = concat (concat (rev ?gss))"
    by (simp add: history_gens concat_lines)
  have "0 < keepN s" by (simp add: keepN_def)
  then obtain k where k: "concat (rev ?gss) = drop k ?ls"
    "0 < k \<Longrightarrow> int (keepN s) * auditMax s \<le> int (length (concat (drop k ?ls)))"
    using keptLines_retention[OF keptLines_writes] by blast
  have "list_all typedEvent (drop k (map (stamped a) evs))"
    using assms(3) set_drop_subset[of k "map (stamped a) evs"] by (auto simp: list_all_iff)
  then have "readLog (concat (drop k ?ls)) = map Some (drop k (map (stamped a) evs))"
    using readLog_lines[of "drop k (map (stamped a) evs)"] by (simp only: drop_map)
  then show ?thesis using k h by (intro exI[of _ k]) (auto simp: Let_def)
qed

text \<open>The log of an app that was started and stopped at noon on the last day of February 2024.\<close>

definition exampleNoon :: gotime where
  "exampleNoon = 1709208000 * 1000000000 + 5000000"

definition exampleEvents :: "(gotime \<times> auditEvent) list" where
  "exampleEvents =
     [(exampleNoon, (audit SpawnEv)\<lparr>PID := 42\<rparr>), (exampleNoon, (audit SuperviseStop)\<lparr>Reason := ''context <done>''\<rparr>)]"

lemma exampleNoon_parts:
  "nat (exampleNoon + epoch) div 1000000000 div 86400 = 739310"
  "nat (exampleNoon + epoch) div 1000000000 mod 86400 = 43200"
  "nat (exampleNoon + epoch) mod 1000000000 = 5000000"
  by (simp_all add: exampleNoon_def epoch_def)

lemma exampleNoon_year: "yearOf 739310 = 2024"
  by (simp add: yearOf_def yearFrom.simps[of 2019] yearFrom.simps[of 2020] yearFrom.simps[of 2021]
    yearFrom.simps[of 2022] yearFrom.simps[of 2023] yearFrom.simps[of 2024] daysBefore_def)

lemma digit_chars:
  "char_of (48 :: nat) = CHR ''0''" "char_of (49 :: nat) = CHR ''1''" "char_of (50 :: nat) = CHR ''2''"
  "char_of (52 :: nat) = CHR ''4''" "char_of (53 :: nat) = CHR ''5''" "char_of (57 :: nat) = CHR ''9''"
  by code_simp+

lemma exampleNoon_texts:
  "pad 4 2024 = ''2024''" "pad 2 (Suc (Suc 0)) = ''02''" "pad 2 29 = ''29''" "clockText 43200 = ''12:00:00''"
  "pad 9 5000000 = ''005000000''"
  by (simp_all add: clockText_def pad_def showNat.simps digit_chars) (simp add: numeral_2_eq_2)

lemma exampleNoon_text: "timeText exampleNoon = ''2024-02-29T12:00:00.005Z''"
proof -
  have "splitMonth (monthLens 2024) 59 = (1, 28)" by code_simp
  then have "dateText 739310 = ''2024-02-29''"
    using exampleNoon_texts by (simp add: dateText_def exampleNoon_year daysBefore_def)
  moreover have "fracText 5000000 = ''.005''" by (simp add: fracText_def fracDigits_def exampleNoon_texts)
  ultimately show ?thesis using exampleNoon_texts by (simp add: timeText_def exampleNoon_parts Let_def)
qed

theorem audit_log_readable_witness:
  "\<exists>k. readLog (history (disk (writeLines exampleSupervisor exampleApp exampleEvents)) (Dir exampleApp) 3)
     = map Some (drop k (map (stamped exampleApp) exampleEvents))"
proof -
  have k: "keepN exampleSupervisor = 3"
    by (simp add: keepN_def auditKeep_def exampleSupervisor_def newSupervisor_def exampleConfig_def defaultAuditLogBackups_def)
  have "nodeAt exampleDisk (gen (Dir exampleApp) i) = None" if "i \<le> 3" for i
  proof -
    have "list_all (\<lambda>i. nodeAt exampleDisk (gen (Dir exampleApp) i) = None) [0, 1, 2, 3]" by code_simp
    moreover have "i \<in> set [0, 1, 2, 3]" using that by auto
    ultimately show ?thesis by (simp only: list_all_iff)
  qed
  then have e: "\<forall>i \<le> keepN exampleSupervisor. contentAt (disk exampleSupervisor) (gen (Dir exampleApp) i) = []"
    unfolding k by (simp add: contentAt_def exampleSupervisor_def newSupervisor_def)
  have "encodable exampleNoon" by (simp add: encodable_def exampleNoon_def epoch_def daysBefore_def)
  moreover have "list_all (\<lambda>c. code c < 128) (ID (Mf exampleApp) @ ''context <done>'')" by code_simp
  ultimately have "list_all (\<lambda>e. typedEvent (stamped exampleApp e)) exampleEvents"
    by (simp add: exampleEvents_def stamped_def typedEvent_def audit_def int64_def validUTF8_ascii zeroTime_def)
  then show ?thesis
    using audit_log_readable[OF exampleSupervisor_auditable e] k
    by (fastforce simp: exampleSupervisor_def newSupervisor_def Let_def)
qed

end
