(* ===== verification/Trail.thy ===== *)
theory Trail
  imports Wiremeta Auditlog
begin

text \<open>
  A provenance trail that crosses a process boundary: it is printed as JSON, read as a
  \<^verbatim>\<open>map[string]any\<close> and found by \<^verbatim>\<open>GetMeta\<close> (\<^verbatim>\<open>pkg/extend/wiremeta.go\<close>).
\<close>

section \<open>As a map and back\<close>

definition goodTimes :: "wireEnv \<Rightarrow> bool" where
  "goodTimes env \<longleftrightarrow> (\<forall>t. encodable t \<longrightarrow> parseTime env (timeText t) = Some t)"

definition okStamp :: "floats \<Rightarrow> nat \<Rightarrow> hookStamp \<Rightarrow> bool" where
  "okStamp ff d s =
     (validUTF8 (StampApp s) \<and> validUTF8 (StampPrimitive s) \<and> validUTF8 (StampVersion s) \<and> encodable (At s)
      \<and> (Details s = [] \<or> okVal ff d (GMap (Details s))))"

definition okTrail :: "floats \<Rightarrow> nat \<Rightarrow> wireMeta \<Rightarrow> bool" where
  "okTrail ff d m =
     (list_all (okStamp ff d) (TouchedBy m) \<and> list_all validUTF8 (Required m) \<and> list_all validUTF8 (Encoding m))"

text \<open>The values as a \<^verbatim>\<open>map[string]any\<close>, whose keys are sorted.\<close>

definition stampVal :: "hookStamp \<Rightarrow> gval" where
  "stampVal s = GMap
     ([(''app'', GStr (StampApp s)), (''at'', GStr (timeText (At s)))] @
      (if Details s = [] then [] else [(''details'', GMap (Details s))]) @
      [(''primitive'', GStr (StampPrimitive s))] @
      (if StampVersion s = [] then [] else [(''version'', GStr (StampVersion s))]))"

definition trailVal :: "wireMeta \<Rightarrow> gval" where
  "trailVal m = GMap
     ((if Encoding m = [] then [] else [(''encoding'', GList (map GStr (Encoding m)))]) @
      (if Required m = [] then [] else [(''required'', GList (map GStr (Required m)))]) @
      (if TouchedBy m = [] then [] else [(''touched_by'', GList (map stampVal (TouchedBy m)))]))"

lemma trail_keys:
  "validUTF8 ''app''" "validUTF8 ''primitive''" "validUTF8 ''version''" "validUTF8 ''at''" "validUTF8 ''details''"
  "validUTF8 ''touched_by''" "validUTF8 ''required''" "validUTF8 ''encoding''"
  by (simp_all add: validUTF8_ascii)

lemma trail_order:
  "''app'' < ''at''" "''at'' < ''details''" "''details'' < ''primitive''" "''primitive'' < ''version''" "''app'' < ''details''"
  "''app'' < ''primitive''" "''app'' < ''version''" "''at'' < ''primitive''" "''at'' < ''version''" "''details'' < ''version''"
  "''encoding'' < ''required''" "''required'' < ''touched_by''" "''encoding'' < ''touched_by''"
  by code_simp+

lemmas trail_order_not = trail_order[THEN order.asym]

lemma decAny_obj:
  "\<forall>m \<in> set ms. isValue maxNestingDepth (snd m) \<Longrightarrow>
     decAny ff (Suc n) (jsonObj ms) = map_option GMap (decEntries (decAny ff n) (map (map_prod escapeBody id) ms) [])"
  using objectMembers_jsonObj[of ms] by (simp add: jsonObj_def)

lemma decAny_arr:
  "\<forall>v \<in> set vs. isValue maxNestingDepth v \<Longrightarrow> decAny ff (Suc n) (jsonArr vs) = map_option GList (those (map (decAny ff n) vs))"
  using arrayElems_jsonArr[of vs] by (simp add: jsonArr_def)

lemma decAny_str: "validUTF8 s \<Longrightarrow> decAny ff n (jsonQuote s) = Some (GStr s)"
  by (simp add: decAny_atom decAtom_def isNull_def jsonQuote_def dquote_def)

text \<open>The text becomes that map,\<close>

lemma stampJSON_value:
  assumes "goodFloats ff" and "okStamp ff d s" and "d \<le> e"
  shows "isValue (Suc e) (stampJSON ff s)"
proof -
  have "isValue e (printAny ff (GMap (Details s)))" if "Details s \<noteq> []"
    by (rule isValue_mono[OF assms(3) printAny_value[OF assms(1)]]) (use assms(2) that in \<open>simp add: okStamp_def del: okVal.simps\<close>)
  then show ?thesis
    unfolding stampJSON_def by (intro isValue_jsonObj) (simp add: omitIf_def timeJSON_quote del: printAny.simps)
qed

lemma decAny_stampJSON:
  assumes "goodFloats ff" and "okStamp ff d s" and "d \<le> n" and "n \<le> maxNestingDepth"
  shows "decAny ff (Suc n) (stampJSON ff s) = Some (stampVal s)"
proof -
  let ?ms = "[(''app'', jsonQuote (StampApp s)), (''primitive'', jsonQuote (StampPrimitive s))] @
      omitIf (StampVersion s = []) (''version'', jsonQuote (StampVersion s)) @ [(''at'', timeJSON (At s))] @
      omitIf (Details s = []) (''details'', printAny ff (GMap (Details s)))"
  have p: "isValue maxNestingDepth (printAny ff (GMap (Details s)))" "decAny ff n (printAny ff (GMap (Details s))) = Some (GMap (Details s))"
    if "Details s \<noteq> []"
  proof -
    have ok: "okVal ff n (GMap (Details s))" using assms(2) that okVal_mono[OF assms(3)] by (simp add: okStamp_def del: okVal.simps)
    show "isValue maxNestingDepth (printAny ff (GMap (Details s)))"
      using printAny_value[OF assms(1) ok] isValue_mono[OF assms(4)] by blast
    show "decAny ff n (printAny ff (GMap (Details s))) = Some (GMap (Details s))"
      using decAny_print[OF assms(1) ok assms(4)] .
  qed
  then have v: "\<forall>m \<in> set ?ms. isValue maxNestingDepth (snd m)"
    by (simp add: omitIf_def timeJSON_quote del: printAny.simps)
  have u: "validUTF8 (StampApp s)" "validUTF8 (StampPrimitive s)" "validUTF8 (StampVersion s)"
    using assms(2) by (simp_all add: okStamp_def)
  show ?thesis
    unfolding stampJSON_def decAny_obj[OF v]
    using p u
    by (cases "Details s = []"; cases "StampVersion s = []")
      (simp_all add: omitIf_def timeJSON_quote trail_keys decAny_str validUTF8_timeText trail_order trail_order_not stampVal_def
        del: printAny.simps)
qed

lemma quotes_read: "list_all validUTF8 ss \<Longrightarrow> those (map (decAny ff n) (map jsonQuote ss)) = Some (map GStr ss)"
  by (induction ss) (simp_all add: decAny_str)

lemma quotes_value: "0 < k \<Longrightarrow> isValue k (jsonArr (map jsonQuote ss))"
  using isValue_jsonArr[of "map jsonQuote ss" "k - 1"] by simp

lemma decAny_wireMetaJSON:
  assumes "goodFloats ff" and "okTrail ff d m" and "d \<le> n" and "Suc (Suc n) \<le> maxNestingDepth"
  shows "decAny ff (Suc (Suc (Suc n))) (wireMetaJSON ff m) = Some (trailVal m)"
proof -
  let ?ss = "jsonArr (map (stampJSON ff) (TouchedBy m))"
  let ?ms = "omitIf (TouchedBy m = []) (''touched_by'', ?ss) @
      omitIf (Required m = []) (''required'', jsonArr (map jsonQuote (Required m))) @
      omitIf (Encoding m = []) (''encoding'', jsonArr (map jsonQuote (Encoding m)))"
  have st: "okStamp ff d s" if "s \<in> set (TouchedBy m)" for s using assms(2) that by (simp add: okTrail_def list_all_iff)
  have sv: "isValue (Suc n) (stampJSON ff s)" if "s \<in> set (TouchedBy m)" for s
    by (rule stampJSON_value[OF assms(1) st[OF that] assms(3)])
  then have "isValue (Suc (Suc n)) ?ss" by (intro isValue_jsonArr) simp
  then have v: "\<forall>x \<in> set ?ms. isValue maxNestingDepth (snd x)"
    using isValue_mono[OF assms(4)] quotes_value[of maxNestingDepth] assms(4) by (simp add: omitIf_def)
  have "those (map (decAny ff (Suc n)) (map (stampJSON ff) ss)) = Some (map stampVal ss)" if "set ss \<subseteq> set (TouchedBy m)" for ss
    using that by (induction ss) (use decAny_stampJSON[OF assms(1) st assms(3)] assms(4) in simp_all)
  then have s: "decAny ff (Suc (Suc n)) ?ss = Some (GList (map stampVal (TouchedBy m)))"
    using sv isValue_mono[of "Suc n" maxNestingDepth] assms(4) by (subst decAny_arr) simp_all
  have q: "decAny ff (Suc (Suc n)) (jsonArr (map jsonQuote ss)) = Some (GList (map GStr ss))" if "list_all validUTF8 ss" for ss
    using quotes_read[OF that] by (subst decAny_arr) simp_all
  have u: "list_all validUTF8 (Required m)" "list_all validUTF8 (Encoding m)" using assms(2) by (simp_all add: okTrail_def)
  show ?thesis
    unfolding wireMetaJSON_def decAny_obj[OF v]
    using s q[OF u(1)] q[OF u(2)]
    by (cases "TouchedBy m = []"; cases "Required m = []"; cases "Encoding m = []")
      (simp_all add: omitIf_def trail_keys trail_order trail_order_not trailVal_def del: decAny.simps)
qed

text \<open>and the map, printed with its keys sorted, is read as the trail.\<close>

lemma stampVal_ok: "okStamp ff d s \<Longrightarrow> okVal ff (Suc d) (stampVal s)"
  by (simp add: okStamp_def stampVal_def trail_keys trail_order validUTF8_timeText del: okVal.simps(7))
    (auto simp: trail_keys trail_order validUTF8_timeText)

lemma trailVal_ok: "okTrail ff d m \<Longrightarrow> okVal ff (Suc (Suc (Suc d))) (trailVal m)"
proof -
  assume t: "okTrail ff d m"
  then have "list_all (okVal ff (Suc d)) (map stampVal (TouchedBy m))"
    using stampVal_ok by (auto simp: okTrail_def list_all_iff)
  moreover have "list_all (okVal ff (Suc d)) (map GStr ss)" if "list_all validUTF8 ss" for ss
    using that by (simp add: list_all_iff)
  ultimately show ?thesis using t by (simp add: okTrail_def trailVal_def trail_keys trail_order)
qed

lemma stamp_lookup:
  "lookupField (stampFields env) ''app'' = Some (fieldDec decString StampApp (\<lambda>v. StampApp_update (\<lambda>_. v)))"
  "lookupField (stampFields env) ''primitive'' = Some (fieldDec decString StampPrimitive (\<lambda>v. StampPrimitive_update (\<lambda>_. v)))"
  "lookupField (stampFields env) ''version'' = Some (fieldDec decString StampVersion (\<lambda>v. StampVersion_update (\<lambda>_. v)))"
  "lookupField (stampFields env) ''at'' = Some (fieldDec (decWireTime env) At (\<lambda>v. At_update (\<lambda>_. v)))"
  "lookupField (stampFields env) ''details'' = Some (fieldDec (decParams (wfloats env)) Details (\<lambda>v. Details_update (\<lambda>_. v)))"
  by (simp_all add: lookupField_def stampFields_def)

lemma meta_lookup:
  "lookupField (metaFields env) ''touched_by'' =
     Some (fieldDec (decSlice (decStruct (stampFields env)) zeroStamp) TouchedBy (\<lambda>v. TouchedBy_update (\<lambda>_. v)))"
  "lookupField (metaFields env) ''required'' = Some (fieldDec (decSlice decString []) Required (\<lambda>v. Required_update (\<lambda>_. v)))"
  "lookupField (metaFields env) ''encoding'' = Some (fieldDec (decSlice decString []) Encoding (\<lambda>v. Encoding_update (\<lambda>_. v)))"
  by (simp_all add: lookupField_def metaFields_def)

lemma printAny_sorted:
  "sorted_wrt (<) (map fst kvs) \<Longrightarrow> printAny ff (GMap kvs) = jsonObj (map (\<lambda>(k, v). (k, printAny ff v)) kvs)"
  by (simp add: sort_printed)

lemma decWireTime_text:
  assumes "goodTimes env" and "encodable t"
  shows "decWireTime env (jsonQuote (timeText t)) old = Some t"
proof -
  have "decWireTime env (timeJSON t) old = Some t"
    using assms by (simp add: decWireTime_def timeJSON_def isNull_def dquote_def goodTimes_def)
  then show ?thesis by (simp add: timeJSON_quote)
qed

lemma stampVal_reads:
  assumes "goodFloats (wfloats env)" and "goodTimes env" and "okStamp (wfloats env) d s" and "Suc d \<le> maxNestingDepth"
  shows "decStruct (stampFields env) (printAny (wfloats env) (stampVal s)) zeroStamp = Some s"
proof -
  let ?kvs = "[(''app'', GStr (StampApp s)), (''at'', GStr (timeText (At s)))] @
      (if Details s = [] then [] else [(''details'', GMap (Details s))]) @
      [(''primitive'', GStr (StampPrimitive s))] @
      (if StampVersion s = [] then [] else [(''version'', GStr (StampVersion s))])"
  let ?ms = "map (\<lambda>(k, v). (k, printAny (wfloats env) v)) ?kvs"
  have p: "isValue maxNestingDepth (printAny (wfloats env) (GMap (Details s)))" "decParams (wfloats env) (printAny (wfloats env) (GMap (Details s))) [] = Some (Details s)"
    if "Details s \<noteq> []"
  proof -
    have ok: "okVal (wfloats env) d (GMap (Details s))" using assms(3) that by (simp add: okStamp_def del: okVal.simps)
    show "isValue maxNestingDepth (printAny (wfloats env) (GMap (Details s)))"
      using printAny_value[OF assms(1) ok] isValue_mono[of d maxNestingDepth] assms(4) by simp
    show "decParams (wfloats env) (printAny (wfloats env) (GMap (Details s))) [] = Some (Details s)"
      by (rule decParams_print[OF assms(1) ok]) (use assms(4) in simp)
  qed
  have "isValue maxNestingDepth (printAny (wfloats env) v)" if "(k, v) \<in> set ?kvs" for k v
    using that p(1) by (auto split: if_splits)
  then have v: "\<forall>m \<in> set ?ms. isValue maxNestingDepth (snd m)" by fastforce
  have o: "printAny (wfloats env) (stampVal s) = jsonObj ?ms"
    unfolding stampVal_def by (rule printAny_sorted) (simp add: trail_order)
  have u: "validUTF8 (StampApp s)" "validUTF8 (StampPrimitive s)" "validUTF8 (StampVersion s)" "encodable (At s)"
    using assms(3) by (simp_all add: okStamp_def)
  show ?thesis
    unfolding o decStruct_jsonObj[OF v]
    using p(2) u decWireTime_text[OF assms(2)]
    by (cases s; cases "Details s = []"; cases "StampVersion s = []")
      (simp_all add: trail_keys stamp_lookup fieldDec_def zeroStamp_def del: printAny.simps(7))
qed

lemma trailVal_reads:
  assumes "goodFloats (wfloats env)" and "goodTimes env" and "okTrail (wfloats env) d m" and "Suc (Suc (Suc d)) \<le> maxNestingDepth"
  shows "decStruct (metaFields env) (printAny (wfloats env) (trailVal m)) emptyMeta = Some m"
proof -
  let ?kvs = "(if Encoding m = [] then [] else [(''encoding'', GList (map GStr (Encoding m)))]) @
      (if Required m = [] then [] else [(''required'', GList (map GStr (Required m)))]) @
      (if TouchedBy m = [] then [] else [(''touched_by'', GList (map stampVal (TouchedBy m)))])"
  let ?ms = "map (\<lambda>(k, v). (k, printAny (wfloats env) v)) ?kvs"
  have o: "printAny (wfloats env) (trailVal m) = jsonObj ?ms"
    unfolding trailVal_def by (rule printAny_sorted) (simp add: trail_order)
  have "okVal (wfloats env) (Suc (Suc d)) v" if "(k, v) \<in> set ?kvs" for k v
    using trailVal_ok[OF assms(3)] that unfolding trailVal_def by (auto simp: list_all_iff split: if_splits)
  then have "isValue maxNestingDepth (printAny (wfloats env) v)" if "(k, v) \<in> set ?kvs" for k v
    using that printAny_value[OF assms(1), of "Suc (Suc d)" v] isValue_mono[of "Suc (Suc d)" maxNestingDepth] assms(4) by simp
  then have v: "\<forall>x \<in> set ?ms. isValue maxNestingDepth (snd x)" by fastforce
  have st: "decStruct (stampFields env) (printAny (wfloats env) (stampVal s)) zeroStamp = Some s"
    "isValue maxNestingDepth (printAny (wfloats env) (stampVal s))" if "s \<in> set (TouchedBy m)" for s
  proof -
    have ok: "okStamp (wfloats env) d s" using assms(3) that by (simp add: okTrail_def list_all_iff)
    show "decStruct (stampFields env) (printAny (wfloats env) (stampVal s)) zeroStamp = Some s"
      by (rule stampVal_reads[OF assms(1,2) ok]) (use assms(4) in simp)
    show "isValue maxNestingDepth (printAny (wfloats env) (stampVal s))"
      using printAny_value[OF assms(1) stampVal_ok[OF ok]] isValue_mono[of "Suc d" maxNestingDepth] assms(4) by simp
  qed
  have ts: "decSlice (decStruct (stampFields env)) zeroStamp (jsonArr (map (printAny (wfloats env) \<circ> stampVal) (TouchedBy m))) [] = Some (TouchedBy m)"
    by (rule decSlice_jsonArr) (use st in simp_all)
  have q: "decSlice decString [] (jsonArr (map (printAny (wfloats env) \<circ> GStr) ss)) [] = Some ss" if "list_all validUTF8 ss" for ss
    using js.slice_reads[OF that] by (simp add: comp_def)
  have u: "list_all validUTF8 (Required m)" "list_all validUTF8 (Encoding m)" using assms(3) by (simp_all add: okTrail_def)
  show ?thesis
    unfolding o decStruct_jsonObj[OF v]
    using ts q[OF u(1)] q[OF u(2)]
    by (cases m; cases "TouchedBy m = []"; cases "Required m = []"; cases "Encoding m = []")
      (simp_all add: trail_keys meta_lookup fieldDec_def emptyMeta_def)
qed

section \<open>Properties\<close>

text \<open>C29. A trail survives a hop between processes: printed as JSON, read back as a \<^verbatim>\<open>map[string]any\<close> and put
  into the arguments, it is the trail \<^verbatim>\<open>GetMeta\<close> returns, with every stamp, instant and detail; and the
  registry's next stamp is appended to it.\<close>

theorem trail_survives_hop:
  assumes "goodFloats (wfloats env)" and "goodTimes env" and "okTrail (wfloats env) d m" and "d + 3 \<le> maxNestingDepth"
  shows "\<exists>v args' m'. decAny (wfloats env) maxNestingDepth (wireMetaJSON (wfloats env) m) = Some v
    \<and> GetMeta env (Some (args(metaKey \<mapsto> Plain v))) = m
    \<and> stampAndConsume env (Some (args(metaKey \<mapsto> Plain v))) app p ver t = Some (Some args')
    \<and> args' metaKey = Some (MetaPtr (Some m')) \<and> butlast (TouchedBy m') = TouchedBy m
    \<and> StampApp (last (TouchedBy m')) = app \<and> StampPrimitive (last (TouchedBy m')) = p \<and> At (last (TouchedBy m')) = t"
proof -
  let ?a = "Some (args(metaKey \<mapsto> Plain (trailVal m)))"
  obtain n where n: "maxNestingDepth = Suc (Suc (Suc n))" "d \<le> n"
    using assms(4) that[of "maxNestingDepth - 3"] by (simp add: maxNestingDepth_def)
  have 1: "decAny (wfloats env) maxNestingDepth (wireMetaJSON (wfloats env) m) = Some (trailVal m)"
    using decAny_wireMetaJSON[OF assms(1,3) n(2)] n(1) by simp
  have "isValue maxNestingDepth (printAny (wfloats env) (trailVal m))"
    using printAny_value[OF assms(1) trailVal_ok[OF assms(3)]] isValue_mono[of "Suc (Suc (Suc d))" maxNestingDepth] assms(4) by simp
  then have "trailJSON env (Plain (trailVal m)) = Some m"
    using trailVal_reads[OF assms(1-3)] assms(4) by (simp add: trailJSON_def unmarshal_value)
  then have 2: "GetMeta env ?a = m"
    by (simp add: GetMeta_def argGet_def trailVal_def)
  have "\<exists>args' m'. stampAndConsume env ?a app p ver t = Some (Some args')
    \<and> args' metaKey = Some (MetaPtr (Some m')) \<and> butlast (TouchedBy m') = TouchedBy m
    \<and> StampApp (last (TouchedBy m')) = app \<and> StampPrimitive (last (TouchedBy m')) = p \<and> At (last (TouchedBy m')) = t"
    by (simp add: stampAndConsume_def 2 Let_def SetMeta_def argSet_def argDelete_def)
  then show ?thesis using 1 2 by blast
qed

definition exampleTrail :: wireMeta where
  "exampleTrail = \<lparr> TouchedBy = [\<lparr> StampApp = ''io.pilot.wallet'', StampPrimitive = ''send-message.pre'', StampVersion = [],
       At = exampleNoon, Details = [(''amount'', GNum 5), (''paid'', GBool True)] \<rparr>],
     Required = [''io.pilot.wallet''], Encoding = [''gzip''] \<rparr>"

theorem trail_survives_hop_witness:
  "\<exists>v. decAny intFloats maxNestingDepth (wireMetaJSON intFloats exampleTrail) = Some v
    \<and> GetMeta exampleWire (Some [metaKey \<mapsto> Plain v]) = exampleTrail"
proof -
  have wf: "wfloats exampleWire = intFloats" by (simp add: exampleWire_def)
  have "goodTimes exampleWire" by (simp add: goodTimes_def exampleWire_def)
  moreover have "encodable exampleNoon" by (simp add: encodable_def exampleNoon_def epoch_def daysBefore_def)
  then have "okTrail intFloats 1 exampleTrail"
    by (simp add: okTrail_def okStamp_def exampleTrail_def validUTF8_ascii intFloats_def int64_def)
  moreover have "1 + 3 \<le> maxNestingDepth" by (simp add: maxNestingDepth_def)
  ultimately show ?thesis using trail_survives_hop[of exampleWire 1 exampleTrail Map.empty "[]" "[]" "[]" 0] goodFloats_intFloats wf by auto
qed

end
